(* ===== verification/Prelude.thy ===== *)
theory Prelude
  imports Main "HOL-Library.Word" "HOL-Library.List_Lexorder" "HOL-Library.Char_ord"
    "HOL-Library.Product_Lexorder" "HOL-Library.Code_Target_Numeral"
    "HOL-Library.Power_By_Squaring"
begin

text \<open>
  What every theory of the development shares: the error values of the Go code, the
  integers of Go at their width, and generic lemmas on sums, lists and divisibility.

  Go functions with results \<open>(T, error)\<close> are modelled by \<open>error + 'a\<close>: \<open>Inl e\<close> is
  "err is e, the other result is not used", \<open>Inr x\<close> is "err is nil". A function that may
  also panic (an index out of range) has the result type \<open>'a outcome\<close>.
\<close>

unbundle bit_operations_syntax

subsection \<open>Errors\<close>

text \<open>
  A field error of an admission response (\<open>field.Invalid\<close>): the path, the offending value,
  in one of the three shapes the code passes, and the detail, kept as the error whose text
  it is; on its own it is the error \<open>FieldInvalid\<close>. \<open>Invalid\<close> holds the group, kind and name of the object and its field errors.
\<close>

datatype field_value = FString string | FStrings "string list" | FInt int

datatype error =
    NotFound
  | ApiError string
  | ErrorString string
  | ParseAddrError string
  | ParsePrefixError string
  | RangeError string
  | BuilderError string
  | Wrapped string error
  | Aggregate "error list"
  | AlreadyOwned
  | BadRequest string "string list"
  | InternalError error
  | FieldInvalid string field_value error
  | Invalid string string string "(string \<times> field_value \<times> error) list"

type_synonym field_error = "string \<times> field_value \<times> error"

definition field_Invalid :: "string \<Rightarrow> field_value \<Rightarrow> string \<Rightarrow> field_error" where
  "field_Invalid path v detail = (path, v, ErrorString detail)"

text \<open>A computation that may panic.\<close>

datatype 'a outcome = Ok 'a | Err error | Panic string

primrec from_sum :: "error + 'a \<Rightarrow> 'a outcome" where
  "from_sum (Inl e) = Err e"
| "from_sum (Inr x) = Ok x"

subsection \<open>Go integers\<close>

text \<open>
  \<open>int\<close> is 64 bits wide on every platform the manager is built for. Values are integers;
  \<open>go_int\<close> and \<open>go_int32\<close> wrap a mathematical integer into the width.
\<close>

definition go_int :: "int \<Rightarrow> int" where
  "go_int x = signed_take_bit 63 x"

definition go_int32 :: "int \<Rightarrow> int" where
  "go_int32 x = signed_take_bit 31 x"

definition max_int :: int where
  "max_int = 9223372036854775807"

lemma max_int_eq: "max_int = 2 ^ 63 - 1"
  by (simp add: max_int_def)

lemma max_int_pos [simp]: "0 < max_int" "0 \<le> max_int"
  by (simp_all add: max_int_def)

lemma go_int_id: "- (2 ^ 63) \<le> x \<Longrightarrow> x \<le> max_int \<Longrightarrow> go_int x = x"
  by (simp add: go_int_def max_int_def signed_take_bit_int_eq_self)

lemma go_int32_id: "- (2 ^ 31) \<le> x \<Longrightarrow> x < 2 ^ 31 \<Longrightarrow> go_int32 x = x"
  by (simp add: go_int32_def signed_take_bit_int_eq_self)

lemma go_int_bounds: "- (2 ^ 63) \<le> go_int x" "go_int x \<le> max_int"
proof -
  show "- (2 ^ 63) \<le> go_int x"
    unfolding go_int_def by (rule signed_take_bit_int_greater_eq_minus_exp)
  have "go_int x < 2 ^ 63"
    unfolding go_int_def by (rule signed_take_bit_int_less_exp)
  then show "go_int x \<le> max_int" by (simp add: max_int_def)
qed

text \<open>
  Evaluation: numbers and words are kept as terms by the code equations; these identities
  force them to a literal. They occur in code equations only.
\<close>

definition strict_nat :: "nat \<Rightarrow> nat" where
  "strict_nat n = nat_of_integer (integer_of_nat n)"

definition strict_word :: "'a::len word \<Rightarrow> 'a word" where
  "strict_word w = word_of_int (uint w)"

lemma strict_nat_id: "strict_nat n = n"
  by (simp add: strict_nat_def)

lemma strict_word_id: "strict_word w = w"
  by (simp add: strict_word_def)

lemma two_power_code [code_unfold]:
  "(2::nat) ^ n = efficient_funpow (*) 1 2 n" "(2::int) ^ n = efficient_funpow (*) 1 2 n"
  "(2::integer) ^ n = efficient_funpow (*) 1 2 n"
  by (simp_all only: power_by_squaring)

subsection \<open>Sums\<close>

primrec sum_bind :: "error + 'a \<Rightarrow> ('a \<Rightarrow> error + 'b) \<Rightarrow> error + 'b" where
  "sum_bind (Inl e) f = Inl e"
| "sum_bind (Inr x) f = f x"

lemma sum_bind_Inr_iff: "sum_bind r f = Inr y \<longleftrightarrow> (\<exists>x. r = Inr x \<and> f x = Inr y)"
  by (cases r) auto

lemma sum_bind_Inl_iff:
  "sum_bind r f = Inl e \<longleftrightarrow> r = Inl e \<or> (\<exists>x. r = Inr x \<and> f x = Inl e)"
  by (cases r) auto

primrec outcome_bind :: "'a outcome \<Rightarrow> ('a \<Rightarrow> 'b outcome) \<Rightarrow> 'b outcome" where
  "outcome_bind (Ok x) f = f x"
| "outcome_bind (Err e) f = Err e"
| "outcome_bind (Panic s) f = Panic s"

lemma outcome_bind_Ok_iff: "outcome_bind r f = Ok y \<longleftrightarrow> (\<exists>x. r = Ok x \<and> f x = Ok y)"
  by (cases r) auto

lemma from_sum_Ok_iff [simp]: "from_sum r = Ok x \<longleftrightarrow> r = Inr x"
  by (cases r) auto

lemma from_sum_not_Panic [simp]: "from_sum r \<noteq> Panic s"
  by (cases r) auto

lemma from_sum_Err_iff [simp]: "from_sum r = Err e \<longleftrightarrow> r = Inl e"
  by (cases r) auto

subsection \<open>Lists\<close>

text \<open>A run that maps every element and stops at the first error.\<close>

fun traverse :: "('a \<Rightarrow> error + 'b) \<Rightarrow> 'a list \<Rightarrow> error + 'b list" where
  "traverse f [] = Inr []"
| "traverse f (x # xs) = sum_bind (f x) (\<lambda>y. sum_bind (traverse f xs) (\<lambda>ys. Inr (y # ys)))"

lemma sorted_wrt_hd_least:
  "sorted_wrt P (x # xs) \<Longrightarrow> y \<in> set xs \<Longrightarrow> P x y"
  by simp

lemma append_butlast_hd: "xs \<noteq> [] \<Longrightarrow> xs = hd xs # tl xs"
  by simp

end
