(* ===== verification/NetIP.thy ===== *)
theory NetIP
  imports Prelude
begin

text \<open>
  The part of Go's standard package \<open>net/netip\<close> that the provider uses: addresses,
  prefixes, their order, successor and masking. An address is the zero value, an IPv4
  address, or an IPv6 address with its zone (the empty string: no zone), as the three
  cases of the field \<open>z\<close> of \<open>netip.Addr\<close>. Parsing and printing are in \<open>NetIPText\<close>.
\<close>

unbundle bit_operations_syntax

datatype addr = ZeroAddr | V4 "32 word" | V6 "128 word" string

fun Is4 :: "addr \<Rightarrow> bool" where
  "Is4 (V4 w) = True"
| "Is4 _ = False"

fun Is6 :: "addr \<Rightarrow> bool" where
  "Is6 (V6 w z) = True"
| "Is6 _ = False"

fun IsValid :: "addr \<Rightarrow> bool" where
  "IsValid ZeroAddr = False"
| "IsValid _ = True"

fun BitLen :: "addr \<Rightarrow> int" where
  "BitLen ZeroAddr = 0"
| "BitLen (V4 w) = 32"
| "BitLen (V6 w z) = 128"

fun Zone :: "addr \<Rightarrow> string" where
  "Zone (V6 w z) = z"
| "Zone _ = []"

fun WithZone :: "addr \<Rightarrow> string \<Rightarrow> addr" where
  "WithZone (V6 w z) z' = V6 w z'"
| "WithZone a z' = a"

text \<open>
  \<open>Addr.Next\<close> and \<open>Addr.Prev\<close>: the zero value on overflow. (Of the zero value Go's
  \<open>Next\<close> is again an invalid address; here it is the zero value.)
\<close>

fun Next :: "addr \<Rightarrow> addr" where
  "Next ZeroAddr = ZeroAddr"
| "Next (V4 w) = (if w + 1 = 0 then ZeroAddr else V4 (w + 1))"
| "Next (V6 w z) = (if w + 1 = 0 then ZeroAddr else V6 (w + 1) z)"

fun Prev :: "addr \<Rightarrow> addr" where
  "Prev ZeroAddr = ZeroAddr"
| "Prev (V4 w) = (if w = 0 then ZeroAddr else V4 (w - 1))"
| "Prev (V6 w z) = (if w = 0 then ZeroAddr else V6 (w - 1) z)"

fun addr_bits :: "addr \<Rightarrow> nat" where
  "addr_bits ZeroAddr = 0"
| "addr_bits (V4 w) = unat w"
| "addr_bits (V6 w z) = unat w"

text \<open>\<open>Addr.Compare\<close>: by bit length, then by value, then by zone.\<close>

definition Compare :: "addr \<Rightarrow> addr \<Rightarrow> int" where
  "Compare a b =
     (if BitLen a < BitLen b then -1
      else if BitLen a > BitLen b then 1
      else if addr_bits a < addr_bits b then -1
      else if addr_bits a > addr_bits b then 1
      else if Is6 a \<and> Zone a < Zone b then -1
      else if Is6 a \<and> Zone a > Zone b then 1
      else 0)"

subsection \<open>The order of addresses\<close>

definition addr_key :: "addr \<Rightarrow> int \<times> nat \<times> string" where
  "addr_key a = (BitLen a, addr_bits a, Zone a)"

lemma addr_key_inject [simp]: "addr_key a = addr_key b \<longleftrightarrow> a = b"
  by (cases a; cases b) (auto simp: addr_key_def word_unat_eq_iff)

instantiation addr :: linorder
begin

definition less_eq_addr :: "addr \<Rightarrow> addr \<Rightarrow> bool" where
  "a \<le> b \<longleftrightarrow> addr_key a \<le> addr_key b"

definition less_addr :: "addr \<Rightarrow> addr \<Rightarrow> bool" where
  "a < b \<longleftrightarrow> addr_key a < addr_key b"

instance
  by standard (auto simp: less_eq_addr_def less_addr_def less_le_not_le dest: order_antisym)

end

lemma Compare_less: "Compare a b < 0 \<longleftrightarrow> a < b"
  by (cases a; cases b) (auto simp: Compare_def less_addr_def addr_key_def)

lemma Compare_eq: "Compare a b = 0 \<longleftrightarrow> a = b"
  by (cases a; cases b) (auto simp: Compare_def word_unat_eq_iff)


subsection \<open>Addresses without a zone, by family and number\<close>

text \<open>
  The valid addresses without a zone are two copies of an interval of numbers:
  \<open>zaddr f n\<close> for \<open>n < 2 ^ famlen f\<close>.
\<close>

datatype family = F4 | F6

primrec famlen :: "family \<Rightarrow> nat" where
  "famlen F4 = 32"
| "famlen F6 = 128"

primrec zaddr :: "family \<Rightarrow> nat \<Rightarrow> addr" where
  "zaddr F4 n = V4 (word_of_nat n)"
| "zaddr F6 n = V6 (word_of_nat n) []"

lemma zaddr_code [code]:
  "zaddr F4 n = V4 (strict_word (word_of_nat n))"
  "zaddr F6 n = V6 (strict_word (word_of_nat n)) []"
  by (simp_all add: strict_word_id)

definition zoneless :: "addr \<Rightarrow> bool" where
  "zoneless a \<longleftrightarrow> IsValid a \<and> Zone a = []"

lemma zoneless_cases:
  assumes "zoneless a"
  obtains f n where "a = zaddr f n" "n < 2 ^ famlen f"
proof (cases a)
  case ZeroAddr
  then show ?thesis using assms by (simp add: zoneless_def)
next
  case (V4 w)
  have "unat w < 2 ^ 32" using unsigned_less [of w, where ?'a = nat] by simp
  then show ?thesis using that [of F4 "unat w"] V4 by simp
next
  case (V6 w z)
  have "unat w < 2 ^ 128" using unsigned_less [of w, where ?'a = nat] by simp
  then show ?thesis using that [of F6 "unat w"] V6 assms by (simp add: zoneless_def)
qed

lemma zaddr_zoneless [simp]: "zoneless (zaddr f n)"
  by (cases f) (simp_all add: zoneless_def)

lemma zaddr_valid [simp]: "IsValid (zaddr f n)"
  by (cases f) simp_all

lemma zaddr_not_zero [simp]: "zaddr f n \<noteq> ZeroAddr" "ZeroAddr \<noteq> zaddr f n"
  by (cases f; simp)+

lemma zaddr_Zone [simp]: "Zone (zaddr f n) = []"
  by (cases f) simp_all

lemma zaddr_BitLen [simp]: "BitLen (zaddr f n) = int (famlen f)"
  by (cases f) simp_all

lemma famlen_eq [simp]: "famlen f = famlen g \<longleftrightarrow> f = g"
  by (cases f; cases g) simp_all

lemma zaddr_bits: "n < 2 ^ famlen f \<Longrightarrow> addr_bits (zaddr f n) = n"
  by (cases f) (simp_all add: unat_of_nat)

lemma zaddr_eq [simp]:
  assumes "n < 2 ^ famlen f" "m < 2 ^ famlen g"
  shows "zaddr f n = zaddr g m \<longleftrightarrow> f = g \<and> n = m"
proof
  assume eq: "zaddr f n = zaddr g m"
  then have "famlen f = famlen g" by (metis of_nat_eq_iff zaddr_BitLen)
  then have "f = g" by simp
  moreover from eq assms have "n = m" by (metis zaddr_bits)
  ultimately show "f = g \<and> n = m" by simp
qed simp

lemma zaddr_le [simp]:
  assumes "n < 2 ^ famlen f" "m < 2 ^ famlen f"
  shows "zaddr f n \<le> zaddr f m \<longleftrightarrow> n \<le> m"
  using assms by (auto simp: less_eq_addr_def addr_key_def zaddr_bits)

lemma zaddr_less [simp]:
  assumes "n < 2 ^ famlen f" "m < 2 ^ famlen f"
  shows "zaddr f n < zaddr f m \<longleftrightarrow> n < m"
  using assms by (auto simp: less_addr_def addr_key_def zaddr_bits)

lemma Next_zaddr:
  assumes "n < 2 ^ famlen f"
  shows "Next (zaddr f n) = (if Suc n < 2 ^ famlen f then zaddr f (Suc n) else ZeroAddr)"
proof (cases f)
  case F4
  have "word_of_nat n + (1 :: 32 word) = 0 \<longleftrightarrow> \<not> Suc n < 2 ^ 32"
    using assms F4 by (simp add: word_unat_eq_iff unat_word_ariths unat_of_nat)
       (auto simp: mod_Suc)
  then show ?thesis using F4 by (simp add: add.commute)
next
  case F6
  have "word_of_nat n + (1 :: 128 word) = 0 \<longleftrightarrow> \<not> Suc n < 2 ^ 128"
    using assms F6 by (simp add: word_unat_eq_iff unat_word_ariths unat_of_nat)
       (auto simp: mod_Suc)
  then show ?thesis using F6 by (simp add: add.commute)
qed

lemma WithZone_zaddr [simp]: "WithZone (zaddr f n) [] = zaddr f n"
  by (cases f) simp_all

lemma zoneless_WithZone: "IsValid a \<Longrightarrow> zoneless (WithZone a [])"
  by (cases a) (simp_all add: zoneless_def)

lemma WithZone_zoneless [simp]: "zoneless a \<Longrightarrow> WithZone a [] = a"
  by (cases a) (simp_all add: zoneless_def)

lemma zoneless_not_zero: "zoneless a \<Longrightarrow> a \<noteq> ZeroAddr"
  by (auto simp: zoneless_def)


definition addr_interval :: "addr \<Rightarrow> addr \<Rightarrow> addr set" where
  "addr_interval a b = {x. zoneless x \<and> a \<le> x \<and> x \<le> b}"

lemma le_zaddr_between:
  assumes "zaddr f n \<le> zaddr g m" "zaddr g m \<le> zaddr f k"
  shows "g = f"
proof -
  from assms have "BitLen (zaddr f n) \<le> BitLen (zaddr g m)" "BitLen (zaddr g m) \<le> BitLen (zaddr f k)"
    by (auto simp: less_eq_addr_def addr_key_def)
  then have "famlen g = famlen f" by simp
  then show ?thesis by simp
qed

lemma addr_interval_zaddr:
  assumes "a < 2 ^ famlen f" "b < 2 ^ famlen f"
  shows "addr_interval (zaddr f a) (zaddr f b) = zaddr f ` {a..b}"
proof (intro set_eqI iffI)
  fix x assume x: "x \<in> addr_interval (zaddr f a) (zaddr f b)"
  then have "zoneless x" by (simp add: addr_interval_def)
  then obtain g n where g: "x = zaddr g n" "n < 2 ^ famlen g" by (rule zoneless_cases)
  with x have "g = f" by (auto simp: addr_interval_def intro: le_zaddr_between)
  with x g assms show "x \<in> zaddr f ` {a..b}" by (auto simp: addr_interval_def)
next
  fix x assume "x \<in> zaddr f ` {a..b}"
  with assms show "x \<in> addr_interval (zaddr f a) (zaddr f b)"
    by (auto simp: addr_interval_def)
qed

lemma inj_on_zaddr: "S \<subseteq> {..<2 ^ famlen f} \<Longrightarrow> inj_on (zaddr f) S"
  by (rule inj_onI) (use zaddr_eq in blast)

lemma zaddr_image_mem:
  assumes "n < 2 ^ famlen f" "S \<subseteq> {..<2 ^ famlen g}"
  shows "zaddr f n \<in> zaddr g ` S \<longleftrightarrow> f = g \<and> n \<in> S"
  using assms by (auto simp: zaddr_eq subset_iff)

subsection \<open>Prefixes\<close>

text \<open>
  \<open>netip.Prefix\<close>: the address (its zone is dropped by every constructor) and the number of
  bits, -1 for an invalid prefix. Struct equality of the Go code is record equality.
\<close>

record netprefix =
  pfx_addr :: addr
  pfx_bits :: int

definition zero_prefix :: netprefix where
  "zero_prefix = \<lparr>pfx_addr = ZeroAddr, pfx_bits = -1\<rparr>"

definition PrefixFrom :: "addr \<Rightarrow> int \<Rightarrow> netprefix" where
  "PrefixFrom ip b =
     \<lparr>pfx_addr = WithZone ip [],
      pfx_bits = (if ip \<noteq> ZeroAddr \<and> 0 \<le> b \<and> b \<le> BitLen ip then b else -1)\<rparr>"

definition Prefix_IsValid :: "netprefix \<Rightarrow> bool" where
  "Prefix_IsValid p \<longleftrightarrow> 0 \<le> pfx_bits p"

text \<open>\<open>Addr.Prefix\<close>: the top bits of the address, or an error.\<close>

fun Addr_Prefix :: "addr \<Rightarrow> int \<Rightarrow> netprefix option" where
  "Addr_Prefix ZeroAddr b = (if b < 0 then None else Some zero_prefix)"
| "Addr_Prefix (V4 w) b =
     (if b < 0 \<or> b > 32 then None
      else Some (PrefixFrom (V4 (w AND NOT (mask (32 - nat b)))) b))"
| "Addr_Prefix (V6 w z) b =
     (if b < 0 \<or> b > 128 then None
      else Some (PrefixFrom (V6 (w AND NOT (mask (128 - nat b))) z) b))"

lemma strict_addr_code [code]:
  "addr_bits ZeroAddr = 0"
  "addr_bits (V4 w) = strict_nat (unat w)"
  "addr_bits (V6 u z) = strict_nat (unat u)"
  "Addr_Prefix ZeroAddr b = (if b < 0 then None else Some zero_prefix)"
  "Addr_Prefix (V4 w) b =
     (if b < 0 \<or> b > 32 then None
      else Some (PrefixFrom (V4 (strict_word (w AND NOT (mask (32 - nat b))))) b))"
  "Addr_Prefix (V6 u z) b =
     (if b < 0 \<or> b > 128 then None
      else Some (PrefixFrom (V6 (strict_word (u AND NOT (mask (128 - nat b)))) z) b))"
  "Next ZeroAddr = ZeroAddr"
  "Next (V4 w) = (let w' = strict_word (w + 1) in if w' = 0 then ZeroAddr else V4 w')"
  "Next (V6 u z) = (let u' = strict_word (u + 1) in if u' = 0 then ZeroAddr else V6 u' z)"
  by (simp_all add: strict_nat_id strict_word_id Let_def)

definition Masked :: "netprefix \<Rightarrow> netprefix" where
  "Masked p = (case Addr_Prefix (pfx_addr p) (pfx_bits p) of None \<Rightarrow> zero_prefix | Some q \<Rightarrow> q)"

text \<open>The addresses a prefix covers: those without a zone that agree with it after masking.\<close>

definition pfx_set :: "netprefix \<Rightarrow> addr set" where
  "pfx_set p =
     (if Prefix_IsValid p then {a. zoneless a \<and> Masked (PrefixFrom a (pfx_bits p)) = Masked p}
      else {})"

subsection \<open>Aligned blocks\<close>

text \<open>
  The masked prefixes of length \<open>b\<close> of a family are numbered by \<open>k < 2 ^ b\<close>: block
  \<open>k\<close> starts at \<open>k * 2 ^ (famlen f - b)\<close>.
\<close>

definition bsize :: "family \<Rightarrow> nat \<Rightarrow> nat" where
  "bsize f b = 2 ^ (famlen f - b)"

lemma bsize_code [code]: "bsize f b = strict_nat (2 ^ (famlen f - b))"
  by (simp add: bsize_def strict_nat_id)

definition nprefix :: "family \<Rightarrow> nat \<Rightarrow> nat \<Rightarrow> netprefix" where
  "nprefix f k b = \<lparr>pfx_addr = zaddr f (k * bsize f b), pfx_bits = int b\<rparr>"

lemma bsize_pos [simp]: "0 < bsize f b" "bsize f b \<noteq> 0"
  by (simp_all add: bsize_def)

lemma block_bound:
  assumes "k < 2 ^ b" "b \<le> famlen f"
  shows "Suc k * bsize f b \<le> 2 ^ famlen f"
proof -
  have "Suc k * bsize f b \<le> 2 ^ b * bsize f b"
    using assms by (intro mult_right_mono) auto
  also have "\<dots> = 2 ^ famlen f"
    using assms by (simp add: bsize_def power_add [symmetric])
  finally show ?thesis .
qed

lemma block_start_bound:
  assumes "k < 2 ^ b" "b \<le> famlen f"
  shows "k * bsize f b < 2 ^ famlen f"
proof -
  have "k * bsize f b < Suc k * bsize f b" by simp
  also have "\<dots> \<le> 2 ^ famlen f" using assms by (rule block_bound)
  finally show ?thesis .
qed

lemma unat_and_not_mask:
  fixes w :: "'a::len word"
  shows "unat (w AND NOT (mask k)) = unat w div 2 ^ k * 2 ^ k"
proof -
  have "w AND NOT (mask k) = push_bit k (drop_bit k w)"
    by (rule bit_eqI) (auto simp: bit_simps)
  moreover have "unat (push_bit k (drop_bit k w)) = unat w div 2 ^ k * 2 ^ k"
  proof -
    have le: "unat w div 2 ^ k * 2 ^ k \<le> unat w" by simp
    have "unat w < 2 ^ LENGTH('a)" by simp
    with le have "unat w div 2 ^ k * 2 ^ k < 2 ^ LENGTH('a)" by (rule le_less_trans)
    have "unat (push_bit k (drop_bit k w)) = take_bit LENGTH('a) (push_bit k (unat (drop_bit k w)))"
      by (rule unsigned_push_bit_eq)
    also have "\<dots> = take_bit LENGTH('a) (unat w div 2 ^ k * 2 ^ k)"
      by (simp only: unat_drop_bit_eq) (simp only: drop_bit_eq_div push_bit_eq_mult)
    also have "\<dots> = unat w div 2 ^ k * 2 ^ k"
      using \<open>unat w div 2 ^ k * 2 ^ k < 2 ^ LENGTH('a)\<close> by (rule take_bit_nat_eq_self)
    finally show ?thesis .
  qed
  ultimately show ?thesis by simp
qed

lemma word_and_not_mask_of_nat:
  assumes "n < 2 ^ LENGTH('a::len)"
  shows "(word_of_nat n :: 'a word) AND NOT (mask k) = word_of_nat (n div 2 ^ k * 2 ^ k)"
proof -
  have "n div 2 ^ k * 2 ^ k \<le> n" by simp
  then have "n div 2 ^ k * 2 ^ k < 2 ^ LENGTH('a)" using assms by linarith
  with assms show ?thesis
    by (simp only: word_unat_eq_iff unat_and_not_mask unat_of_nat mod_less)
qed

lemma PrefixFrom_zaddr:
  "b \<le> famlen f \<Longrightarrow> PrefixFrom (zaddr f n) (int b) = \<lparr>pfx_addr = zaddr f n, pfx_bits = int b\<rparr>"
  by (simp add: PrefixFrom_def)

lemma Addr_Prefix_zaddr:
  assumes "n < 2 ^ famlen f" "b \<le> famlen f"
  shows "Addr_Prefix (zaddr f n) (int b) = Some (nprefix f (n div bsize f b) b)"
  using assms
  by (cases f) (simp_all add: nprefix_def PrefixFrom_def bsize_def word_and_not_mask_of_nat)

lemma Masked_zaddr:
  assumes "n < 2 ^ famlen f" "b \<le> famlen f"
  shows "Masked \<lparr>pfx_addr = zaddr f n, pfx_bits = int b\<rparr> = nprefix f (n div bsize f b) b"
  using assms by (simp add: Masked_def Addr_Prefix_zaddr)

lemma Masked_PrefixFrom_zaddr:
  assumes "n < 2 ^ famlen f" "b \<le> famlen f"
  shows "Masked (PrefixFrom (zaddr f n) (int b)) = nprefix f (n div bsize f b) b"
  using assms by (simp add: PrefixFrom_zaddr Masked_zaddr)

lemma Masked_nprefix [simp]:
  assumes "k < 2 ^ b" "b \<le> famlen f"
  shows "Masked (nprefix f k b) = nprefix f k b"
  using assms block_start_bound [OF assms]
  by (simp add: nprefix_def Masked_zaddr)

lemma nprefix_sel [simp]:
  "pfx_addr (nprefix f k b) = zaddr f (k * bsize f b)" "pfx_bits (nprefix f k b) = int b"
  by (simp_all add: nprefix_def)

lemma nprefix_valid [simp]: "Prefix_IsValid (nprefix f k b)"
  by (simp add: Prefix_IsValid_def)

lemma nprefix_eq:
  assumes "k < 2 ^ b" "b \<le> famlen f" "k' < 2 ^ b'" "b' \<le> famlen g"
  shows "nprefix f k b = nprefix g k' b' \<longleftrightarrow> f = g \<and> k = k' \<and> b = b'"
  using block_start_bound [OF assms(1,2)] block_start_bound [OF assms(3,4)]
  by (auto simp: nprefix_def)


lemma pfx_set_nprefix:
  assumes "k < 2 ^ b" "b \<le> famlen f"
  shows "pfx_set (nprefix f k b) = zaddr f ` {k * bsize f b ..< Suc k * bsize f b}"
proof (intro set_eqI iffI)
  fix x assume "x \<in> pfx_set (nprefix f k b)"
  then have x: "zoneless x" "Masked (PrefixFrom x (int b)) = nprefix f k b"
    using assms by (simp_all add: pfx_set_def)
  from x(1) obtain g n where g: "x = zaddr g n" "n < 2 ^ famlen g" by (rule zoneless_cases)
  have b: "b \<le> famlen g"
  proof (rule ccontr)
    assume "\<not> b \<le> famlen g"
    then have "Masked (PrefixFrom x (int b)) = zero_prefix"
      using g by (cases g) (simp_all add: PrefixFrom_def Masked_def)
    with x(2) show False by (simp add: nprefix_def zero_prefix_def)
  qed
  have n: "n div bsize g b < 2 ^ b"
    using g(2) b by (simp add: bsize_def less_mult_imp_div_less power_add [symmetric])
  from x(2) g b have "nprefix g (n div bsize g b) b = nprefix f k b"
    by (simp add: Masked_PrefixFrom_zaddr)
  with n b assms have "g = f" "n div bsize f b = k" by (auto simp: nprefix_eq)
  moreover have "n < bsize f b + n div bsize f b * bsize f b"
    by (rule dividend_less_div_times) simp
  ultimately have "g = f" "k * bsize f b \<le> n" "n < Suc k * bsize f b"
    by auto
  with g \<open>g = f\<close> show "x \<in> zaddr f ` {k * bsize f b ..< Suc k * bsize f b}" by auto
next
  fix x assume "x \<in> zaddr f ` {k * bsize f b ..< Suc k * bsize f b}"
  then obtain n where n: "x = zaddr f n" "k * bsize f b \<le> n" "n < Suc k * bsize f b" by auto
  then have "n div bsize f b = k" by (intro div_nat_eqI) (auto simp: mult.commute)
  moreover have "n < 2 ^ famlen f" using n(3) block_bound [OF assms] by linarith
  ultimately show "x \<in> pfx_set (nprefix f k b)"
    using n(1) assms by (simp add: pfx_set_def Masked_PrefixFrom_zaddr)
qed

text \<open>A prefix as the Go constructors build it: no zone, and a length that fits the family.\<close>

definition pfx_wf :: "netprefix \<Rightarrow> bool" where
  "pfx_wf p \<longleftrightarrow> Prefix_IsValid p \<longrightarrow> zoneless (pfx_addr p) \<and> pfx_bits p \<le> BitLen (pfx_addr p)"

lemma pfx_wf_PrefixFrom [simp]: "pfx_wf (PrefixFrom a b)"
  by (cases a) (auto simp: pfx_wf_def PrefixFrom_def Prefix_IsValid_def zoneless_def)

lemma valid_prefix_cases:
  assumes "Prefix_IsValid p" "pfx_wf p"
  obtains f n b where "p = \<lparr>pfx_addr = zaddr f n, pfx_bits = int b\<rparr>" "n < 2 ^ famlen f" "b \<le> famlen f"
proof -
  from assms have "zoneless (pfx_addr p)" by (simp add: pfx_wf_def)
  then obtain f n where f: "pfx_addr p = zaddr f n" "n < 2 ^ famlen f" by (rule zoneless_cases)
  define b where "b = nat (pfx_bits p)"
  from assms f have "pfx_bits p = int b" "b \<le> famlen f"
    by (auto simp: b_def Prefix_IsValid_def pfx_wf_def)
  with f show ?thesis by (intro that [of f n b]) (simp_all add: netprefix.equality)
qed

lemma div_bsize_bound:
  assumes "n < 2 ^ famlen f" "b \<le> famlen f"
  shows "n div bsize f b < 2 ^ b"
  using assms by (simp add: bsize_def less_mult_imp_div_less power_add [symmetric])

lemma masked_prefix_cases:
  assumes "Prefix_IsValid p" "pfx_wf p" "Masked p = p"
  obtains f k b where "p = nprefix f k b" "k < 2 ^ b" "b \<le> famlen f"
proof -
  obtain f n b where p: "p = \<lparr>pfx_addr = zaddr f n, pfx_bits = int b\<rparr>" "n < 2 ^ famlen f" "b \<le> famlen f"
    using assms(1,2) by (rule valid_prefix_cases)
  with assms(3) have "p = nprefix f (n div bsize f b) b" by (metis Masked_zaddr)
  with p show ?thesis by (intro that [of f "n div bsize f b" b]) (simp_all add: div_bsize_bound)
qed

lemma Masked_valid_cases:
  assumes "Prefix_IsValid p" "pfx_wf p"
  obtains f k b where "Masked p = nprefix f k b" "k < 2 ^ b" "b \<le> famlen f" "pfx_bits p = int b"
proof -
  obtain f n b where p: "p = \<lparr>pfx_addr = zaddr f n, pfx_bits = int b\<rparr>" "n < 2 ^ famlen f" "b \<le> famlen f"
    using assms by (rule valid_prefix_cases)
  then show ?thesis
    by (intro that [of f "n div bsize f b" b]) (simp_all add: Masked_zaddr div_bsize_bound)
qed

lemma pfx_wf_nprefix [simp]: "b \<le> famlen f \<Longrightarrow> pfx_wf (nprefix f k b)"
  by (simp add: pfx_wf_def)

lemma Masked_wf: "pfx_wf p \<Longrightarrow> Prefix_IsValid p \<Longrightarrow> Masked (Masked p) = Masked p"
  by (metis Masked_nprefix Masked_valid_cases)

lemma pfx_set_Masked:
  assumes "Prefix_IsValid p" "pfx_wf p"
  shows "pfx_set (Masked p) = pfx_set p"
proof -
  obtain f k b where "Masked p = nprefix f k b" "k < 2 ^ b" "b \<le> famlen f" "pfx_bits p = int b"
    using assms by (rule Masked_valid_cases)
  then show ?thesis using assms by (simp add: pfx_set_def)
qed

lemma Masked_invalid [simp]: "\<not> Prefix_IsValid p \<Longrightarrow> Masked p = zero_prefix"
  by (cases "pfx_addr p") (auto simp: Masked_def Prefix_IsValid_def)

lemma zero_prefix_invalid [simp]: "\<not> Prefix_IsValid zero_prefix"
  by (simp add: Prefix_IsValid_def zero_prefix_def)

lemma pfx_wf_Masked [simp]: "pfx_wf (Masked p)"
  by (cases "pfx_addr p")
     (auto simp: Masked_def zero_prefix_def pfx_wf_def Prefix_IsValid_def PrefixFrom_def zoneless_def)

lemma pfx_set_zoneless: "a \<in> pfx_set p \<Longrightarrow> zoneless a"
  by (simp add: pfx_set_def split: if_splits)


subsection \<open>The tree of blocks\<close>

definition nblock :: "family \<Rightarrow> nat \<Rightarrow> nat \<Rightarrow> nat set" where
  "nblock f k b = {k * bsize f b ..< Suc k * bsize f b}"

lemma nblock_mem: "n \<in> nblock f k b \<longleftrightarrow> n div bsize f b = k"
proof
  assume "n \<in> nblock f k b"
  then show "n div bsize f b = k"
    by (intro div_nat_eqI) (auto simp: nblock_def mult.commute)
next
  assume "n div bsize f b = k"
  moreover have "n < bsize f b + n div bsize f b * bsize f b"
    by (rule dividend_less_div_times) simp
  ultimately show "n \<in> nblock f k b" by (auto simp: nblock_def)
qed

lemma nblock_nonempty: "k * bsize f b \<in> nblock f k b"
  by (simp add: nblock_mem)

lemma pfx_set_nblock: "k < 2 ^ b \<Longrightarrow> b \<le> famlen f \<Longrightarrow> pfx_set (nprefix f k b) = zaddr f ` nblock f k b"
  by (simp add: pfx_set_nprefix nblock_def)

lemma nblock_bound: "k < 2 ^ b \<Longrightarrow> b \<le> famlen f \<Longrightarrow> nblock f k b \<subseteq> {..<2 ^ famlen f}"
  using block_bound [of k b f] by (auto simp: nblock_def)

lemma bsize_coarser:
  "b \<le> c \<Longrightarrow> c \<le> famlen f \<Longrightarrow> bsize f b = bsize f c * 2 ^ (c - b)"
  by (simp add: bsize_def power_add [symmetric])

lemma div_bsize_coarser:
  "b \<le> c \<Longrightarrow> c \<le> famlen f \<Longrightarrow> n div bsize f b = n div bsize f c div 2 ^ (c - b)"
  by (simp add: bsize_coarser [of b c] div_mult2_eq)

lemma nblock_subset_iff:
  assumes "b \<le> c" "c \<le> famlen f"
  shows "nblock f j c \<subseteq> nblock f k b \<longleftrightarrow> j div 2 ^ (c - b) = k"
proof
  assume "nblock f j c \<subseteq> nblock f k b"
  then have "j * bsize f c \<in> nblock f k b" using nblock_nonempty by blast
  then have "j * bsize f c div bsize f b = k" by (simp add: nblock_mem)
  moreover have "j * bsize f c div bsize f b = j * bsize f c div bsize f c div 2 ^ (c - b)"
    using assms by (rule div_bsize_coarser)
  ultimately show "j div 2 ^ (c - b) = k" by simp
next
  assume "j div 2 ^ (c - b) = k"
  then show "nblock f j c \<subseteq> nblock f k b"
    using assms by (auto simp: nblock_mem div_bsize_coarser)
qed

lemma nblock_disjoint:
  assumes "b \<le> c" "c \<le> famlen f" "j div 2 ^ (c - b) \<noteq> k"
  shows "nblock f j c \<inter> nblock f k b = {}"
  using assms by (auto simp: nblock_mem div_bsize_coarser)

lemma nblock_split:
  assumes "b < famlen f"
  shows "nblock f k b = nblock f (2 * k) (Suc b) \<union> nblock f (2 * k + 1) (Suc b)"
    and "nblock f (2 * k) (Suc b) \<inter> nblock f (2 * k + 1) (Suc b) = {}"
proof -
  have "n div bsize f b = n div bsize f (Suc b) div 2" for n
    using div_bsize_coarser [of b "Suc b" f n] assms by simp
  then show "nblock f k b = nblock f (2 * k) (Suc b) \<union> nblock f (2 * k + 1) (Suc b)"
    by (auto simp: nblock_mem set_eq_iff)
  show "nblock f (2 * k) (Suc b) \<inter> nblock f (2 * k + 1) (Suc b) = {}"
    by (auto simp: nblock_mem)
qed

lemma nblock_below:
  assumes "b < c" "c \<le> famlen f" "nblock f j c \<subseteq> nblock f k b"
  shows "nblock f j c \<subseteq> nblock f (2 * k) (Suc b) \<or> nblock f j c \<subseteq> nblock f (2 * k + 1) (Suc b)"
proof -
  define q where "q = j div 2 ^ (c - Suc b)"
  have "j div 2 ^ (c - b) = k" using assms by (simp add: nblock_subset_iff)
  moreover have "c - b = Suc (c - Suc b)" using assms by simp
  ultimately have "q div 2 = k"
    by (simp add: q_def div_mult2_eq [symmetric] mult.commute)
  then have "q = 2 * k \<or> q = 2 * k + 1" by presburger
  then show ?thesis using assms by (simp add: nblock_subset_iff q_def)
qed

lemma nblock_level_inject:
  assumes "nblock f j c \<subseteq> nblock f k b" "c \<le> famlen f" "b \<le> famlen f"
  shows "b \<le> c"
proof (rule ccontr)
  assume "\<not> b \<le> c"
  then have cb: "c < b" by simp
  have "card (nblock f j c) \<le> card (nblock f k b)"
    by (rule card_mono [OF _ assms(1)]) (simp add: nblock_def)
  then have "bsize f c \<le> bsize f b" by (simp add: nblock_def)
  moreover have "bsize f b < bsize f c"
    unfolding bsize_def using cb assms by (intro power_strict_increasing) auto
  ultimately show False by simp
qed

lemma zoneless_set_eqI:
  assumes "\<And>a. a \<in> A \<Longrightarrow> zoneless a" "\<And>a. a \<in> B \<Longrightarrow> zoneless a"
    and "\<And>f n. n < 2 ^ famlen f \<Longrightarrow> zaddr f n \<in> A \<longleftrightarrow> zaddr f n \<in> B"
  shows "A = B"
  using assms by (metis (no_types, lifting) set_eqI zoneless_cases)

lemma zaddr_in_pfx_set:
  assumes "n < 2 ^ famlen f" "k < 2 ^ b" "b \<le> famlen g"
  shows "zaddr f n \<in> pfx_set (nprefix g k b) \<longleftrightarrow> f = g \<and> n \<in> nblock g k b"
  using assms by (simp add: pfx_set_nblock zaddr_image_mem nblock_bound)

text \<open>From here on, \<open>zaddr\<close> is used through its lemmas only.\<close>

declare zaddr.simps [simp del]

end
