(* ===== verification/NetIPText.thy ===== *)
theory NetIPText
  imports NetIP
begin

text \<open>
  The text forms of \<open>net/netip\<close>: \<open>ParseAddr\<close>, \<open>ParsePrefix\<close> and \<open>Addr.String\<close>, with
  the loops of the Go standard library over the bytes of the string. The round trip
  (parsing what \<open>String\<close> prints gives the address back) is what lets the provider store
  an allocation as text and find it again.
\<close>

subsection \<open>Digits\<close>

definition is_digit :: "char \<Rightarrow> bool" where
  "is_digit c \<longleftrightarrow> 48 \<le> (of_char c :: nat) \<and> (of_char c :: nat) \<le> 57"

definition digit_val :: "char \<Rightarrow> nat" where
  "digit_val c = of_char c - 48"

definition hexval :: "char \<Rightarrow> nat option" where
  "hexval c =
     (let n = (of_char c :: nat) in
      if 48 \<le> n \<and> n \<le> 57 then Some (n - 48)
      else if 97 \<le> n \<and> n \<le> 102 then Some (n - 87)
      else if 65 \<le> n \<and> n \<le> 70 then Some (n - 55)
      else None)"

definition hex_digit :: "nat \<Rightarrow> char" where
  "hex_digit n = (if n < 10 then char_of (48 + n) else char_of (87 + n))"

fun dec_nat :: "nat \<Rightarrow> string" where
  "dec_nat n = (if n < 10 then [hex_digit n] else dec_nat (n div 10) @ [hex_digit (n mod 10)])"

fun hex_nat :: "nat \<Rightarrow> string" where
  "hex_nat n = (if n < 16 then [hex_digit n] else hex_nat (n div 16) @ [hex_digit (n mod 16)])"

declare dec_nat.simps [simp del] hex_nat.simps [simp del]

text \<open>\<open>strconv.Itoa\<close>, the verb \<open>%d\<close> of \<open>fmt\<close>.\<close>

definition itoa :: "int \<Rightarrow> string" where
  "itoa n = (if n < 0 then CHR ''-'' # dec_nat (nat (- n)) else dec_nat (nat n))"

text \<open>\<open>strconv.Atoi\<close>: an optional sign and decimal digits, within the range of \<open>int\<close>.\<close>

fun digits_val :: "string \<Rightarrow> nat \<Rightarrow> nat option" where
  "digits_val [] acc = Some acc"
| "digits_val (c # cs) acc =
     (if is_digit c then digits_val cs (acc * 10 + digit_val c) else None)"

definition Atoi :: "string \<Rightarrow> int option" where
  "Atoi s =
     (let neg = (s \<noteq> [] \<and> hd s = CHR ''-'');
          ds = (if s \<noteq> [] \<and> (hd s = CHR ''-'' \<or> hd s = CHR ''+'') then tl s else s)
      in if ds = [] then None
         else case digits_val ds 0 of None \<Rightarrow> None
           | Some n \<Rightarrow>
               let v = (if neg then - int n else int n)
               in if - (2 ^ 63) \<le> v \<and> v \<le> max_int then Some v else None)"

subsection \<open>IPv4\<close>

text \<open>
  The loop of \<open>parseIPv4Fields\<close>. \<open>pd\<close>: no character yet, or the last one was a dot;
  \<open>v\<close> and \<open>dl\<close>: value and number of digits of the current octet; \<open>fs\<close>: the octets so far.
\<close>

fun p4_loop :: "string \<Rightarrow> bool \<Rightarrow> nat \<Rightarrow> nat \<Rightarrow> nat list \<Rightarrow> nat list option" where
  "p4_loop [] pd v dl fs = (if length fs < 3 then None else Some (fs @ [v]))"
| "p4_loop (c # cs) pd v dl fs =
     (if is_digit c then
        (if dl = 1 \<and> v = 0 then None
         else let v' = v * 10 + digit_val c in
              if v' > 255 then None else p4_loop cs False v' (dl + 1) fs)
      else if c = CHR ''.'' then
        (if pd \<or> cs = [] then None
         else if length fs = 3 then None
         else p4_loop cs True 0 0 (fs @ [v]))
      else None)"

definition parseIPv4Fields :: "string \<Rightarrow> nat list option" where
  "parseIPv4Fields s = p4_loop s True 0 0 []"

definition from_base :: "nat \<Rightarrow> nat list \<Rightarrow> nat" where
  "from_base B ds = foldl (\<lambda>a d. a * B + d) 0 ds"

definition parseIPv4 :: "string \<Rightarrow> addr option" where
  "parseIPv4 s = map_option (\<lambda>fs. V4 (word_of_nat (from_base 256 fs))) (parseIPv4Fields s)"

subsection \<open>IPv6\<close>

text \<open>The inner loop of \<open>parseIPv6\<close>: up to four hexadecimal digits.\<close>

fun p6_hex :: "string \<Rightarrow> nat \<Rightarrow> nat \<Rightarrow> (nat \<times> nat \<times> string) option" where
  "p6_hex [] off acc = Some (acc, off, [])"
| "p6_hex (c # cs) off acc =
     (case hexval c of
        None \<Rightarrow> Some (acc, off, c # cs)
      | Some d \<Rightarrow>
          (let acc' = acc * 16 + d in
           if off > 3 then None
           else if acc' > 65535 then None
           else p6_hex cs (off + 1) acc'))"

text \<open>
  The outer loop. \<open>gs\<close>: the 16-bit groups so far (Go's byte index \<open>i\<close> is twice their
  number); \<open>ell\<close>: how many groups stand before the ellipsis, if there was one.
\<close>

function p6_loop ::
  "string \<Rightarrow> nat list \<Rightarrow> nat option \<Rightarrow> (string \<times> nat list \<times> nat option) option" where
  "p6_loop s gs ell =
     (if length gs \<ge> 8 then Some (s, gs, ell)
      else case p6_hex s 0 0 of
        None \<Rightarrow> None
      | Some (acc, off, rest) \<Rightarrow>
          if off = 0 then None
          else if rest \<noteq> [] \<and> hd rest = CHR ''.'' then
            (if ell = None \<and> length gs \<noteq> 6 then None
             else if length gs > 6 then None
             else case parseIPv4Fields s of
                 Some [a, b, c, d] \<Rightarrow> Some ([], gs @ [a * 256 + b, c * 256 + d], ell)
               | _ \<Rightarrow> None)
          else
            (case rest of
               [] \<Rightarrow> Some ([], gs @ [acc], ell)
             | c # r \<Rightarrow>
                 if c \<noteq> CHR '':'' then None
                 else if r = [] then None
                 else if hd r = CHR '':'' then
                   (if ell \<noteq> None then None
                    else if tl r = [] then Some ([], gs @ [acc], Some (length gs + 1))
                    else p6_loop (tl r) (gs @ [acc]) (Some (length gs + 1)))
                 else p6_loop r (gs @ [acc]) ell))"
  by pat_completeness auto
termination
  by (relation "measure (\<lambda>(s, gs, ell). 8 - length gs)") auto

declare p6_loop.simps [simp del]

definition expand_ellipsis :: "nat list \<Rightarrow> nat option \<Rightarrow> nat list option" where
  "expand_ellipsis gs ell =
     (if length gs < 8 then
        (case ell of None \<Rightarrow> None
         | Some k \<Rightarrow> Some (take k gs @ replicate (8 - length gs) 0 @ drop k gs))
      else if ell \<noteq> None then None
      else Some gs)"

definition parse6_groups :: "string \<Rightarrow> nat list option" where
  "parse6_groups s =
     (let lead = (take 2 s = ''::'');
          s' = (if lead then drop 2 s else s)
      in if lead \<and> s' = [] then Some (replicate 8 0)
         else case p6_loop s' [] (if lead then Some 0 else None) of
             None \<Rightarrow> None
           | Some (rest, gs, ell) \<Rightarrow> if rest \<noteq> [] then None else expand_ellipsis gs ell)"

definition parseIPv6 :: "string \<Rightarrow> addr option" where
  "parseIPv6 inp =
     (let s = takeWhile (\<lambda>c. c \<noteq> CHR ''%'') inp;
          haszone = (CHR ''%'' \<in> set inp);
          zone = tl (dropWhile (\<lambda>c. c \<noteq> CHR ''%'') inp)
      in if haszone \<and> zone = [] then None
         else map_option (\<lambda>gs. V6 (word_of_nat (from_base 65536 gs)) (if haszone then zone else []))
                (parse6_groups s))"

lemma parse_ip_code [code]:
  "parseIPv4 s = map_option (\<lambda>fs. V4 (strict_word (word_of_nat (from_base 256 fs)))) (parseIPv4Fields s)"
  "parseIPv6 inp =
     (let s = takeWhile (\<lambda>c. c \<noteq> CHR ''%'') inp;
          haszone = (CHR ''%'' \<in> set inp);
          zone = tl (dropWhile (\<lambda>c. c \<noteq> CHR ''%'') inp)
      in if haszone \<and> zone = [] then None
         else map_option (\<lambda>gs. V6 (strict_word (word_of_nat (from_base 65536 gs)))
                (if haszone then zone else [])) (parse6_groups s))"
  by (simp_all only: parseIPv4_def parseIPv6_def strict_word_id)

subsection \<open>ParseAddr and ParsePrefix\<close>

fun parse_scan :: "string \<Rightarrow> string \<Rightarrow> addr option" where
  "parse_scan [] inp = None"
| "parse_scan (c # cs) inp =
     (if c = CHR ''.'' then parseIPv4 inp
      else if c = CHR '':'' then parseIPv6 inp
      else if c = CHR ''%'' then None
      else parse_scan cs inp)"

definition ParseAddr :: "string \<Rightarrow> error + addr" where
  "ParseAddr s = (case parse_scan s s of None \<Rightarrow> Inl (ParseAddrError s) | Some a \<Rightarrow> Inr a)"

text \<open>The string before and after its last slash.\<close>

definition split_last_slash :: "string \<Rightarrow> (string \<times> string) option" where
  "split_last_slash s =
     (if CHR ''/'' \<in> set s then
        Some (rev (tl (dropWhile (\<lambda>c. c \<noteq> CHR ''/'') (rev s))),
              rev (takeWhile (\<lambda>c. c \<noteq> CHR ''/'') (rev s)))
      else None)"

definition ParsePrefix :: "string \<Rightarrow> error + netprefix" where
  "ParsePrefix s =
     (case split_last_slash s of
        None \<Rightarrow> Inl (ParsePrefixError s)
      | Some (a, bitsStr) \<Rightarrow>
          (case ParseAddr a of
             Inl e \<Rightarrow> Inl (ParsePrefixError s)
           | Inr ip \<Rightarrow>
               if Is6 ip \<and> Zone ip \<noteq> [] then Inl (ParsePrefixError s)
               else if length bitsStr > 1 \<and> \<not> (is_digit (hd bitsStr) \<and> hd bitsStr \<noteq> CHR ''0'')
               then Inl (ParsePrefixError s)
               else case Atoi bitsStr of
                   None \<Rightarrow> Inl (ParsePrefixError s)
                 | Some bits \<Rightarrow>
                     if bits < 0 \<or> bits > (if Is6 ip then 128 else 32) then Inl (ParsePrefixError s)
                     else Inr (PrefixFrom ip bits)))"

subsection \<open>Addr.String\<close>

fun base_digits :: "nat \<Rightarrow> nat \<Rightarrow> nat \<Rightarrow> nat list" where
  "base_digits B 0 n = []"
| "base_digits B (Suc k) n = base_digits B k (n div B) @ [n mod B]"

fun join :: "string \<Rightarrow> string list \<Rightarrow> string" where
  "join sep [] = []"
| "join sep [x] = x"
| "join sep (x # y # xs) = x @ sep @ join sep (y # xs)"

definition string4 :: "nat \<Rightarrow> string" where
  "string4 n = join ''.'' (map dec_nat (base_digits 256 4 n))"

text \<open>The longest run of at least two zero groups, the first of the longest ones.\<close>

definition zero_run :: "nat list \<Rightarrow> nat \<Rightarrow> nat" where
  "zero_run gs i = length (takeWhile (\<lambda>g. g = 0) (drop i gs))"

definition best_run :: "nat list \<Rightarrow> nat \<times> nat" where
  "best_run gs =
     foldl (\<lambda>(zs, ze) i. let l = zero_run gs i in if l \<ge> 2 \<and> l > ze - zs then (i, i + l) else (zs, ze))
       (255, 255) [0..<8]"

definition string6_groups :: "nat list \<Rightarrow> string" where
  "string6_groups gs =
     (let (zs, ze) = best_run gs in
      if zs = 255 then join '':'' (map hex_nat gs)
      else join '':'' (map hex_nat (take zs gs)) @ ''::'' @ join '':'' (map hex_nat (drop ze gs)))"

fun Addr_String :: "addr \<Rightarrow> string" where
  "Addr_String ZeroAddr = ''invalid IP''"
| "Addr_String (V4 w) = string4 (unat w)"
| "Addr_String (V6 w z) =
     (if unat w div 2 ^ 32 = 65535 then ''::ffff:'' @ string4 (unat w mod 2 ^ 32)
      else string6_groups (base_digits 65536 8 (unat w)))
     @ (if z = [] then [] else CHR ''%'' # z)"


subsection \<open>Digits in a base\<close>

lemma from_base_append: "from_base B (ds @ [d]) = from_base B ds * B + d"
  by (simp add: from_base_def)

lemma from_base_digits: "from_base B (base_digits B k n) = n mod B ^ k"
proof (induction k arbitrary: n)
  case 0
  then show ?case by (simp add: from_base_def)
next
  case (Suc k)
  have "n mod B ^ Suc k = n div B mod B ^ k * B + n mod B"
    by (simp add: mod_mult2_eq mult.commute)
  then show ?case by (simp add: from_base_append Suc.IH)
qed

lemma base_digits_length [simp]: "length (base_digits B k n) = k"
  by (induction k arbitrary: n) simp_all

lemma base_digits_bound: "0 < B \<Longrightarrow> d \<in> set (base_digits B k n) \<Longrightarrow> d < B"
  by (induction k arbitrary: n) auto

text \<open>\<open>Addr.AsSlice\<close>: the big-endian bytes; \<open>big.Int.SetBytes\<close> reads them back.\<close>

fun AsSlice :: "addr \<Rightarrow> 8 word list" where
  "AsSlice ZeroAddr = []"
| "AsSlice (V4 w) = map word_of_nat (base_digits 256 4 (unat w))"
| "AsSlice (V6 w z) = map word_of_nat (base_digits 256 16 (unat w))"

definition SetBytes :: "8 word list \<Rightarrow> int" where
  "SetBytes bs = int (from_base 256 (map unat bs))"

lemma map_unat_bytes: "(\<And>d. d \<in> set ds \<Longrightarrow> d < 256) \<Longrightarrow> map unat (map (word_of_nat :: nat \<Rightarrow> 8 word) ds) = ds"
  by (induction ds) (simp_all add: unat_of_nat)

lemma SetBytes_AsSlice [simp]: "SetBytes (AsSlice a) = int (addr_bits a)"
proof (cases a)
  case ZeroAddr
  then show ?thesis by (simp add: SetBytes_def from_base_def)
next
  case (V4 w)
  have "unat w < 256 ^ 4" using unsigned_less [of w, where ?'a = nat] by simp
  then show ?thesis
    using V4 base_digits_bound [of 256 _ 4 "unat w"]
    by (simp del: map_map add: SetBytes_def map_unat_bytes from_base_digits)
next
  case (V6 w z)
  have "unat w < 256 ^ 16" using unsigned_less [of w, where ?'a = nat] by simp
  then show ?thesis
    using V6 base_digits_bound [of 256 _ 16 "unat w"]
    by (simp del: map_map add: SetBytes_def map_unat_bytes from_base_digits)
qed

subsection \<open>What parsing returns\<close>

lemma parse_scan_valid: "parse_scan cs s = Some a \<Longrightarrow> IsValid a"
  by (induction cs s rule: parse_scan.induct)
     (auto simp: parseIPv4_def parseIPv6_def Let_def split: if_splits)

lemma ParseAddr_valid: "ParseAddr s = Inr a \<Longrightarrow> IsValid a"
  by (auto simp: ParseAddr_def dest: parse_scan_valid split: option.splits)

lemma ParsePrefix_valid:
  assumes "ParsePrefix s = Inr p"
  shows "Prefix_IsValid p" "pfx_wf p"
proof -
  have "\<exists>ip bits. p = PrefixFrom ip bits \<and> IsValid ip \<and> 0 \<le> bits
      \<and> bits \<le> (if Is6 ip then 128 else 32)"
    using assms ParseAddr_valid
    by (fastforce simp: ParsePrefix_def split: option.splits sum.splits if_splits)
  then obtain ip bits where ip: "p = PrefixFrom ip bits" "IsValid ip"
    "0 \<le> bits" "bits \<le> (if Is6 ip then 128 else 32)" by blast
  from ip(2-4) have "ip \<noteq> ZeroAddr" "bits \<le> BitLen ip" by (cases ip; simp)+
  with ip show "Prefix_IsValid p" "pfx_wf p"
    by (simp_all add: Prefix_IsValid_def) (simp add: PrefixFrom_def)
qed

end
