(* ===== verification/NetIPX.thy ===== *)
theory NetIPX
  imports NetIPText
begin

text \<open>
  The package \<open>go4.org/netipx\<close> (sets of IP addresses) is not part of the repository: it is
  a parameter of the model, the record \<open>netipx\<close> of the functions the provider calls. The
  locale \<open>netipx_laws\<close> states their documented behaviour over the abstraction \<open>ips\<close>, the
  set of addresses an \<open>IPSet\<close> holds. \<open>RefIPSet\<close> interprets it on a concrete range-list
  implementation, on which the witnesses evaluate.
\<close>

subsection \<open>Ranges\<close>

text \<open>\<open>netipx.IPRange\<close>: the inclusive range \<open>From()\<close> to \<open>To()\<close>.\<close>

record iprange =
  rng_from :: addr
  rng_to :: addr

definition rng_valid :: "iprange \<Rightarrow> bool" where
  "rng_valid r \<longleftrightarrow> zoneless (rng_from r) \<and> zoneless (rng_to r)
     \<and> BitLen (rng_from r) = BitLen (rng_to r) \<and> rng_from r \<le> rng_to r"

definition rng_set :: "iprange \<Rightarrow> addr set" where
  "rng_set r = addr_interval (rng_from r) (rng_to r)"

definition nrange :: "family \<Rightarrow> nat \<Rightarrow> nat \<Rightarrow> iprange" where
  "nrange f a b = \<lparr>rng_from = zaddr f a, rng_to = zaddr f b\<rparr>"

lemma nrange_valid [simp]: "a \<le> b \<Longrightarrow> b < 2 ^ famlen f \<Longrightarrow> rng_valid (nrange f a b)"
  by (simp add: rng_valid_def nrange_def)

lemma nrange_sel [simp]: "rng_from (nrange f a b) = zaddr f a" "rng_to (nrange f a b) = zaddr f b"
  by (simp_all add: nrange_def)

lemma rng_set_nrange: "a \<le> b \<Longrightarrow> b < 2 ^ famlen f \<Longrightarrow> rng_set (nrange f a b) = zaddr f ` {a..b}"
  by (simp add: rng_set_def addr_interval_zaddr)

lemma valid_range_cases:
  assumes "rng_valid r"
  obtains f a b where "r = nrange f a b" "a \<le> b" "b < 2 ^ famlen f"
proof -
  from assms obtain f a where f: "rng_from r = zaddr f a" "a < 2 ^ famlen f"
    by (auto simp: rng_valid_def elim: zoneless_cases)
  from assms obtain g b where g: "rng_to r = zaddr g b" "b < 2 ^ famlen g"
    by (auto simp: rng_valid_def elim: zoneless_cases)
  from assms f g have "f = g" by (simp add: rng_valid_def)
  with assms f g show ?thesis
    by (intro that [of f a b]) (simp_all add: rng_valid_def nrange_def iprange.equality)
qed

subsection \<open>The functions of netipx\<close>

text \<open>
  \<open>'b\<close> is the type of \<open>IPSetBuilder\<close> values and \<open>'s\<close> that of \<open>IPSet\<close> values. The builder
  methods return the changed builder; \<open>IPSet()\<close> returns the accumulated error or the set.
\<close>

record ('b, 's) netipx =
  nx_new :: 'b
  nx_add :: "addr \<Rightarrow> 'b \<Rightarrow> 'b"
  nx_add_range :: "iprange \<Rightarrow> 'b \<Rightarrow> 'b"
  nx_add_prefix :: "netprefix \<Rightarrow> 'b \<Rightarrow> 'b"
  nx_add_set :: "'s \<Rightarrow> 'b \<Rightarrow> 'b"
  nx_remove :: "addr \<Rightarrow> 'b \<Rightarrow> 'b"
  nx_remove_set :: "'s \<Rightarrow> 'b \<Rightarrow> 'b"
  nx_ipset :: "'b \<Rightarrow> error + 's"
  nx_ranges :: "'s \<Rightarrow> iprange list"
  nx_prefixes :: "'s \<Rightarrow> netprefix list"
  nx_contains :: "'s \<Rightarrow> addr \<Rightarrow> bool"
  nx_contains_range :: "'s \<Rightarrow> iprange \<Rightarrow> bool"
  nx_contains_prefix :: "'s \<Rightarrow> netprefix \<Rightarrow> bool"
  nx_overlaps_prefix :: "'s \<Rightarrow> netprefix \<Rightarrow> bool"
  nx_parse_range :: "string \<Rightarrow> error + iprange"
  nx_range_of_prefix :: "netprefix \<Rightarrow> iprange"
  nx_range_string :: "iprange \<Rightarrow> string"

text \<open>The addresses in a set, as its \<open>Contains\<close> tells them.\<close>

definition ips :: "('b, 's) netipx \<Rightarrow> 's \<Rightarrow> addr set" where
  "ips nx s = {a. nx_contains nx s a}"

text \<open>
  The meaning of the text of a hyphenated range: two addresses around the first hyphen,
  taken without their zones, that form a valid range.
\<close>

definition parse_range_spec :: "string \<Rightarrow> iprange option" where
  "parse_range_spec s =
     (if CHR ''-'' \<notin> set s then None
      else case (ParseAddr (takeWhile (\<lambda>c. c \<noteq> CHR ''-'') s),
                 ParseAddr (tl (dropWhile (\<lambda>c. c \<noteq> CHR ''-'') s))) of
          (Inr a, Inr b) \<Rightarrow>
            (let r = \<lparr>rng_from = WithZone a [], rng_to = WithZone b []\<rparr>
             in if rng_valid r then Some r else None)
        | _ \<Rightarrow> None)"

text \<open>
  The documented behaviour. \<open>bips\<close> is the set under construction and \<open>bok\<close> says that no
  operation on the builder has been given an invalid argument. A range list is minimal and
  sorted; a prefix list is minimal, that is, it holds every prefix of the set within one
  entry.
\<close>

locale netipx_laws =
  fixes nx :: "('b, 's) netipx"
    and bips :: "'b \<Rightarrow> addr set"
    and bok :: "'b \<Rightarrow> bool"
  assumes new_laws: "bips (nx_new nx) = {}" "bok (nx_new nx)"
    and add_laws:
      "IsValid a \<Longrightarrow> bips (nx_add nx a b) = insert (WithZone a []) (bips b)"
      "bok (nx_add nx a b) \<longleftrightarrow> bok b \<and> IsValid a"
    and add_range_laws:
      "rng_valid r \<Longrightarrow> bips (nx_add_range nx r b) = bips b \<union> rng_set r"
      "bok (nx_add_range nx r b) \<longleftrightarrow> bok b \<and> rng_valid r"
    and add_prefix_laws:
      "pfx_wf p \<Longrightarrow> Prefix_IsValid p \<Longrightarrow> bips (nx_add_prefix nx p b) = bips b \<union> pfx_set p"
      "pfx_wf p \<Longrightarrow> bok (nx_add_prefix nx p b) \<longleftrightarrow> bok b \<and> Prefix_IsValid p"
    and add_set_laws:
      "bips (nx_add_set nx s b) = bips b \<union> ips nx s"
      "bok (nx_add_set nx s b) \<longleftrightarrow> bok b"
    and remove_laws:
      "IsValid a \<Longrightarrow> bips (nx_remove nx a b) = bips b - {WithZone a []}"
      "bok (nx_remove nx a b) \<longleftrightarrow> bok b \<and> IsValid a"
    and remove_set_laws:
      "bips (nx_remove_set nx s b) = bips b - ips nx s"
      "bok (nx_remove_set nx s b) \<longleftrightarrow> bok b"
    and ipset_ok: "bok b \<Longrightarrow> \<exists>s. nx_ipset nx b = Inr s \<and> ips nx s = bips b"
    and ipset_error: "\<not> bok b \<Longrightarrow> \<exists>e. nx_ipset nx b = Inl e"
    and contains_zoneless: "nx_contains nx s a \<Longrightarrow> zoneless a"
    and ranges_valid: "r \<in> set (nx_ranges nx s) \<Longrightarrow> rng_valid r"
    and ranges_cover: "ips nx s = (\<Union>r \<in> set (nx_ranges nx s). rng_set r)"
    and ranges_sorted: "sorted_wrt (\<lambda>r r'. rng_to r < rng_from r') (nx_ranges nx s)"
    and ranges_minimal:
      "rng_valid r \<Longrightarrow> rng_set r \<subseteq> ips nx s \<Longrightarrow> \<exists>r' \<in> set (nx_ranges nx s). rng_set r \<subseteq> rng_set r'"
    and prefixes_valid:
      "p \<in> set (nx_prefixes nx s) \<Longrightarrow> Prefix_IsValid p \<and> pfx_wf p \<and> Masked p = p"
    and prefixes_cover: "ips nx s = (\<Union>p \<in> set (nx_prefixes nx s). pfx_set p)"
    and prefixes_distinct: "distinct (nx_prefixes nx s)"
    and prefixes_disjoint:
      "p \<in> set (nx_prefixes nx s) \<Longrightarrow> q \<in> set (nx_prefixes nx s) \<Longrightarrow> p \<noteq> q
         \<Longrightarrow> pfx_set p \<inter> pfx_set q = {}"
    and prefixes_minimal:
      "Prefix_IsValid p \<Longrightarrow> pfx_wf p \<Longrightarrow> pfx_set p \<subseteq> ips nx s
         \<Longrightarrow> \<exists>q \<in> set (nx_prefixes nx s). pfx_set p \<subseteq> pfx_set q"
    and contains_range_iff:
      "nx_contains_range nx s r \<longleftrightarrow> rng_valid r \<and> rng_set r \<subseteq> ips nx s"
    and contains_prefix_iff:
      "pfx_wf p \<Longrightarrow> nx_contains_prefix nx s p \<longleftrightarrow> Prefix_IsValid p \<and> pfx_set p \<subseteq> ips nx s"
    and overlaps_prefix_iff:
      "pfx_wf p \<Longrightarrow> nx_overlaps_prefix nx s p \<longleftrightarrow> Prefix_IsValid p \<and> pfx_set p \<inter> ips nx s \<noteq> {}"
    and parse_range_ok: "parse_range_spec t = Some r \<Longrightarrow> nx_parse_range nx t = Inr r"
    and parse_range_error: "parse_range_spec t = None \<Longrightarrow> \<exists>e. nx_parse_range nx t = Inl e"
    and range_of_prefix:
      "pfx_wf p \<Longrightarrow> Prefix_IsValid p \<Longrightarrow>
         rng_valid (nx_range_of_prefix nx p) \<and> rng_set (nx_range_of_prefix nx p) = pfx_set p"
    and range_of_prefix_invalid:
      "\<not> Prefix_IsValid p \<Longrightarrow> nx_range_of_prefix nx p = \<lparr>rng_from = ZeroAddr, rng_to = ZeroAddr\<rparr>"
begin

lemma ips_zoneless: "a \<in> ips nx s \<Longrightarrow> zoneless a"
  by (simp add: ips_def contains_zoneless)

lemma contains_iff: "nx_contains nx s a \<longleftrightarrow> a \<in> ips nx s"
  by (simp add: ips_def)

lemma ipset_cases:
  obtains (ok) s where "bok b" "nx_ipset nx b = Inr s" "ips nx s = bips b"
    | (error) e where "\<not> bok b" "nx_ipset nx b = Inl e"
  using ipset_ok [of b] ipset_error [of b] by blast

lemmas builder_laws = new_laws add_laws add_range_laws add_prefix_laws add_set_laws
  remove_laws remove_set_laws

lemma range_of_prefix_ends:
  assumes "k < 2 ^ b" "b \<le> famlen f"
  shows "nx_range_of_prefix nx (nprefix f k b) = nrange f (k * bsize f b) (Suc k * bsize f b - 1)"
proof -
  define lo hi where "lo = k * bsize f b" and "hi = Suc k * bsize f b"
  have lohi: "lo < hi" "hi \<le> 2 ^ famlen f"
    using block_bound [OF assms] by (simp_all add: lo_def hi_def)
  have law: "rng_valid (nx_range_of_prefix nx (nprefix f k b))"
    "rng_set (nx_range_of_prefix nx (nprefix f k b)) = pfx_set (nprefix f k b)"
    using range_of_prefix [of "nprefix f k b"] assms by auto
  from law(1) obtain g x y where r: "nx_range_of_prefix nx (nprefix f k b) = nrange g x y"
    "x \<le> y" "y < 2 ^ famlen g" by (rule valid_range_cases)
  have eq: "zaddr g ` {x..y} = zaddr f ` {lo ..< hi}"
    using law(2) r pfx_set_nprefix [OF assms] by (simp only: rng_set_nrange lo_def hi_def)
  have "zaddr g x \<in> zaddr f ` {lo ..< hi}"
    unfolding eq [symmetric] using r by simp
  then have "g = f" using r lohi by (subst (asm) zaddr_image_mem) auto
  have inj: "inj_on (zaddr f) ({x..y} \<union> {lo..<hi})"
    using r lohi \<open>g = f\<close> by (intro inj_on_zaddr) auto
  have "{x..y} = {lo ..< hi}"
    by (rule inj_on_image_eq_iff [THEN iffD1, OF inj]) (use eq \<open>g = f\<close> in auto)
  moreover have "{lo ..< hi} = {lo .. hi - 1}" using lohi by auto
  ultimately have "x = lo" "y = hi - 1" using r by (auto simp: Icc_eq_Icc)
  with r \<open>g = f\<close> show ?thesis by (simp add: lo_def hi_def)
qed

end

end
