(* ===== verification/RefIPSet.thy ===== *)
theory RefIPSet
  imports NetIPX
begin

text \<open>
  A concrete implementation of the \<open>netipx\<close> interface by lists of number ranges, one list
  per address family, and the proof that it has the documented behaviour. The properties
  of the development hold for every implementation with that behaviour; this one shows
  that the hypothesis can be met, and the witnesses evaluate on it.
\<close>

subsection \<open>Lists of number ranges\<close>

type_synonym rlist = "(nat \<times> nat) list"

definition rl_set :: "rlist \<Rightarrow> nat set" where
  "rl_set rs = (\<Union>(a, b) \<in> set rs. {a..b})"

lemma rl_set_simps [simp]:
  "rl_set [] = {}" "rl_set ((a, b) # rs) = {a..b} \<union> rl_set rs" "rl_set (rs @ qs) = rl_set rs \<union> rl_set qs"
  by (auto simp: rl_set_def)

definition rl_mem :: "nat \<Rightarrow> rlist \<Rightarrow> bool" where
  "rl_mem n rs \<longleftrightarrow> list_ex (\<lambda>(a, b). a \<le> n \<and> n \<le> b) rs"

lemma rl_mem_iff [simp]: "rl_mem n rs \<longleftrightarrow> n \<in> rl_set rs"
  by (induction rs) (auto simp: rl_mem_def)

text \<open>Inserting a range into a sorted list of ranges with gaps between them.\<close>

fun rl_ins :: "nat \<Rightarrow> nat \<Rightarrow> rlist \<Rightarrow> rlist" where
  "rl_ins a b [] = [(a, b)]"
| "rl_ins a b ((c, d) # rs) =
     (if Suc b < c then (a, b) # (c, d) # rs
      else if Suc d < a then (c, d) # rl_ins a b rs
      else rl_ins (min a c) (max b d) rs)"

fun rl_gap :: "rlist \<Rightarrow> bool" where
  "rl_gap [] = True"
| "rl_gap ((a, b) # rs) = (a \<le> b \<and> (\<forall>(c, d) \<in> set rs. Suc b < c) \<and> rl_gap rs)"

lemma rl_ins_lower:
  "m < a \<Longrightarrow> \<forall>(c, d) \<in> set rs. m < c \<Longrightarrow> \<forall>(c, d) \<in> set (rl_ins a b rs). m < c"
  by (induction a b rs rule: rl_ins.induct) (auto split: if_splits)

lemma rl_ins_gap: "a \<le> b \<Longrightarrow> rl_gap rs \<Longrightarrow> rl_gap (rl_ins a b rs)"
proof (induction a b rs rule: rl_ins.induct)
  case (2 a b c d rs)
  show ?case
  proof (cases "Suc b < c")
    case True
    with 2 show ?thesis by fastforce
  next
    case not1: False
    show ?thesis
    proof (cases "Suc d < a")
      case True
      with 2 not1 show ?thesis using rl_ins_lower [of "Suc d" a rs b] by auto
    next
      case False
      with 2 not1 show ?thesis by (auto simp: max_def min_def)
    qed
  qed
qed simp

lemma rl_ins_set: "a \<le> b \<Longrightarrow> rl_gap rs \<Longrightarrow> rl_set (rl_ins a b rs) = {a..b} \<union> rl_set rs"
proof (induction a b rs rule: rl_ins.induct)
  case (2 a b c d rs)
  show ?case
  proof (cases "Suc b < c \<or> Suc d < a")
    case True
    with 2 show ?thesis by auto
  next
    case False
    with 2 have "rl_set (rl_ins a b ((c, d) # rs)) = {min a c..max b d} \<union> rl_set rs"
      by auto
    moreover have "{min a c..max b d} = {a..b} \<union> {c..d}"
      using False 2(3,4) by (auto simp: min_def max_def)
    ultimately show ?thesis by auto
  qed
qed simp

text \<open>Ranges clipped to the numbers up to \<open>m\<close> (the empty ones dropped), then normalised.\<close>

definition rl_clip :: "nat \<Rightarrow> rlist \<Rightarrow> rlist" where
  "rl_clip m rs = map (\<lambda>(a, b). (a, min b m)) (filter (\<lambda>(a, b). a \<le> min b m) rs)"

lemma rl_clip_set: "rl_set (rl_clip m rs) = rl_set rs \<inter> {..m}"
proof (induction rs)
  case (Cons r rs)
  obtain a b where r: "r = (a, b)" by force
  have "rl_clip m (r # rs) = (if a \<le> min b m then [(a, min b m)] else []) @ rl_clip m rs"
    by (simp add: rl_clip_def r)
  moreover have "rl_set (if a \<le> min b m then [(a, min b m)] else []) = {a..b} \<inter> {..m}"
    by auto
  ultimately show ?case by (simp add: r Cons.IH Int_Un_distrib2)
qed (simp add: rl_clip_def)

lemma rl_clip_mem: "(a, b) \<in> set (rl_clip m rs) \<Longrightarrow> a \<le> b \<and> b \<le> m"
  by (auto simp: rl_clip_def)

definition rl_norm :: "nat \<Rightarrow> rlist \<Rightarrow> rlist" where
  "rl_norm m rs = foldr (\<lambda>(a, b). rl_ins a b) (rl_clip m rs) []"

lemma rl_norm_foldr:
  assumes "\<And>a b. (a, b) \<in> set rs \<Longrightarrow> a \<le> b"
  shows "rl_gap (foldr (\<lambda>(a, b). rl_ins a b) rs []) \<and>
     rl_set (foldr (\<lambda>(a, b). rl_ins a b) rs []) = rl_set rs"
  using assms
proof (induction rs)
  case (Cons r rs)
  obtain a b where r: "r = (a, b)" by force
  have "a \<le> b" using Cons.prems [of a b] r by simp
  moreover have "rl_gap (foldr (\<lambda>(a, b). rl_ins a b) rs []) \<and>
     rl_set (foldr (\<lambda>(a, b). rl_ins a b) rs []) = rl_set rs"
    by (rule Cons.IH) (use Cons.prems in simp)
  ultimately show ?case by (simp add: r rl_ins_gap rl_ins_set)
qed simp

lemma rl_norm_gap [simp]: "rl_gap (rl_norm m rs)"
  unfolding rl_norm_def by (rule rl_norm_foldr [THEN conjunct1]) (auto dest: rl_clip_mem)

lemma rl_norm_set [simp]: "rl_set (rl_norm m rs) = rl_set rs \<inter> {..m}"
  unfolding rl_norm_def
  by (subst rl_norm_foldr [THEN conjunct2]) (auto dest: rl_clip_mem simp: rl_clip_set)

lemma rl_gap_le: "rl_gap rs \<Longrightarrow> (a, b) \<in> set rs \<Longrightarrow> a \<le> b"
  by (induction rs) auto

lemma rl_norm_mem:
  assumes "(a, b) \<in> set (rl_norm m rs)"
  shows "a \<le> b" "b \<le> m"
proof -
  show ab: "a \<le> b" using assms by (rule rl_gap_le [OF rl_norm_gap])
  have "b \<in> rl_set (rl_norm m rs)" using assms ab by (force simp: rl_set_def)
  then show "b \<le> m" by simp
qed

lemma rl_gap_sorted: "rl_gap rs \<Longrightarrow> sorted_wrt (\<lambda>(a, b) (c, d). b < c) rs"
  by (induction rs) fastforce+

text \<open>An interval inside a list with gaps lies inside one of its ranges.\<close>

lemma rl_gap_one:
  assumes "rl_gap rs" "x \<le> y" "{x..y} \<subseteq> rl_set rs"
  shows "\<exists>(a, b) \<in> set rs. a \<le> x \<and> y \<le> b"
  using assms
proof (induction rs arbitrary: x)
  case (Cons r rs)
  obtain a b where r: "r = (a, b)" by force
  have above: "z \<in> rl_set rs \<Longrightarrow> Suc b < z" for z
    using Cons.prems(1) r by (auto simp: rl_set_def)
  show ?case
  proof (cases "x \<in> {a..b}")
    case True
    have "y \<le> b"
    proof (rule ccontr)
      assume "\<not> y \<le> b"
      then have "Suc b \<in> {x..y}" using True by auto
      then have "Suc b \<in> {a..b} \<union> rl_set rs" using Cons.prems(3) r by auto
      then show False using above by auto
    qed
    with True r show ?thesis by auto
  next
    case False
    have "x \<in> {x..y}" using Cons.prems(2) by simp
    then have "x \<in> rl_set rs" using Cons.prems(3) r False by auto
    then have "Suc b < x" by (rule above)
    then have "{x..y} \<subseteq> rl_set rs" using Cons.prems(3) r by auto
    with Cons.IH [of x] Cons.prems r show ?thesis by auto
  qed
qed simp

text \<open>Removing the range from \<open>x\<close> to \<open>y\<close>.\<close>

definition rl_cut :: "nat \<Rightarrow> nat \<Rightarrow> rlist \<Rightarrow> rlist" where
  "rl_cut x y rs =
     concat (map (\<lambda>(c, d). (if c < x then [(c, min d (x - 1))] else [])
                         @ (if y < d then [(max c (y + 1), d)] else [])) rs)"

lemma rl_cut_set: "x \<le> y \<Longrightarrow> rl_set (rl_cut x y rs) = rl_set rs - {x..y}"
proof (induction rs)
  case (Cons r rs)
  obtain c d where r: "r = (c, d)" by force
  have "rl_set ((if c < x then [(c, min d (x - 1))] else [])
              @ (if y < d then [(max c (y + 1), d)] else [])) = {c..d} - {x..y}"
    using Cons.prems by auto
  with Cons r show ?case by (auto simp: rl_cut_def)
qed (simp add: rl_cut_def)

definition rl_diff :: "rlist \<Rightarrow> rlist \<Rightarrow> rlist" where
  "rl_diff rs qs = foldl (\<lambda>acc (x, y). if x \<le> y then rl_cut x y acc else acc) rs qs"

lemma rl_diff_set: "rl_set (rl_diff rs qs) = rl_set rs - rl_set qs"
proof (induction qs arbitrary: rs)
  case (Cons q qs)
  obtain x y where "q = (x, y)" by force
  with Cons show ?case by (cases "x \<le> y") (auto simp: rl_diff_def rl_cut_set)
qed (simp add: rl_diff_def)


subsection \<open>Sets of addresses\<close>

type_synonym ref_set = "rlist \<times> rlist"
type_synonym ref_builder = "ref_set \<times> bool"

fun fam_ranges :: "family \<Rightarrow> ref_set \<Rightarrow> rlist" where
  "fam_ranges F4 s = fst s"
| "fam_ranges F6 s = snd s"

fun ref_contains :: "ref_set \<Rightarrow> addr \<Rightarrow> bool" where
  "ref_contains s ZeroAddr = False"
| "ref_contains s (V4 w) = rl_mem (unat w) (fst s)"
| "ref_contains s (V6 w z) = (z = [] \<and> rl_mem (unat w) (snd s))"

definition ref_norm :: "family \<Rightarrow> ref_set \<Rightarrow> rlist" where
  "ref_norm f s = rl_norm (2 ^ famlen f - 1) (fam_ranges f s)"

definition ref_fam_ranges :: "family \<Rightarrow> ref_set \<Rightarrow> iprange list" where
  "ref_fam_ranges f s = map (\<lambda>(a, b). nrange f a b) (ref_norm f s)"

definition ref_ranges :: "ref_set \<Rightarrow> iprange list" where
  "ref_ranges s = ref_fam_ranges F4 s @ ref_fam_ranges F6 s"

fun rng_key :: "iprange \<Rightarrow> (family \<times> nat \<times> nat) option" where
  "rng_key r = (if rng_valid r then
       Some (if Is4 (rng_from r) then F4 else F6, addr_bits (rng_from r), addr_bits (rng_to r))
     else None)"

text \<open>Executable form of \<open>rng_valid\<close> is its definition: it compares two addresses.\<close>

definition ref_add_range :: "iprange \<Rightarrow> ref_builder \<Rightarrow> ref_builder" where
  "ref_add_range r b =
     (case rng_key r of
        None \<Rightarrow> (fst b, False)
      | Some (F4, x, y) \<Rightarrow> (((x, y) # fst (fst b), snd (fst b)), snd b)
      | Some (F6, x, y) \<Rightarrow> ((fst (fst b), (x, y) # snd (fst b)), snd b))"

definition ref_add :: "addr \<Rightarrow> ref_builder \<Rightarrow> ref_builder" where
  "ref_add a b = ref_add_range \<lparr>rng_from = WithZone a [], rng_to = WithZone a []\<rparr> b"

definition ref_range_of_prefix :: "netprefix \<Rightarrow> iprange" where
  "ref_range_of_prefix p =
     (if Prefix_IsValid p then
        (let m = Masked p; f = (if Is4 (pfx_addr m) then F4 else F6); n = addr_bits (pfx_addr m)
         in nrange f n (n + bsize f (nat (pfx_bits m)) - 1))
      else \<lparr>rng_from = ZeroAddr, rng_to = ZeroAddr\<rparr>)"

definition ref_add_prefix :: "netprefix \<Rightarrow> ref_builder \<Rightarrow> ref_builder" where
  "ref_add_prefix p b = ref_add_range (ref_range_of_prefix p) b"

definition ref_add_set :: "ref_set \<Rightarrow> ref_builder \<Rightarrow> ref_builder" where
  "ref_add_set s b = ((fst s @ fst (fst b), snd s @ snd (fst b)), snd b)"

definition ref_remove_set :: "ref_set \<Rightarrow> ref_builder \<Rightarrow> ref_builder" where
  "ref_remove_set s b = ((rl_diff (fst (fst b)) (fst s), rl_diff (snd (fst b)) (snd s)), snd b)"

definition ref_remove :: "addr \<Rightarrow> ref_builder \<Rightarrow> ref_builder" where
  "ref_remove a b =
     (case a of
        ZeroAddr \<Rightarrow> (fst b, False)
      | V4 w \<Rightarrow> ref_remove_set ([(unat w, unat w)], []) b
      | V6 w z \<Rightarrow> ref_remove_set ([], [(unat w, unat w)]) b)"

definition ref_ipset :: "ref_builder \<Rightarrow> error + ref_set" where
  "ref_ipset b = (if snd b then Inr (fst b) else Inl (BuilderError ''invalid argument''))"

definition ref_contains_range :: "ref_set \<Rightarrow> iprange \<Rightarrow> bool" where
  "ref_contains_range s r =
     (case rng_key r of
        None \<Rightarrow> False
      | Some (f, x, y) \<Rightarrow> list_ex (\<lambda>(a, b). a \<le> x \<and> y \<le> b) (ref_norm f s))"

definition ref_overlaps_range :: "ref_set \<Rightarrow> iprange \<Rightarrow> bool" where
  "ref_overlaps_range s r =
     (case rng_key r of
        None \<Rightarrow> False
      | Some (f, x, y) \<Rightarrow> list_ex (\<lambda>(a, b). a \<le> y \<and> x \<le> b) (ref_norm f s))"

definition ref_contains_prefix :: "ref_set \<Rightarrow> netprefix \<Rightarrow> bool" where
  "ref_contains_prefix s p = ref_contains_range s (ref_range_of_prefix p)"

definition ref_overlaps_prefix :: "ref_set \<Rightarrow> netprefix \<Rightarrow> bool" where
  "ref_overlaps_prefix s p = ref_overlaps_range s (ref_range_of_prefix p)"

definition ref_parse_range :: "string \<Rightarrow> error + iprange" where
  "ref_parse_range t = (case parse_range_spec t of None \<Rightarrow> Inl (RangeError t) | Some r \<Rightarrow> Inr r)"

text \<open>The maximal blocks inside a set: a walk down the binary tree of blocks.\<close>

fun ref_walk :: "rlist \<Rightarrow> family \<Rightarrow> nat \<Rightarrow> nat \<Rightarrow> nat \<Rightarrow> netprefix list" where
  "ref_walk rs f 0 k b =
     (if list_ex (\<lambda>(x, y). x \<le> k * bsize f b \<and> Suc k * bsize f b \<le> Suc y) rs
      then [nprefix f k b] else [])"
| "ref_walk rs f (Suc r) k b =
     (if list_ex (\<lambda>(x, y). x \<le> k * bsize f b \<and> Suc k * bsize f b \<le> Suc y) rs
      then [nprefix f k b]
      else if list_ex (\<lambda>(x, y). x < Suc k * bsize f b \<and> k * bsize f b \<le> y) rs
      then ref_walk rs f r (2 * k) (Suc b) @ ref_walk rs f r (2 * k + 1) (Suc b)
      else [])"

lemma ref_walk_code [code]:
  "ref_walk rs f r k b =
     (let m = bsize f b; lo = strict_nat (k * m); hi = strict_nat (lo + m) in
      if list_ex (\<lambda>(x, y). x \<le> lo \<and> hi \<le> Suc y) rs then [nprefix f k b]
      else if r \<noteq> 0 \<and> list_ex (\<lambda>(x, y). x < hi \<and> lo \<le> y) rs
      then ref_walk rs f (strict_nat (r - 1)) (strict_nat (2 * k)) (strict_nat (Suc b))
             @ ref_walk rs f (strict_nat (r - 1)) (strict_nat (2 * k + 1)) (strict_nat (Suc b))
      else [])"
  by (cases r) (simp_all add: Let_def add.commute strict_nat_id)

definition ref_prefixes :: "ref_set \<Rightarrow> netprefix list" where
  "ref_prefixes s = ref_walk (ref_norm F4 s) F4 32 0 0 @ ref_walk (ref_norm F6 s) F6 128 0 0"

definition ref_netipx :: "(ref_builder, ref_set) netipx" where
  "ref_netipx =
     \<lparr>nx_new = (([], []), True),
      nx_add = ref_add,
      nx_add_range = ref_add_range,
      nx_add_prefix = ref_add_prefix,
      nx_add_set = ref_add_set,
      nx_remove = ref_remove,
      nx_remove_set = ref_remove_set,
      nx_ipset = ref_ipset,
      nx_ranges = ref_ranges,
      nx_prefixes = ref_prefixes,
      nx_contains = ref_contains,
      nx_contains_range = ref_contains_range,
      nx_contains_prefix = ref_contains_prefix,
      nx_overlaps_prefix = ref_overlaps_prefix,
      nx_parse_range = ref_parse_range,
      nx_range_of_prefix = ref_range_of_prefix,
      nx_range_string = (\<lambda>r. Addr_String (rng_from r) @ ''-'' @ Addr_String (rng_to r))\<rparr>"

definition ref_bips :: "ref_builder \<Rightarrow> addr set" where
  "ref_bips b = {a. ref_contains (fst b) a}"

definition ref_bok :: "ref_builder \<Rightarrow> bool" where
  "ref_bok b = snd b"


subsection \<open>The documented behaviour holds\<close>

lemma ref_contains_zaddr [simp]:
  "n < 2 ^ famlen f \<Longrightarrow> ref_contains s (zaddr f n) \<longleftrightarrow> n \<in> rl_set (fam_ranges f s)"
  by (cases f) (simp_all add: unat_of_nat zaddr.simps)

lemma ref_contains_zoneless: "ref_contains s a \<Longrightarrow> zoneless a"
  by (cases a) (auto simp: zoneless_def)

lemma ref_ips: "ips ref_netipx s = {a. ref_contains s a}"
  by (simp add: ips_def ref_netipx_def)

lemma zaddr_Is4 [simp]: "Is4 (zaddr f n) \<longleftrightarrow> f = F4"
  by (cases f) (simp_all add: zaddr.simps)

lemma rng_key_nrange [simp]:
  assumes "a \<le> b" "b < 2 ^ famlen f"
  shows "rng_key (nrange f a b) = Some (f, a, b)"
proof -
  have "a < 2 ^ famlen f" using assms by simp
  moreover have "(if f = F4 then F4 else F6) = f" by (cases f) simp_all
  ultimately show ?thesis using assms by (simp add: zaddr_bits)
qed

lemma rng_key_invalid: "\<not> rng_valid r \<Longrightarrow> rng_key r = None"
  by simp

declare rng_key.simps [simp del]

lemma zaddr_in_rng_set:
  assumes "n < 2 ^ famlen f" "a \<le> b" "b < 2 ^ famlen g"
  shows "zaddr f n \<in> rng_set (nrange g a b) \<longleftrightarrow> f = g \<and> a \<le> n \<and> n \<le> b"
  using assms by (simp add: rng_set_nrange) (subst zaddr_image_mem; auto)

lemma rng_set_zoneless: "a \<in> rng_set r \<Longrightarrow> zoneless a"
  by (simp add: rng_set_def addr_interval_def)

lemma fam_ranges_add:
  assumes "x \<le> y" "y < 2 ^ famlen f"
  shows "fam_ranges g (fst (ref_add_range (nrange f x y) b)) =
           (if g = f then [(x, y)] else []) @ fam_ranges g (fst b)"
    and "snd (ref_add_range (nrange f x y) b) = snd b"
proof -
  have key: "rng_key (nrange f x y) = Some (f, x, y)" using assms by simp
  show "fam_ranges g (fst (ref_add_range (nrange f x y) b)) =
           (if g = f then [(x, y)] else []) @ fam_ranges g (fst b)"
    unfolding ref_add_range_def key by (cases f; cases g) simp_all
  show "snd (ref_add_range (nrange f x y) b) = snd b"
    unfolding ref_add_range_def key by (cases f) simp_all
qed

lemma ref_add_range_laws:
  shows "rng_valid r \<Longrightarrow> ref_bips (ref_add_range r b) = ref_bips b \<union> rng_set r"
    and "ref_bok (ref_add_range r b) \<longleftrightarrow> ref_bok b \<and> rng_valid r"
proof -
  assume "rng_valid r"
  then obtain f x y where r: "r = nrange f x y" "x \<le> y" "y < 2 ^ famlen f"
    by (rule valid_range_cases)
  show "ref_bips (ref_add_range r b) = ref_bips b \<union> rng_set r"
  proof (rule zoneless_set_eqI)
    fix g n assume "n < (2 :: nat) ^ famlen g"
    then show "zaddr g n \<in> ref_bips (ref_add_range r b) \<longleftrightarrow> zaddr g n \<in> ref_bips b \<union> rng_set r"
      using r by (auto simp: ref_bips_def fam_ranges_add zaddr_in_rng_set)
  qed (auto simp: ref_bips_def dest: ref_contains_zoneless rng_set_zoneless)
next
  show "ref_bok (ref_add_range r b) \<longleftrightarrow> ref_bok b \<and> rng_valid r"
  proof (cases "rng_valid r")
    case True
    then obtain f x y where "r = nrange f x y" "x \<le> y" "y < 2 ^ famlen f"
      by (rule valid_range_cases)
    with True show ?thesis by (simp add: ref_bok_def fam_ranges_add)
  qed (simp add: ref_bok_def ref_add_range_def rng_key_invalid)
qed

lemma rng_valid_single: "rng_valid \<lparr>rng_from = a, rng_to = a\<rparr> \<longleftrightarrow> zoneless a"
  by (auto simp: rng_valid_def)

lemma zoneless_WithZone_iff: "zoneless (WithZone a []) \<longleftrightarrow> IsValid a"
  by (cases a) (simp_all add: zoneless_def)

lemma rng_set_single: "zoneless a \<Longrightarrow> rng_set \<lparr>rng_from = a, rng_to = a\<rparr> = {a}"
  by (auto simp: rng_set_def addr_interval_def)

lemma ref_add_laws:
  "IsValid a \<Longrightarrow> ref_bips (ref_add a b) = insert (WithZone a []) (ref_bips b)"
  "ref_bok (ref_add a b) \<longleftrightarrow> ref_bok b \<and> IsValid a"
  by (simp_all add: ref_add_def ref_add_range_laws rng_valid_single zoneless_WithZone_iff
      rng_set_single)

lemma ref_range_of_prefix_nprefix:
  assumes "Prefix_IsValid p" "Masked p = nprefix f k b" "k < 2 ^ b" "b \<le> famlen f"
  shows "ref_range_of_prefix p = nrange f (k * bsize f b) (Suc k * bsize f b - 1)"
proof -
  have n: "addr_bits (zaddr f (k * bsize f b)) = k * bsize f b"
    by (rule zaddr_bits [OF block_start_bound [OF assms(3,4)]])
  have "(if f = F4 then F4 else F6) = f" by (cases f) simp_all
  then have "ref_range_of_prefix p = nrange f (k * bsize f b) (k * bsize f b + bsize f b - 1)"
    using assms(1,2) by (simp add: ref_range_of_prefix_def Let_def n)
  also have "k * bsize f b + bsize f b = Suc k * bsize f b" by simp
  finally show ?thesis .
qed

lemma ref_range_of_prefix_law:
  assumes "pfx_wf p" "Prefix_IsValid p"
  shows "rng_valid (ref_range_of_prefix p)" "rng_set (ref_range_of_prefix p) = pfx_set p"
proof -
  obtain f k b where m: "Masked p = nprefix f k b" "k < 2 ^ b" "b \<le> famlen f"
    using assms by (metis Masked_valid_cases)
  define lo hi where "lo = k * bsize f b" and "hi = Suc k * bsize f b"
  have lohi: "lo < hi" "hi \<le> 2 ^ famlen f"
    using block_bound [OF m(2,3)] by (simp_all add: lo_def hi_def)
  have r: "ref_range_of_prefix p = nrange f lo (hi - 1)"
    using assms(2) m by (simp add: ref_range_of_prefix_nprefix lo_def hi_def)
  then show "rng_valid (ref_range_of_prefix p)" using lohi by simp
  have "rng_set (ref_range_of_prefix p) = zaddr f ` {lo..hi - 1}"
    using r lohi by (simp add: rng_set_nrange)
  also have "{lo..hi - 1} = {lo..<hi}" using lohi by auto
  also have "\<dots> = nblock f k b" by (simp only: nblock_def lo_def hi_def)
  also have "zaddr f ` nblock f k b = pfx_set p"
    using m assms pfx_set_Masked [of p] by (simp add: pfx_set_nblock)
  finally show "rng_set (ref_range_of_prefix p) = pfx_set p" .
qed

lemma ref_range_of_prefix_invalid:
  "\<not> Prefix_IsValid p \<Longrightarrow> ref_range_of_prefix p = \<lparr>rng_from = ZeroAddr, rng_to = ZeroAddr\<rparr>"
  by (simp add: ref_range_of_prefix_def)

lemma zero_range_invalid: "\<not> rng_valid \<lparr>rng_from = ZeroAddr, rng_to = ZeroAddr\<rparr>"
  by (simp add: rng_valid_def zoneless_def)

lemma ref_range_of_prefix_valid:
  "pfx_wf p \<Longrightarrow> rng_valid (ref_range_of_prefix p) \<longleftrightarrow> Prefix_IsValid p"
  by (cases "Prefix_IsValid p")
     (simp_all add: ref_range_of_prefix_law ref_range_of_prefix_invalid zero_range_invalid)


lemma ref_add_prefix_laws:
  assumes "pfx_wf p"
  shows "Prefix_IsValid p \<Longrightarrow> ref_bips (ref_add_prefix p b) = ref_bips b \<union> pfx_set p"
    and "ref_bok (ref_add_prefix p b) \<longleftrightarrow> ref_bok b \<and> Prefix_IsValid p"
  using assms
  by (simp_all add: ref_add_prefix_def ref_add_range_laws ref_range_of_prefix_law
      ref_range_of_prefix_valid)

lemma fam_ranges_sets [simp]:
  "fam_ranges f (fst (ref_add_set s b)) = fam_ranges f s @ fam_ranges f (fst b)"
  "fam_ranges f (fst (ref_remove_set s b)) = rl_diff (fam_ranges f (fst b)) (fam_ranges f s)"
  by (cases f; simp add: ref_add_set_def ref_remove_set_def)+

lemma ref_set_laws:
  "ref_bips (ref_add_set s b) = ref_bips b \<union> {a. ref_contains s a}"
  "ref_bips (ref_remove_set s b) = ref_bips b - {a. ref_contains s a}"
proof -
  show "ref_bips (ref_add_set s b) = ref_bips b \<union> {a. ref_contains s a}"
    by (rule zoneless_set_eqI) (auto simp: ref_bips_def dest: ref_contains_zoneless)
  show "ref_bips (ref_remove_set s b) = ref_bips b - {a. ref_contains s a}"
    by (rule zoneless_set_eqI) (auto simp: ref_bips_def rl_diff_set dest: ref_contains_zoneless)
qed

lemma ref_remove_laws:
  "IsValid a \<Longrightarrow> ref_bips (ref_remove a b) = ref_bips b - {WithZone a []}"
  "ref_bok (ref_remove a b) \<longleftrightarrow> ref_bok b \<and> IsValid a"
proof -
  have single4: "{a. ref_contains ([(unat w, unat w)], []) a} = {V4 w}" for w
  proof (intro set_eqI iffI)
    fix x assume "x \<in> {a. ref_contains ([(unat w, unat w)], []) a}"
    then show "x \<in> {V4 w}" by (cases x) (auto simp: word_unat_eq_iff)
  qed auto
  have single6: "{a. ref_contains ([], [(unat w, unat w)]) a} = {V6 w []}" for w
  proof (intro set_eqI iffI)
    fix x assume "x \<in> {a. ref_contains ([], [(unat w, unat w)]) a}"
    then show "x \<in> {V6 w []}" by (cases x) (auto simp: word_unat_eq_iff)
  qed auto
  show "IsValid a \<Longrightarrow> ref_bips (ref_remove a b) = ref_bips b - {WithZone a []}"
    by (cases a) (simp_all add: ref_remove_def ref_set_laws single4 single6)
  show "ref_bok (ref_remove a b) \<longleftrightarrow> ref_bok b \<and> IsValid a"
    by (cases a) (simp_all add: ref_remove_def ref_bok_def ref_remove_set_def)
qed

subsubsection \<open>Ranges\<close>

lemma ref_norm_set: "rl_set (ref_norm f s) = rl_set (fam_ranges f s) \<inter> {..<2 ^ famlen f}"
proof -
  have "{..2 ^ famlen f - 1} = {..<(2 :: nat) ^ famlen f}" by (auto simp: less_eq_iff_succ_less)
  then show ?thesis by (simp add: ref_norm_def)
qed

lemma ref_norm_mem:
  assumes "(a, b) \<in> set (ref_norm f s)"
  shows "a \<le> b" "b < 2 ^ famlen f"
proof -
  show "a \<le> b" using assms unfolding ref_norm_def by (rule rl_norm_mem)
  have "b \<le> 2 ^ famlen f - 1" using assms unfolding ref_norm_def by (rule rl_norm_mem)
  moreover have "(0 :: nat) < 2 ^ famlen f" by simp
  ultimately show "b < 2 ^ famlen f" by linarith
qed

lemma ref_norm_gap [simp]: "rl_gap (ref_norm f s)"
  by (simp add: ref_norm_def)

lemma ref_ranges_mem:
  "r \<in> set (ref_ranges s) \<longleftrightarrow> (\<exists>f a b. r = nrange f a b \<and> (a, b) \<in> set (ref_norm f s))"
proof
  assume "r \<in> set (ref_ranges s)"
  then show "\<exists>f a b. r = nrange f a b \<and> (a, b) \<in> set (ref_norm f s)"
    by (auto simp: ref_ranges_def ref_fam_ranges_def)
next
  assume "\<exists>f a b. r = nrange f a b \<and> (a, b) \<in> set (ref_norm f s)"
  then obtain f a b where "r = nrange f a b" "(a, b) \<in> set (ref_norm f s)" by blast
  then show "r \<in> set (ref_ranges s)"
    by (cases f) (force simp: ref_ranges_def ref_fam_ranges_def)+
qed

lemma ref_ranges_valid:
  assumes "r \<in> set (ref_ranges s)"
  shows "rng_valid r"
proof -
  from assms obtain f a b where r: "r = nrange f a b" "(a, b) \<in> set (ref_norm f s)"
    by (auto simp: ref_ranges_mem)
  from r(2) have "a \<le> b" "b < 2 ^ famlen f" by (rule ref_norm_mem)+
  with r(1) show ?thesis by simp
qed

lemma ref_ranges_memI: "(a, b) \<in> set (ref_norm f s) \<Longrightarrow> nrange f a b \<in> set (ref_ranges s)"
  by (auto simp: ref_ranges_mem)

lemma rl_set_mem: "n \<in> rl_set rs \<longleftrightarrow> (\<exists>a b. (a, b) \<in> set rs \<and> a \<le> n \<and> n \<le> b)"
  by (force simp: rl_set_def)

lemma ref_ranges_UN:
  "(\<Union>r \<in> set (ref_ranges s). rng_set r) =
     {x. \<exists>f a b. (a, b) \<in> set (ref_norm f s) \<and> x \<in> rng_set (nrange f a b)}"
proof (intro set_eqI iffI)
  fix x assume "x \<in> (\<Union>r \<in> set (ref_ranges s). rng_set r)"
  then obtain r where "r \<in> set (ref_ranges s)" "x \<in> rng_set r" by blast
  then show "x \<in> {x. \<exists>f a b. (a, b) \<in> set (ref_norm f s) \<and> x \<in> rng_set (nrange f a b)}"
    unfolding ref_ranges_mem by blast
next
  fix x assume "x \<in> {x. \<exists>f a b. (a, b) \<in> set (ref_norm f s) \<and> x \<in> rng_set (nrange f a b)}"
  then show "x \<in> (\<Union>r \<in> set (ref_ranges s). rng_set r)" by (blast intro: ref_ranges_memI)
qed

lemma zaddr_in_norm_range:
  assumes "n < 2 ^ famlen f"
  shows "(\<exists>g a b. (a, b) \<in> set (ref_norm g s) \<and> zaddr f n \<in> rng_set (nrange g a b))
     \<longleftrightarrow> (\<exists>a b. (a, b) \<in> set (ref_norm f s) \<and> a \<le> n \<and> n \<le> b)" (is "?l \<longleftrightarrow> ?r")
proof
  assume ?l
  then obtain g a b where ab: "(a, b) \<in> set (ref_norm g s)" "zaddr f n \<in> rng_set (nrange g a b)"
    by blast
  then have "f = g \<and> a \<le> n \<and> n \<le> b"
    using assms ref_norm_mem [OF ab(1)] by (simp add: zaddr_in_rng_set)
  with ab(1) show ?r by blast
next
  assume ?r
  then obtain a b where ab: "(a, b) \<in> set (ref_norm f s)" "a \<le> n" "n \<le> b" by blast
  then have "zaddr f n \<in> rng_set (nrange f a b)"
    using assms ref_norm_mem [OF ab(1)] by (simp add: zaddr_in_rng_set)
  with ab(1) show ?l by blast
qed

lemma ref_ranges_cover: "{a. ref_contains s a} = (\<Union>r \<in> set (ref_ranges s). rng_set r)"
proof (rule zoneless_set_eqI)
  fix f n assume n: "n < (2 :: nat) ^ famlen f"
  have "zaddr f n \<in> (\<Union>r \<in> set (ref_ranges s). rng_set r) \<longleftrightarrow>
      (\<exists>a b. (a, b) \<in> set (ref_norm f s) \<and> a \<le> n \<and> n \<le> b)"
    unfolding ref_ranges_UN using n by (simp add: zaddr_in_norm_range)
  also have "\<dots> \<longleftrightarrow> n \<in> rl_set (fam_ranges f s)"
    using n by (simp flip: rl_set_mem add: ref_norm_set)
  finally show "zaddr f n \<in> {a. ref_contains s a} \<longleftrightarrow> zaddr f n \<in> (\<Union>r \<in> set (ref_ranges s). rng_set r)"
    using n by simp
qed (auto dest: ref_contains_zoneless rng_set_zoneless)

lemma ref_fam_ranges_sorted:
  "sorted_wrt (\<lambda>r r'. rng_to r < rng_from r') (ref_fam_ranges f s)"
proof -
  have "sorted_wrt (\<lambda>(a, b) (c, d). b < c) (ref_norm f s)"
    by (rule rl_gap_sorted) simp
  then have "sorted_wrt (\<lambda>x y. rng_to (case_prod (nrange f) x) < rng_from (case_prod (nrange f) y))
      (ref_norm f s)"
  proof (rule sorted_wrt_mono_rel [rotated])
    fix x y assume xy: "x \<in> set (ref_norm f s)" "y \<in> set (ref_norm f s)"
      and less: "(case x of (a, b) \<Rightarrow> \<lambda>(c, d). b < c) y"
    obtain a b c d where p: "x = (a, b)" "y = (c, d)" by force
    have "b < c" "c \<le> d" "d < 2 ^ famlen f"
      using less xy(2) ref_norm_mem [of c d f s] by (simp_all add: p)
    then show "rng_to (case_prod (nrange f) x) < rng_from (case_prod (nrange f) y)"
      by (simp add: p)
  qed
  then show ?thesis by (simp add: ref_fam_ranges_def sorted_wrt_map)
qed

lemma zaddr_F4_less_F6: "zaddr F4 n < zaddr F6 m"
  by (simp add: less_addr_def addr_key_def)

lemma ref_ranges_sorted: "sorted_wrt (\<lambda>r r'. rng_to r < rng_from r') (ref_ranges s)"
proof -
  have "rng_to r < rng_from r'"
    if "r \<in> set (ref_fam_ranges F4 s)" "r' \<in> set (ref_fam_ranges F6 s)" for r r'
    using that by (auto simp: ref_fam_ranges_def zaddr_F4_less_F6)
  then show ?thesis by (simp add: ref_ranges_def sorted_wrt_append ref_fam_ranges_sorted)
qed

lemma ref_in_one_range:
  assumes "rng_valid r" "rng_set r \<subseteq> {a. ref_contains s a}"
  shows "\<exists>f x y a b. r = nrange f x y \<and> x \<le> y \<and> y < 2 ^ famlen f \<and>
    (a, b) \<in> set (ref_norm f s) \<and> a \<le> x \<and> y \<le> b"
proof -
  obtain f x y where r: "r = nrange f x y" "x \<le> y" "y < 2 ^ famlen f"
    using assms(1) by (rule valid_range_cases)
  have "{x..y} \<subseteq> rl_set (ref_norm f s)"
  proof
    fix n assume n: "n \<in> {x..y}"
    then have "n < 2 ^ famlen f" using r by auto
    with n r have "zaddr f n \<in> rng_set r" by (simp add: zaddr_in_rng_set)
    with assms(2) \<open>n < 2 ^ famlen f\<close> show "n \<in> rl_set (ref_norm f s)"
      by (auto simp: ref_norm_set)
  qed
  then have "\<exists>(a, b) \<in> set (ref_norm f s). a \<le> x \<and> y \<le> b"
    using r by (intro rl_gap_one) simp_all
  with r show ?thesis by blast
qed

lemma ref_contains_range_iff:
  "ref_contains_range s r \<longleftrightarrow> rng_valid r \<and> rng_set r \<subseteq> {a. ref_contains s a}"
proof
  assume c: "ref_contains_range s r"
  then have "rng_valid r" by (cases "rng_valid r") (simp_all add: ref_contains_range_def rng_key_invalid)
  then obtain f x y where r: "r = nrange f x y" "x \<le> y" "y < 2 ^ famlen f"
    by (rule valid_range_cases)
  with c obtain a b where ab: "(a, b) \<in> set (ref_norm f s)" "a \<le> x" "y \<le> b"
    by (auto simp: ref_contains_range_def list_ex_iff)
  have "rng_set r \<subseteq> rng_set (nrange f a b)"
    using r ab ref_norm_mem [OF ab(1)] by (auto simp: rng_set_nrange)
  also have "\<dots> \<subseteq> {a. ref_contains s a}"
    unfolding ref_ranges_cover using ref_ranges_memI [OF ab(1)] by blast
  finally show "rng_valid r \<and> rng_set r \<subseteq> {a. ref_contains s a}" using \<open>rng_valid r\<close> by simp
next
  assume "rng_valid r \<and> rng_set r \<subseteq> {a. ref_contains s a}"
  then obtain f x y a b where "r = nrange f x y" "x \<le> y" "y < 2 ^ famlen f"
    "(a, b) \<in> set (ref_norm f s)" "a \<le> x" "y \<le> b"
    using ref_in_one_range by blast
  then show "ref_contains_range s r" by (auto simp: ref_contains_range_def list_ex_iff)
qed

lemma ref_ranges_minimal:
  assumes "rng_valid r" "rng_set r \<subseteq> {a. ref_contains s a}"
  shows "\<exists>r' \<in> set (ref_ranges s). rng_set r \<subseteq> rng_set r'"
proof -
  obtain f x y a b where r: "r = nrange f x y" "x \<le> y" "y < 2 ^ famlen f"
    "(a, b) \<in> set (ref_norm f s)" "a \<le> x" "y \<le> b"
    using ref_in_one_range [OF assms] by blast
  then have "rng_set r \<subseteq> rng_set (nrange f a b)"
    using ref_norm_mem [OF r(4)] by (auto simp: rng_set_nrange)
  with ref_ranges_memI [OF r(4)] show ?thesis by blast
qed

lemma ref_overlaps_range_iff:
  "ref_overlaps_range s r \<longleftrightarrow> rng_valid r \<and> rng_set r \<inter> {a. ref_contains s a} \<noteq> {}"
proof (cases "rng_valid r")
  case True
  then obtain f x y where r: "r = nrange f x y" "x \<le> y" "y < 2 ^ famlen f"
    by (rule valid_range_cases)
  have "ref_overlaps_range s r \<longleftrightarrow> (\<exists>a b. (a, b) \<in> set (ref_norm f s) \<and> a \<le> y \<and> x \<le> b)"
    using r by (auto simp: ref_overlaps_range_def list_ex_iff)
  also have "\<dots> \<longleftrightarrow> (\<exists>n. x \<le> n \<and> n \<le> y \<and> n \<in> rl_set (ref_norm f s))"
  proof
    assume "\<exists>a b. (a, b) \<in> set (ref_norm f s) \<and> a \<le> y \<and> x \<le> b"
    then obtain a b where "(a, b) \<in> set (ref_norm f s)" "a \<le> y" "x \<le> b" by blast
    note ab = this
    have "max a x \<in> rl_set (ref_norm f s)"
      unfolding rl_set_mem using ab ref_norm_mem(1) [OF ab(1)] by (intro exI [of _ a] exI [of _ b]) simp
    with r(2) ab(2) show "\<exists>n. x \<le> n \<and> n \<le> y \<and> n \<in> rl_set (ref_norm f s)"
      by (intro exI [of _ "max a x"]) simp
  next
    assume "\<exists>n. x \<le> n \<and> n \<le> y \<and> n \<in> rl_set (ref_norm f s)"
    then show "\<exists>a b. (a, b) \<in> set (ref_norm f s) \<and> a \<le> y \<and> x \<le> b"
      by (auto simp: rl_set_mem intro: order_trans)
  qed
  also have "\<dots> \<longleftrightarrow> (\<exists>n. x \<le> n \<and> n \<le> y \<and> ref_contains s (zaddr f n))"
    using r by (auto simp: ref_norm_set)
  also have "\<dots> \<longleftrightarrow> zaddr f ` {x..y} \<inter> {a. ref_contains s a} \<noteq> {}"
    unfolding ex_in_conv [symmetric] by fastforce
  also have "zaddr f ` {x..y} = rng_set r"
    using r by (simp add: rng_set_nrange)
  finally show ?thesis using True by simp
qed (simp add: ref_overlaps_range_def rng_key_invalid)


subsubsection \<open>Prefixes\<close>

declare ref_walk.simps [simp del]

lemma walk_cov:
  assumes "rl_gap rs"
  shows "list_ex (\<lambda>(x, y). x \<le> k * bsize f b \<and> Suc k * bsize f b \<le> Suc y) rs \<longleftrightarrow>
    nblock f k b \<subseteq> rl_set rs"
proof -
  define lo hi where "lo = k * bsize f b" and "hi = Suc k * bsize f b"
  have lohi: "lo < hi" by (simp add: lo_def hi_def)
  have "list_ex (\<lambda>(x, y). x \<le> lo \<and> hi \<le> Suc y) rs \<longleftrightarrow> (\<exists>(x, y) \<in> set rs. x \<le> lo \<and> hi - 1 \<le> y)"
    unfolding list_ex_iff using lohi by (intro bex_cong) auto
  also have "\<dots> \<longleftrightarrow> {lo..hi - 1} \<subseteq> rl_set rs"
  proof
    assume "\<exists>(x, y) \<in> set rs. x \<le> lo \<and> hi - 1 \<le> y"
    then obtain x y where "(x, y) \<in> set rs" "x \<le> lo" "hi - 1 \<le> y" by blast
    then have "n \<in> {lo..hi - 1} \<Longrightarrow> n \<in> rl_set rs" for n
      unfolding rl_set_mem by (intro exI [of _ x] exI [of _ y]) auto
    then show "{lo..hi - 1} \<subseteq> rl_set rs" by blast
  next
    assume "{lo..hi - 1} \<subseteq> rl_set rs"
    with assms lohi show "\<exists>(x, y) \<in> set rs. x \<le> lo \<and> hi - 1 \<le> y"
      by (intro rl_gap_one) auto
  qed
  also have "{lo..hi - 1} = {lo..<hi}" using lohi by auto
  also have "\<dots> = nblock f k b" by (simp only: nblock_def lo_def hi_def)
  finally show ?thesis by (simp only: lo_def hi_def)
qed

lemma walk_ovl:
  "list_ex (\<lambda>(x, y). x < Suc k * bsize f b \<and> k * bsize f b \<le> y) rs \<Longrightarrow> rl_gap rs
     \<Longrightarrow> nblock f k b \<inter> rl_set rs \<noteq> {}"
  "nblock f k b \<inter> rl_set rs \<noteq> {}
     \<Longrightarrow> list_ex (\<lambda>(x, y). x < Suc k * bsize f b \<and> k * bsize f b \<le> y) rs"
proof -
  define lo hi where "lo = k * bsize f b" and "hi = Suc k * bsize f b"
  have lohi: "lo < hi" by (simp add: lo_def hi_def)
  have block: "nblock f k b = {lo..<hi}" by (simp add: nblock_def lo_def hi_def)
  {
    assume "list_ex (\<lambda>(x, y). x < Suc k * bsize f b \<and> k * bsize f b \<le> y) rs" and gap: "rl_gap rs"
    then obtain x y where xy: "(x, y) \<in> set rs" "x < hi" "lo \<le> y"
      by (auto simp: list_ex_iff lo_def hi_def)
    then have "x \<le> y" using gap by (auto dest: rl_gap_le)
    with xy have "max x lo \<in> rl_set rs"
      unfolding rl_set_mem by (intro exI [of _ x] exI [of _ y]) simp
    moreover have "max x lo \<in> {lo..<hi}" using xy lohi by simp
    ultimately show "nblock f k b \<inter> rl_set rs \<noteq> {}" unfolding block by blast
  next
    assume "nblock f k b \<inter> rl_set rs \<noteq> {}"
    then obtain n where n: "n \<in> {lo..<hi}" "n \<in> rl_set rs" unfolding block by blast
    then obtain x y where "(x, y) \<in> set rs" "x \<le> n" "n \<le> y" unfolding rl_set_mem by blast
    with n(1) show "list_ex (\<lambda>(x, y). x < Suc k * bsize f b \<and> k * bsize f b \<le> y) rs"
      unfolding list_ex_iff lo_def [symmetric] hi_def [symmetric]
      by (intro bexI [of _ "(x, y)"]) auto
  }
qed

lemma ref_walk_eq:
  assumes "rl_gap rs"
  shows "ref_walk rs f 0 k b = (if nblock f k b \<subseteq> rl_set rs then [nprefix f k b] else [])"
    and "ref_walk rs f (Suc r) k b =
      (if nblock f k b \<subseteq> rl_set rs then [nprefix f k b]
       else if nblock f k b \<inter> rl_set rs \<noteq> {}
       then ref_walk rs f r (2 * k) (Suc b) @ ref_walk rs f r (2 * k + 1) (Suc b)
       else [])"
proof -
  have ovl: "list_ex (\<lambda>(x, y). x < Suc k * bsize f b \<and> k * bsize f b \<le> y) rs \<longleftrightarrow>
      nblock f k b \<inter> rl_set rs \<noteq> {}"
    using walk_ovl [where k = k and f = f and b = b and rs = rs] assms by blast
  show "ref_walk rs f 0 k b = (if nblock f k b \<subseteq> rl_set rs then [nprefix f k b] else [])"
    by (simp only: ref_walk.simps walk_cov [OF assms])
  show "ref_walk rs f (Suc r) k b =
      (if nblock f k b \<subseteq> rl_set rs then [nprefix f k b]
       else if nblock f k b \<inter> rl_set rs \<noteq> {}
       then ref_walk rs f r (2 * k) (Suc b) @ ref_walk rs f r (2 * k + 1) (Suc b)
       else [])"
    by (simp only: ref_walk.simps walk_cov [OF assms] ovl)
qed

text \<open>Every prefix of a walk is a block inside the start block and inside the set.\<close>

lemma ref_walk_sound:
  assumes "rl_gap rs" "b + r = famlen f" "k < 2 ^ b" "p \<in> set (ref_walk rs f r k b)"
  shows "\<exists>j c. p = nprefix f j c \<and> b \<le> c \<and> c \<le> famlen f \<and> j < 2 ^ c
           \<and> nblock f j c \<subseteq> nblock f k b \<and> nblock f j c \<subseteq> rl_set rs"
  using assms(2-)
proof (induction r arbitrary: k b)
  case 0
  then show ?case by (auto simp: ref_walk_eq [OF assms(1)] split: if_splits)
next
  case (Suc r)
  show ?case
  proof (cases "nblock f k b \<subseteq> rl_set rs")
    case True
    with Suc.prems have "p = nprefix f k b" by (simp add: ref_walk_eq [OF assms(1)])
    with True Suc.prems show ?thesis by (intro exI [of _ k] exI [of _ b]) simp
  next
    case False
    have split: "nblock f k b = nblock f (2 * k) (Suc b) \<union> nblock f (2 * k + 1) (Suc b)"
      using Suc.prems by (intro nblock_split) simp
    from False Suc.prems obtain k' where k': "k' = 2 * k \<or> k' = 2 * k + 1"
      "p \<in> set (ref_walk rs f r k' (Suc b))"
      by (auto simp: ref_walk_eq [OF assms(1)] split: if_splits)
    have "k' < 2 ^ Suc b" using k'(1) Suc.prems by auto
    with k' Suc.IH [of "Suc b" k'] Suc.prems obtain j c where
      "p = nprefix f j c" "Suc b \<le> c" "c \<le> famlen f" "j < 2 ^ c"
      "nblock f j c \<subseteq> nblock f k' (Suc b)" "nblock f j c \<subseteq> rl_set rs"
      by auto
    with split k'(1) show ?thesis by (intro exI [of _ j] exI [of _ c]) auto
  qed
qed

text \<open>Every block of the set inside the start block is inside one prefix of the walk.\<close>

lemma ref_walk_complete:
  assumes "rl_gap rs" "b + r = famlen f" "b \<le> c" "c \<le> famlen f"
    and "nblock f j c \<subseteq> nblock f k b" "nblock f j c \<subseteq> rl_set rs" "k < 2 ^ b"
  shows "\<exists>j' c'. nprefix f j' c' \<in> set (ref_walk rs f r k b) \<and> nblock f j c \<subseteq> nblock f j' c'
           \<and> c' \<le> famlen f \<and> j' < 2 ^ c'"
  using assms(2-)
proof (induction r arbitrary: k b)
  case 0
  then have cb: "c = b" by simp
  with "0.prems" have "j = k" by (simp add: nblock_subset_iff)
  with "0.prems" cb have "ref_walk rs f 0 k b = [nprefix f k b]"
    by (simp add: ref_walk_eq [OF assms(1)])
  with \<open>j = k\<close> cb "0.prems" show ?case by (intro exI [of _ k] exI [of _ b]) simp
next
  case (Suc r)
  show ?case
  proof (cases "nblock f k b \<subseteq> rl_set rs")
    case True
    then have "ref_walk rs f (Suc r) k b = [nprefix f k b]" by (simp add: ref_walk_eq [OF assms(1)])
    with Suc.prems(1,4,6) show ?thesis by (intro exI [of _ k] exI [of _ b]) simp
  next
    case False
    have "b \<noteq> c"
    proof
      assume "b = c"
      with Suc.prems have "j = k" by (simp add: nblock_subset_iff)
      with False Suc.prems \<open>b = c\<close> show False by simp
    qed
    with Suc.prems have less: "b < c" by simp
    have ne: "nblock f k b \<inter> rl_set rs \<noteq> {}"
      using subsetD [OF Suc.prems(4) nblock_nonempty] subsetD [OF Suc.prems(5) nblock_nonempty]
      by blast
    have walk: "ref_walk rs f (Suc r) k b =
        ref_walk rs f r (2 * k) (Suc b) @ ref_walk rs f r (2 * k + 1) (Suc b)"
      by (simp only: ref_walk_eq(2) [OF assms(1)] if_not_P [OF False] if_P [OF ne])
    obtain k' where k': "k' = 2 * k \<or> k' = 2 * k + 1" "nblock f j c \<subseteq> nblock f k' (Suc b)"
      using nblock_below [OF less Suc.prems(3,4)] by blast
    have len: "Suc b + r = famlen f" using Suc.prems(1) by simp
    have "k' < 2 ^ Suc b" using k'(1) Suc.prems(6) by auto
    then have "\<exists>j' c'. nprefix f j' c' \<in> set (ref_walk rs f r k' (Suc b)) \<and> nblock f j c \<subseteq> nblock f j' c'
        \<and> c' \<le> famlen f \<and> j' < 2 ^ c'"
      using len less Suc.prems(3) k'(2) Suc.prems(5) by (intro Suc.IH) simp_all
    then show ?thesis using k'(1) by (elim disjE exE conjE) (auto simp: walk)
  qed
qed

lemma ref_walk_distinct:
  assumes "rl_gap rs" "b + r = famlen f" "k < 2 ^ b"
  shows "distinct (ref_walk rs f r k b) \<and>
    (\<forall>p \<in> set (ref_walk rs f r k b). \<forall>q \<in> set (ref_walk rs f r k b).
       p \<noteq> q \<longrightarrow> pfx_set p \<inter> pfx_set q = {})"
  using assms(2-)
proof (induction r arbitrary: k b)
  case 0
  then show ?case by (auto simp: ref_walk_eq [OF assms(1)])
next
  case (Suc r)
  define L where "L = ref_walk rs f r (2 * k) (Suc b)"
  define R where "R = ref_walk rs f r (2 * k + 1) (Suc b)"
  have ih: "distinct L" "distinct R"
    "\<forall>p \<in> set L. \<forall>q \<in> set L. p \<noteq> q \<longrightarrow> pfx_set p \<inter> pfx_set q = {}"
    "\<forall>p \<in> set R. \<forall>q \<in> set R. p \<noteq> q \<longrightarrow> pfx_set p \<inter> pfx_set q = {}"
    unfolding L_def R_def using Suc.IH [of "Suc b" "2 * k"] Suc.IH [of "Suc b" "2 * k + 1"] Suc.prems by auto
  have across: "pfx_set p \<inter> pfx_set q = {} \<and> p \<noteq> q" if pl: "p \<in> set L" and qr: "q \<in> set R" for p q
  proof -
    obtain i c where p: "p = nprefix f i c" "c \<le> famlen f" "i < 2 ^ c"
      "nblock f i c \<subseteq> nblock f (2 * k) (Suc b)"
      using ref_walk_sound [OF assms(1) _ _ pl [unfolded L_def]] Suc.prems by auto
    obtain j d where q: "q = nprefix f j d" "d \<le> famlen f" "j < 2 ^ d"
      "nblock f j d \<subseteq> nblock f (2 * k + 1) (Suc b)"
      using ref_walk_sound [OF assms(1) _ _ qr [unfolded R_def]] Suc.prems by auto
    have "nblock f (2 * k) (Suc b) \<inter> nblock f (2 * k + 1) (Suc b) = {}"
      using Suc.prems by (intro nblock_split) simp
    with p q have disj: "nblock f i c \<inter> nblock f j d = {}" by blast
    have "inj_on (zaddr f) (nblock f i c \<union> nblock f j d)"
      using p q nblock_bound by (intro inj_on_zaddr) blast
    with disj have "pfx_set p \<inter> pfx_set q = {}"
      using p q by (simp add: pfx_set_nblock inj_on_image_Int [symmetric])
    moreover have "pfx_set p \<noteq> {}" using p nblock_nonempty [of i f c] by (auto simp: pfx_set_nblock)
    ultimately show ?thesis by auto
  qed
  have "distinct (L @ R)" using ih(1,2) across by (auto simp: distinct_append)
  moreover have "\<forall>p \<in> set (L @ R). \<forall>q \<in> set (L @ R). p \<noteq> q \<longrightarrow> pfx_set p \<inter> pfx_set q = {}"
    unfolding set_append using ih(3,4) across by (blast dest: across)
  ultimately show ?case
    by (simp add: ref_walk_eq [OF assms(1)] L_def [symmetric] R_def [symmetric, simplified])
qed


lemma ref_prefixes_mem:
  assumes "p \<in> set (ref_prefixes s)"
  shows "\<exists>f j c. p = nprefix f j c \<and> c \<le> famlen f \<and> j < 2 ^ c \<and> nblock f j c \<subseteq> rl_set (ref_norm f s)
           \<and> p \<in> set (ref_walk (ref_norm f s) f (famlen f) 0 0)"
proof -
  from assms obtain f where f: "p \<in> set (ref_walk (ref_norm f s) f (famlen f) 0 0)"
    by (auto simp: ref_prefixes_def intro: that [of F4] that [of F6])
  have "\<exists>j c. p = nprefix f j c \<and> 0 \<le> c \<and> c \<le> famlen f \<and> j < 2 ^ c
           \<and> nblock f j c \<subseteq> nblock f 0 0 \<and> nblock f j c \<subseteq> rl_set (ref_norm f s)"
    by (rule ref_walk_sound [OF _ _ _ f]) simp_all
  with f show ?thesis by blast
qed

lemma ref_walk_in_prefixes:
  "p \<in> set (ref_walk (ref_norm f s) f (famlen f) 0 0) \<Longrightarrow> p \<in> set (ref_prefixes s)"
  by (cases f) (simp_all add: ref_prefixes_def)

lemma ref_prefixes_valid:
  assumes "p \<in> set (ref_prefixes s)"
  shows "Prefix_IsValid p \<and> pfx_wf p \<and> Masked p = p"
proof -
  obtain f j c where "p = nprefix f j c" "c \<le> famlen f" "j < 2 ^ c"
    using ref_prefixes_mem [OF assms] by blast
  then show ?thesis by simp
qed

lemma nblock_root: "nblock f j c \<subseteq> nblock f 0 0" if "j < 2 ^ c" "c \<le> famlen f"
  using that by (simp add: nblock_subset_iff)

lemma ref_prefixes_minimal:
  assumes "Prefix_IsValid p" "pfx_wf p" "pfx_set p \<subseteq> {a. ref_contains s a}"
  shows "\<exists>q \<in> set (ref_prefixes s). pfx_set p \<subseteq> pfx_set q"
proof -
  obtain f j c where m: "Masked p = nprefix f j c" "j < 2 ^ c" "c \<le> famlen f"
    using assms(1,2) by (metis Masked_valid_cases)
  have set: "pfx_set p = zaddr f ` nblock f j c"
    using m assms pfx_set_Masked [of p] by (simp add: pfx_set_nblock)
  have "nblock f j c \<subseteq> rl_set (ref_norm f s)"
  proof
    fix n assume n: "n \<in> nblock f j c"
    then have "n < 2 ^ famlen f" using nblock_bound [OF m(2,3)] by blast
    moreover have "ref_contains s (zaddr f n)" using n set assms(3) by blast
    ultimately show "n \<in> rl_set (ref_norm f s)" by (simp add: ref_norm_set)
  qed
  then have "\<exists>j' c'. nprefix f j' c' \<in> set (ref_walk (ref_norm f s) f (famlen f) 0 0)
      \<and> nblock f j c \<subseteq> nblock f j' c' \<and> c' \<le> famlen f \<and> j' < 2 ^ c'"
    using m nblock_root by (intro ref_walk_complete) simp_all
  then obtain j' c' where q: "nprefix f j' c' \<in> set (ref_walk (ref_norm f s) f (famlen f) 0 0)"
    "nblock f j c \<subseteq> nblock f j' c'" "c' \<le> famlen f" "j' < 2 ^ c'" by blast
  then have "pfx_set p \<subseteq> pfx_set (nprefix f j' c')"
    using set by (simp add: pfx_set_nblock image_mono)
  with ref_walk_in_prefixes [OF q(1)] show ?thesis by blast
qed

lemma zaddr_single_block:
  assumes "n < 2 ^ famlen f"
  shows "pfx_set (nprefix f n (famlen f)) = {zaddr f n}"
proof -
  have "nblock f n (famlen f) = {n}" by (auto simp: nblock_def bsize_def)
  with assms show ?thesis by (simp add: pfx_set_nblock)
qed

lemma ref_prefixes_cover: "{a. ref_contains s a} = (\<Union>p \<in> set (ref_prefixes s). pfx_set p)"
proof (rule zoneless_set_eqI)
  fix f n assume n: "n < (2 :: nat) ^ famlen f"
  show "zaddr f n \<in> {a. ref_contains s a} \<longleftrightarrow> zaddr f n \<in> (\<Union>p \<in> set (ref_prefixes s). pfx_set p)"
  proof
    assume "zaddr f n \<in> {a. ref_contains s a}"
    then have "\<exists>q \<in> set (ref_prefixes s). pfx_set (nprefix f n (famlen f)) \<subseteq> pfx_set q"
      using n by (intro ref_prefixes_minimal) (simp_all add: zaddr_single_block)
    with n show "zaddr f n \<in> (\<Union>p \<in> set (ref_prefixes s). pfx_set p)"
      by (auto simp: zaddr_single_block)
  next
    assume "zaddr f n \<in> (\<Union>p \<in> set (ref_prefixes s). pfx_set p)"
    then obtain p where p: "p \<in> set (ref_prefixes s)" "zaddr f n \<in> pfx_set p" by blast
    then obtain g j c where g: "p = nprefix g j c" "c \<le> famlen g" "j < 2 ^ c"
      "nblock g j c \<subseteq> rl_set (ref_norm g s)" using ref_prefixes_mem by blast
    with p(2) n have "f = g" "n \<in> nblock g j c" by (auto simp: zaddr_in_pfx_set)
    with g(4) n show "zaddr f n \<in> {a. ref_contains s a}" by (auto simp: ref_norm_set)
  qed
qed (auto dest: ref_contains_zoneless pfx_set_zoneless)

lemma ref_prefixes_apart:
  "distinct (ref_prefixes s)"
  "p \<in> set (ref_prefixes s) \<Longrightarrow> q \<in> set (ref_prefixes s) \<Longrightarrow> p \<noteq> q \<Longrightarrow> pfx_set p \<inter> pfx_set q = {}"
proof -
  have fam: "distinct (ref_walk (ref_norm f s) f (famlen f) 0 0) \<and>
    (\<forall>p \<in> set (ref_walk (ref_norm f s) f (famlen f) 0 0).
     \<forall>q \<in> set (ref_walk (ref_norm f s) f (famlen f) 0 0). p \<noteq> q \<longrightarrow> pfx_set p \<inter> pfx_set q = {})" for f
    by (rule ref_walk_distinct) simp_all
  have in_fam: "pfx_set p \<subseteq> range (zaddr f) \<and> pfx_addr p \<in> range (zaddr f)"
    if "p \<in> set (ref_walk (ref_norm f s) f (famlen f) 0 0)" for p f
  proof -
    have "\<exists>j c. p = nprefix f j c \<and> 0 \<le> c \<and> c \<le> famlen f \<and> j < 2 ^ c
           \<and> nblock f j c \<subseteq> nblock f 0 0 \<and> nblock f j c \<subseteq> rl_set (ref_norm f s)"
      by (rule ref_walk_sound [OF _ _ _ that]) simp_all
    then show ?thesis by (auto simp: pfx_set_nblock)
  qed
  have sep: "range (zaddr F4) \<inter> range (zaddr F6) = {}"
    by (auto simp: zaddr.simps)
  have apart: "pfx_set p \<inter> pfx_set q = {} \<and> p \<noteq> q"
    if "p \<in> set (ref_walk (ref_norm F4 s) F4 (famlen F4) 0 0)"
      and "q \<in> set (ref_walk (ref_norm F6 s) F6 (famlen F6) 0 0)" for p q
    using in_fam [OF that(1)] in_fam [OF that(2)] sep by blast
  show "distinct (ref_prefixes s)"
    using fam [of F4] fam [of F6] apart by (auto simp: ref_prefixes_def)
  show "p \<in> set (ref_prefixes s) \<Longrightarrow> q \<in> set (ref_prefixes s) \<Longrightarrow> p \<noteq> q \<Longrightarrow> pfx_set p \<inter> pfx_set q = {}"
    using fam [of F4] fam [of F6] apart apart [of q p] unfolding ref_prefixes_def set_append famlen.simps
    by blast
qed

subsection \<open>Interpretation\<close>

lemma ref_netipx_sel [simp]:
  "nx_new ref_netipx = (([], []), True)"
  "nx_add ref_netipx = ref_add"
  "nx_add_range ref_netipx = ref_add_range"
  "nx_add_prefix ref_netipx = ref_add_prefix"
  "nx_add_set ref_netipx = ref_add_set"
  "nx_remove ref_netipx = ref_remove"
  "nx_remove_set ref_netipx = ref_remove_set"
  "nx_ipset ref_netipx = ref_ipset"
  "nx_ranges ref_netipx = ref_ranges"
  "nx_prefixes ref_netipx = ref_prefixes"
  "nx_contains ref_netipx = ref_contains"
  "nx_contains_range ref_netipx = ref_contains_range"
  "nx_contains_prefix ref_netipx = (\<lambda>s p. ref_contains_range s (ref_range_of_prefix p))"
  "nx_overlaps_prefix ref_netipx = (\<lambda>s p. ref_overlaps_range s (ref_range_of_prefix p))"
  "nx_parse_range ref_netipx =
     (\<lambda>t. case parse_range_spec t of None \<Rightarrow> Inl (RangeError t) | Some r \<Rightarrow> Inr r)"
  "nx_range_of_prefix ref_netipx = ref_range_of_prefix"
  by (simp_all add: ref_netipx_def ref_contains_prefix_def ref_overlaps_prefix_def
      ref_parse_range_def fun_eq_iff)

interpretation ref: netipx_laws ref_netipx ref_bips ref_bok
proof (unfold_locales, goal_cases)
  case 1 then show ?case by (auto simp: ref_bips_def elim: ref_contains.elims)
next
  case 2 then show ?case by (simp add: ref_bok_def)
next
  case (3 a b) then show ?case by (simp add: ref_add_laws)
next
  case (4 a b) then show ?case by (simp add: ref_add_laws)
next
  case (5 r b) then show ?case by (simp add: ref_add_range_laws)
next
  case (6 r b) then show ?case by (simp add: ref_add_range_laws)
next
  case (7 p b) then show ?case by (simp add: ref_add_prefix_laws)
next
  case (8 p b) then show ?case by (simp add: ref_add_prefix_laws)
next
  case (9 s b) then show ?case by (simp add: ref_set_laws ref_ips)
next
  case (10 s b) then show ?case by (simp add: ref_bok_def ref_add_set_def)
next
  case (11 a b) then show ?case by (simp add: ref_remove_laws)
next
  case (12 a b) then show ?case by (simp add: ref_remove_laws)
next
  case (13 s b) then show ?case by (simp add: ref_set_laws ref_ips)
next
  case (14 s b) then show ?case by (simp add: ref_bok_def ref_remove_set_def)
next
  case (15 b) then show ?case by (simp add: ref_ips ref_bips_def ref_bok_def ref_ipset_def)
next
  case (16 b) then show ?case by (simp add: ref_bok_def ref_ipset_def)
next
  case (17 s a) then show ?case by (simp add: ref_contains_zoneless)
next
  case (18 r s) then show ?case by (simp add: ref_ranges_valid)
next
  case (19 s) then show ?case by (simp add: ref_ips ref_ranges_cover)
next
  case (20 s) then show ?case by (simp add: ref_ranges_sorted)
next
  case (21 r s) then show ?case by (simp add: ref_ips ref_ranges_minimal)
next
  case (22 p s) then show ?case by (simp add: ref_prefixes_valid)
next
  case (23 s) then show ?case by (simp add: ref_ips ref_prefixes_cover)
next
  case (24 s) then show ?case by (simp add: ref_prefixes_apart)
next
  case (25 p s q) then show ?case by (simp add: ref_prefixes_apart)
next
  case (26 p s) then show ?case by (simp add: ref_ips ref_prefixes_minimal)
next
  case (27 s r) then show ?case by (simp add: ref_ips ref_contains_range_iff)
next
  case (28 p s) then show ?case
    by (auto simp: ref_ips ref_contains_range_iff ref_range_of_prefix_valid ref_range_of_prefix_law)
next
  case (29 p s) then show ?case
    by (auto simp: ref_ips ref_overlaps_range_iff ref_range_of_prefix_valid ref_range_of_prefix_law)
next
  case (30 t r) then show ?case by simp
next
  case (31 t) then show ?case by simp
next
  case (32 p) then show ?case by (simp add: ref_range_of_prefix_law)
next
  case (33 p) then show ?case by (simp add: ref_range_of_prefix_invalid)
qed

end
