(* ===== verification/ApiTypes.thy ===== *)
theory ApiTypes
  imports Prelude
begin

text \<open>
  The API types: the pools of \<open>api/v1alpha2\<close> (and the interfaces of \<open>pkg/types\<close> over
  them), and the fields the provider uses of the Kubernetes and Cluster API types
  (\<open>ObjectMeta\<close>, \<open>IPAddress\<close>, \<open>IPAddressClaim\<close>, \<open>Cluster\<close>). A Go pointer that may be
  nil is an \<open>option\<close>; a Go map is a partial function (nil and empty maps read the same).
\<close>

subsection \<open>Kubernetes metadata\<close>

type_synonym nsname = "string \<times> string"

record owner_ref =
  or_api_version :: string
  or_kind :: string
  or_name :: string
  or_controller :: "bool option"
  or_block :: "bool option"

record object_meta =
  om_name :: string
  om_namespace :: string
  om_labels :: "string \<rightharpoonup> string"
  om_annotations :: "string \<rightharpoonup> string"
  om_finalizers :: "string list"
  om_deletion :: "int option"
  om_owners :: "owner_ref list"

record gvk =
  gvk_group :: string
  gvk_version :: string
  gvk_kind :: string

definition empty_meta :: object_meta where
  "empty_meta = \<lparr>om_name = [], om_namespace = [], om_labels = Map.empty,
     om_annotations = Map.empty, om_finalizers = [], om_deletion = None, om_owners = []\<rparr>"

subsection \<open>IPAddress and IPAddressClaim\<close>

record pool_ref =
  pr_group :: string
  pr_kind :: string
  pr_name :: string

record ip_address =
  ia_meta :: object_meta
  ia_claim_ref :: string
  ia_pool_ref :: pool_ref
  ia_address :: string
  ia_prefix :: "int option"
  ia_gateway :: string

record ip_claim =
  ic_meta :: object_meta
  ic_cluster_name :: string
  ic_pool_ref :: pool_ref
  ic_address_ref :: string

record cluster =
  cl_meta :: object_meta
  cl_paused :: "bool option"

definition ipam_group :: string where
  "ipam_group = ''ipam.cluster.x-k8s.io''"

subsection \<open>Address pools\<close>

record InClusterIPPoolSpec =
  Addresses :: "string list"
  spec_Prefix :: int
  Gateway :: string
  AllocateReservedIPAddresses :: bool
  ExcludedAddresses :: "string list"
  AddressReuseGracePeriodSeconds :: "int option"

record InClusterIPPoolStatusIPAddresses =
  Total :: int
  Free :: int
  Used :: int
  OutOfRange :: int

record InClusterIPPool =
  ip_gvk :: gvk
  ip_meta :: object_meta
  ip_spec :: InClusterIPPoolSpec
  ip_status :: "InClusterIPPoolStatusIPAddresses option"

record GlobalInClusterIPPool =
  gip_gvk :: gvk
  gip_meta :: object_meta
  gip_spec :: InClusterIPPoolSpec
  gip_status :: "InClusterIPPoolStatusIPAddresses option"

text \<open>The interface \<open>GenericInClusterPool\<close> with its two implementations.\<close>

datatype generic_pool = NsPool InClusterIPPool | GlobalPool GlobalInClusterIPPool

primrec PoolSpec :: "generic_pool \<Rightarrow> InClusterIPPoolSpec" where
  "PoolSpec (NsPool p) = ip_spec p"
| "PoolSpec (GlobalPool p) = gip_spec p"

primrec PoolStatus :: "generic_pool \<Rightarrow> InClusterIPPoolStatusIPAddresses option" where
  "PoolStatus (NsPool p) = ip_status p"
| "PoolStatus (GlobalPool p) = gip_status p"

primrec pool_meta :: "generic_pool \<Rightarrow> object_meta" where
  "pool_meta (NsPool p) = ip_meta p"
| "pool_meta (GlobalPool p) = gip_meta p"

primrec pool_gvk :: "generic_pool \<Rightarrow> gvk" where
  "pool_gvk (NsPool p) = ip_gvk p"
| "pool_gvk (GlobalPool p) = gip_gvk p"

primrec set_pool_meta :: "(object_meta \<Rightarrow> object_meta) \<Rightarrow> generic_pool \<Rightarrow> generic_pool" where
  "set_pool_meta f (NsPool p) = NsPool (p\<lparr>ip_meta := f (ip_meta p)\<rparr>)"
| "set_pool_meta f (GlobalPool p) = GlobalPool (p\<lparr>gip_meta := f (gip_meta p)\<rparr>)"

primrec set_pool_status ::
  "InClusterIPPoolStatusIPAddresses \<Rightarrow> generic_pool \<Rightarrow> generic_pool" where
  "set_pool_status s (NsPool p) = NsPool (p\<lparr>ip_status := Some s\<rparr>)"
| "set_pool_status s (GlobalPool p) = GlobalPool (p\<lparr>gip_status := Some s\<rparr>)"

lemma pool_updates [simp]:
  "PoolSpec (set_pool_meta f p) = PoolSpec p"
  "PoolStatus (set_pool_meta f p) = PoolStatus p"
  "pool_meta (set_pool_meta f p) = f (pool_meta p)"
  "pool_gvk (set_pool_meta f p) = pool_gvk p"
  "PoolSpec (set_pool_status s p) = PoolSpec p"
  "PoolStatus (set_pool_status s p) = Some s"
  "pool_meta (set_pool_status s p) = pool_meta p"
  "pool_gvk (set_pool_status s p) = pool_gvk p"
  by (cases p; simp)+

subsection \<open>Prefix pools\<close>

record InClusterPrefixPoolSpec =
  Prefixes :: "string list"
  AllocationPrefixLength :: int
  pp_Gateway :: string
  ExcludedPrefixes :: "string list"

record InClusterPrefixPoolStatusAddresses =
  pp_Total :: int
  pp_Free :: int
  pp_Used :: int
  pp_OutOfRange :: int

record InClusterPrefixPool =
  pp_gvk :: gvk
  pp_meta :: object_meta
  pp_spec :: InClusterPrefixPoolSpec
  pp_status :: "InClusterPrefixPoolStatusAddresses option"

record GlobalInClusterPrefixPool =
  gpp_gvk :: gvk
  gpp_meta :: object_meta
  gpp_spec :: InClusterPrefixPoolSpec
  gpp_status :: "InClusterPrefixPoolStatusAddresses option"

datatype generic_prefix_pool =
    NsPrefixPool InClusterPrefixPool
  | GlobalPrefixPool GlobalInClusterPrefixPool

primrec PrefixPoolSpec :: "generic_prefix_pool \<Rightarrow> InClusterPrefixPoolSpec" where
  "PrefixPoolSpec (NsPrefixPool p) = pp_spec p"
| "PrefixPoolSpec (GlobalPrefixPool p) = gpp_spec p"

primrec PrefixPoolStatus :: "generic_prefix_pool \<Rightarrow> InClusterPrefixPoolStatusAddresses option" where
  "PrefixPoolStatus (NsPrefixPool p) = pp_status p"
| "PrefixPoolStatus (GlobalPrefixPool p) = gpp_status p"

primrec prefix_pool_meta :: "generic_prefix_pool \<Rightarrow> object_meta" where
  "prefix_pool_meta (NsPrefixPool p) = pp_meta p"
| "prefix_pool_meta (GlobalPrefixPool p) = gpp_meta p"

primrec prefix_pool_gvk :: "generic_prefix_pool \<Rightarrow> gvk" where
  "prefix_pool_gvk (NsPrefixPool p) = pp_gvk p"
| "prefix_pool_gvk (GlobalPrefixPool p) = gpp_gvk p"

primrec set_prefix_pool_meta ::
  "(object_meta \<Rightarrow> object_meta) \<Rightarrow> generic_prefix_pool \<Rightarrow> generic_prefix_pool" where
  "set_prefix_pool_meta f (NsPrefixPool p) = NsPrefixPool (p\<lparr>pp_meta := f (pp_meta p)\<rparr>)"
| "set_prefix_pool_meta f (GlobalPrefixPool p) = GlobalPrefixPool (p\<lparr>gpp_meta := f (gpp_meta p)\<rparr>)"

primrec set_prefix_pool_spec ::
  "(InClusterPrefixPoolSpec \<Rightarrow> InClusterPrefixPoolSpec) \<Rightarrow> generic_prefix_pool \<Rightarrow> generic_prefix_pool" where
  "set_prefix_pool_spec f (NsPrefixPool p) = NsPrefixPool (p\<lparr>pp_spec := f (pp_spec p)\<rparr>)"
| "set_prefix_pool_spec f (GlobalPrefixPool p) = GlobalPrefixPool (p\<lparr>gpp_spec := f (gpp_spec p)\<rparr>)"

primrec set_prefix_pool_status ::
  "InClusterPrefixPoolStatusAddresses \<Rightarrow> generic_prefix_pool \<Rightarrow> generic_prefix_pool" where
  "set_prefix_pool_status s (NsPrefixPool p) = NsPrefixPool (p\<lparr>pp_status := Some s\<rparr>)"
| "set_prefix_pool_status s (GlobalPrefixPool p) = GlobalPrefixPool (p\<lparr>gpp_status := Some s\<rparr>)"

lemma prefix_pool_updates [simp]:
  "PrefixPoolSpec (set_prefix_pool_meta f p) = PrefixPoolSpec p"
  "PrefixPoolStatus (set_prefix_pool_meta f p) = PrefixPoolStatus p"
  "prefix_pool_meta (set_prefix_pool_meta f p) = f (prefix_pool_meta p)"
  "prefix_pool_gvk (set_prefix_pool_meta f p) = prefix_pool_gvk p"
  "PrefixPoolSpec (set_prefix_pool_status s p) = PrefixPoolSpec p"
  "PrefixPoolSpec (set_prefix_pool_spec g p) = g (PrefixPoolSpec p)"
  "PrefixPoolStatus (set_prefix_pool_status s p) = Some s"
  "prefix_pool_meta (set_prefix_pool_status s p) = prefix_pool_meta p"
  "prefix_pool_gvk (set_prefix_pool_status s p) = prefix_pool_gvk p"
  by (cases p; simp)+

end
