(* ===== verification/PoolUtil.thy ===== *)
theory PoolUtil
  imports RefIPSet ApiTypes
begin

text \<open>
  \<open>internal/poolutil/pool.go\<close>: address sets from their text, the set a pool spec stands
  for, the search for the next free address, and the count of a set. \<open>nx\<close> is the netipx
  interface. The lemmas are proved in \<open>netipx_laws\<close>; the properties restate them for any
  interface that satisfies it.
\<close>

subsection \<open>Text to sets\<close>

definition AddressToIPSet :: "('b, 's) netipx \<Rightarrow> string \<Rightarrow> error + 's" where
  "AddressToIPSet nx addressStr =
     (if CHR ''-'' \<in> set addressStr then
        (case nx_parse_range nx addressStr of
           Inl e \<Rightarrow> Inl e
         | Inr addrRange \<Rightarrow> nx_ipset nx (nx_add_range nx addrRange (nx_new nx)))
      else if CHR ''/'' \<in> set addressStr then
        (case ParsePrefix addressStr of
           Inl e \<Rightarrow> Inl e
         | Inr p \<Rightarrow> nx_ipset nx (nx_add_prefix nx p (nx_new nx)))
      else
        (case ParseAddr addressStr of
           Inl e \<Rightarrow> Inl e
         | Inr a \<Rightarrow> nx_ipset nx (nx_add nx a (nx_new nx))))"

fun add_addresses :: "('b, 's) netipx \<Rightarrow> string list \<Rightarrow> 'b \<Rightarrow> error + 'b" where
  "add_addresses nx [] builder = Inr builder"
| "add_addresses nx (addressStr # rest) builder =
     (case AddressToIPSet nx addressStr of
        Inl e \<Rightarrow> Inl e
      | Inr ipSet \<Rightarrow> add_addresses nx rest (nx_add_set nx ipSet builder))"

definition AddressesToIPSet :: "('b, 's) netipx \<Rightarrow> string list \<Rightarrow> error + 's" where
  "AddressesToIPSet nx addresses =
     (case add_addresses nx addresses (nx_new nx) of
        Inl e \<Rightarrow> Inl e
      | Inr builder \<Rightarrow> nx_ipset nx builder)"

definition AddressStrParses :: "('b, 's) netipx \<Rightarrow> string \<Rightarrow> bool" where
  "AddressStrParses nx addressStr =
     (case AddressToIPSet nx addressStr of Inl e \<Rightarrow> False | Inr s \<Rightarrow> True)"

subsection \<open>The set of a pool spec\<close>

definition PoolSpecToIPSet :: "('b, 's) netipx \<Rightarrow> InClusterIPPoolSpec \<Rightarrow> 's outcome" where
  "PoolSpecToIPSet nx poolSpec =
     outcome_bind (from_sum (AddressesToIPSet nx (Addresses poolSpec))) (\<lambda>addressesIPSet.
     let builder = nx_add_set nx addressesIPSet (nx_new nx) in
     outcome_bind
       (if length (ExcludedAddresses poolSpec) > 0 then
          outcome_bind (from_sum (AddressesToIPSet nx (ExcludedAddresses poolSpec)))
            (\<lambda>excludedAddressesIPSet. Ok (nx_remove_set nx excludedAddressesIPSet builder))
        else Ok builder) (\<lambda>builder.
     outcome_bind
       (if \<not> AllocateReservedIPAddresses poolSpec then
          (case nx_ranges nx addressesIPSet of
             [] \<Rightarrow> Panic ''index out of range''
           | r # _ \<Rightarrow>
               let subnet = PrefixFrom (rng_from r) (spec_Prefix poolSpec);
                   subnetRange = nx_range_of_prefix nx subnet;
                   builder = nx_remove nx (rng_from subnetRange) builder
               in Ok (if Is4 (pfx_addr subnet)
                      then nx_remove nx (rng_to subnetRange) builder else builder))
        else Ok builder) (\<lambda>builder.
     outcome_bind
       (if Gateway poolSpec \<noteq> [] then
          outcome_bind (from_sum (ParseAddr (Gateway poolSpec)))
            (\<lambda>gateway. Ok (nx_remove nx gateway builder))
        else Ok builder) (\<lambda>builder.
     from_sum (nx_ipset nx builder)))))"

subsection \<open>The next free address\<close>

text \<open>
  The inner loop over a range: \<open>None\<close> if it does not end, \<open>Some None\<close> if it leaves the
  range, \<open>Some (Some ip)\<close> if it returns \<open>ip\<close>.
\<close>

partial_function (option) find_free_in_range ::
  "(addr \<Rightarrow> bool) \<Rightarrow> addr \<Rightarrow> addr \<Rightarrow> addr option option" where
  [code]: "find_free_in_range used ip lst =
     (if \<not> used ip then Some (Some ip)
      else if ip = lst then Some None
      else find_free_in_range used (Next ip) lst)"

fun find_free_in_ranges :: "(addr \<Rightarrow> bool) \<Rightarrow> iprange list \<Rightarrow> addr option option" where
  "find_free_in_ranges used [] = Some None"
| "find_free_in_ranges used (r # rs) =
     (case find_free_in_range used (rng_from r) (rng_to r) of
        None \<Rightarrow> None
      | Some (Some ip) \<Rightarrow> Some (Some ip)
      | Some None \<Rightarrow> find_free_in_ranges used rs)"

definition FindFreeAddress :: "('b, 's) netipx \<Rightarrow> 's \<Rightarrow> 's \<Rightarrow> (error + addr) option" where
  "FindFreeAddress nx poolIPSet inUseIPSet =
     map_option
       (\<lambda>r. case r of
          Some ip \<Rightarrow> Inr ip
        | None \<Rightarrow> Inl (ErrorString ''no address available''))
       (find_free_in_ranges (nx_contains nx inUseIPSet) (nx_ranges nx poolIPSet))"

subsection \<open>Counting\<close>

definition IPSetCount :: "('b, 's) netipx \<Rightarrow> 's option \<Rightarrow> int" where
  "IPSetCount nx ipSet =
     (case ipSet of
        None \<Rightarrow> 0
      | Some s \<Rightarrow>
          let total = foldl (\<lambda>total r.
                total + (SetBytes (AsSlice (rng_to r)) - SetBytes (AsSlice (rng_from r))) + 1)
                0 (nx_ranges nx s);
              isInt64 = (- (2 ^ 63) \<le> total \<and> total < 2 ^ 63);
              uint64 = total mod 2 ^ 64
          in if isInt64 \<and> uint64 \<le> max_int then go_int uint64 else max_int)"

subsection \<open>Addresses in use\<close>

fun add_parsable :: "('b, 's) netipx \<Rightarrow> ip_address list \<Rightarrow> 'b \<Rightarrow> 'b" where
  "add_parsable nx [] builder = builder"
| "add_parsable nx (address # rest) builder =
     (case ParseAddr (ia_address address) of
        Inl e \<Rightarrow> add_parsable nx rest builder
      | Inr ip \<Rightarrow> add_parsable nx rest (nx_add nx ip builder))"

definition AddressesOutOfRangeIPSet ::
  "('b, 's) netipx \<Rightarrow> ip_address list \<Rightarrow> 's \<Rightarrow> error + 's" where
  "AddressesOutOfRangeIPSet nx inUseAddresses poolIPSet =
     nx_ipset nx (nx_remove_set nx poolIPSet (add_parsable nx inUseAddresses (nx_new nx)))"

fun AddressByNamespacedName :: "ip_address list \<Rightarrow> string \<Rightarrow> string \<Rightarrow> ip_address option" where
  "AddressByNamespacedName [] namespace name = None"
| "AddressByNamespacedName (a # rest) namespace name =
     (if om_namespace (ia_meta a) = namespace \<and> om_name (ia_meta a) = name then Some a
      else AddressByNamespacedName rest namespace name)"

subsection \<open>What the texts mean\<close>

text \<open>
  The addresses an entry of a pool stands for, and the union of a list of entries; \<open>None\<close>
  if an entry does not parse.
\<close>

definition entry_set :: "string \<Rightarrow> addr set option" where
  "entry_set s =
     (if CHR ''-'' \<in> set s then map_option rng_set (parse_range_spec s)
      else if CHR ''/'' \<in> set s then
        (case ParsePrefix s of Inl e \<Rightarrow> None | Inr p \<Rightarrow> Some (pfx_set p))
      else (case ParseAddr s of Inl e \<Rightarrow> None | Inr a \<Rightarrow> Some {WithZone a []}))"

definition entries_set :: "string list \<Rightarrow> addr set option" where
  "entries_set ss =
     (if list_all (\<lambda>s. entry_set s \<noteq> None) ss then Some (\<Union>s \<in> set ss. the (entry_set s)) else None)"

lemma entries_set_Nil [simp]: "entries_set [] = Some {}"
  by (simp add: entries_set_def)

lemma parse_range_spec_valid: "parse_range_spec s = Some r \<Longrightarrow> rng_valid r"
  by (auto simp: parse_range_spec_def Let_def split: if_splits sum.splits)

lemma rng_set_nonempty:
  assumes "rng_valid r"
  shows "rng_from r \<in> rng_set r"
  using assms by (auto simp: rng_valid_def rng_set_def addr_interval_def)

lemma valid_pfx_set_nonempty:
  assumes "Prefix_IsValid p" "pfx_wf p"
  shows "pfx_set p \<noteq> {}"
proof -
  obtain f k b where "Masked p = nprefix f k b" "k < 2 ^ b" "b \<le> famlen f"
    using assms by (rule Masked_valid_cases)
  then have "pfx_set (Masked p) \<noteq> {}"
    using nblock_nonempty by (auto simp: pfx_set_nblock)
  then show ?thesis using assms by (simp add: pfx_set_Masked)
qed

lemma entry_set_nonempty: "entry_set s = Some A \<Longrightarrow> A \<noteq> {}"
  by (auto simp: entry_set_def dest: parse_range_spec_valid rng_set_nonempty ParsePrefix_valid
        split: if_splits sum.splits)
     (use ParsePrefix_valid valid_pfx_set_nonempty in blast)

lemma entries_set_empty_iff: "entries_set ss = Some {} \<longleftrightarrow> ss = []"
proof
  assume A: "entries_set ss = Some {}"
  show "ss = []"
  proof (cases ss)
    case (Cons s rest)
    with A obtain B where "entry_set s = Some B" "B = {}"
      by (auto simp: entries_set_def split: if_splits)
    then show ?thesis using entry_set_nonempty by blast
  qed simp
qed simp

context netipx_laws
begin

lemma AddressToIPSet_cases:
  obtains (ok) t A where "AddressToIPSet nx s = Inr t" "entry_set s = Some A" "ips nx t = A"
    | (error) e where "AddressToIPSet nx s = Inl e" "entry_set s = None"
proof (cases "CHR ''-'' \<in> set s")
  case True
  show ?thesis
  proof (cases "parse_range_spec s")
    case None
    then obtain e where "nx_parse_range nx s = Inl e" using parse_range_error by blast
    with True None show ?thesis by (intro error) (auto simp: AddressToIPSet_def entry_set_def)
  next
    case (Some r)
    then have r: "nx_parse_range nx s = Inr r" "rng_valid r"
      by (simp_all add: parse_range_ok parse_range_spec_valid)
    show ?thesis
      by (rule ipset_cases [of "nx_add_range nx r (nx_new nx)"])
         (use True Some r builder_laws in \<open>auto intro!: ok simp: AddressToIPSet_def entry_set_def\<close>)
  qed
next
  case no_hyphen: False
  show ?thesis
  proof (cases "CHR ''/'' \<in> set s")
    case True
    show ?thesis
    proof (cases "ParsePrefix s")
      case (Inl e)
      with True no_hyphen show ?thesis
        by (intro error) (auto simp: AddressToIPSet_def entry_set_def)
    next
      case (Inr p)
      note valid = ParsePrefix_valid [OF Inr]
      show ?thesis
        by (rule ipset_cases [of "nx_add_prefix nx p (nx_new nx)"])
           (use True no_hyphen Inr valid builder_laws in
             \<open>auto intro!: ok simp: AddressToIPSet_def entry_set_def\<close>)
    qed
  next
    case False
    show ?thesis
    proof (cases "ParseAddr s")
      case (Inl e)
      with False no_hyphen show ?thesis
        by (intro error) (auto simp: AddressToIPSet_def entry_set_def)
    next
      case (Inr a)
      note valid = ParseAddr_valid [OF Inr]
      show ?thesis
        by (rule ipset_cases [of "nx_add nx a (nx_new nx)"])
           (use False no_hyphen Inr valid builder_laws in
             \<open>auto intro!: ok simp: AddressToIPSet_def entry_set_def\<close>)
    qed
  qed
qed

lemma AddressStrParses_iff: "AddressStrParses nx s \<longleftrightarrow> entry_set s \<noteq> None"
  by (rule AddressToIPSet_cases [of s]) (simp_all add: AddressStrParses_def)

lemma add_addresses_cases:
  obtains (ok) b' A where "add_addresses nx ss b = Inr b'" "entries_set ss = Some A"
      "bips b' = bips b \<union> A" "bok b' = bok b"
    | (error) e where "add_addresses nx ss b = Inl e" "entries_set ss = None"
proof (induction ss arbitrary: b thesis)
  case Nil
  show ?case by (rule Nil.prems(1) [of b "{}"]) simp_all
next
  case (Cons s rest)
  show ?case
  proof (cases rule: AddressToIPSet_cases [of s])
    case (ok t A)
    then show ?thesis
    proof (cases rule: Cons.IH [of "nx_add_set nx t b"])
      case (1 b' B)
      with ok show ?thesis
        by (intro Cons.prems(1) [of b' "A \<union> B"])
           (auto simp: add_set_laws entries_set_def split: if_splits)
    next
      case (2 e)
      with ok show ?thesis
        by (intro Cons.prems(2) [of e]) (auto simp: entries_set_def split: if_splits)
    qed
  next
    case (error e)
    then show ?thesis by (intro Cons.prems(2) [of e]) (auto simp: entries_set_def)
  qed
qed

lemma AddressesToIPSet_cases:
  obtains (ok) t A where "AddressesToIPSet nx ss = Inr t" "entries_set ss = Some A" "ips nx t = A"
    | (error) e where "AddressesToIPSet nx ss = Inl e" "entries_set ss = None"
proof (cases rule: add_addresses_cases [of ss "nx_new nx"])
  case (ok b' A)
  show ?thesis
    by (rule ipset_cases [of b'])
       (use ok new_laws in \<open>auto intro!: that(1) simp: AddressesToIPSet_def\<close>)
next
  case (error e)
  then show ?thesis by (intro that(2) [of e]) (auto simp: AddressesToIPSet_def)
qed

end

subsection \<open>Ranges and sets\<close>

lemma valid_range_ends:
  assumes "rng_valid r"
  shows "finite (rng_set r)" "Min (rng_set r) = rng_from r" "Max (rng_set r) = rng_to r"
proof -
  obtain f a b where r: "r = nrange f a b" "a \<le> b" "b < 2 ^ famlen f"
    using assms by (rule valid_range_cases)
  then show fin: "finite (rng_set r)" by (simp add: rng_set_nrange)
  show "Min (rng_set r) = rng_from r"
    by (rule Min_eqI [OF fin]) (use r in \<open>auto simp: rng_set_nrange\<close>)
  show "Max (rng_set r) = rng_to r"
    by (rule Max_eqI [OF fin]) (use r in \<open>auto simp: rng_set_nrange\<close>)
qed

context netipx_laws
begin

lemma finite_ips: "finite (ips nx s)"
  unfolding ranges_cover by (simp add: ranges_valid valid_range_ends)

lemma ranges_Nil_iff: "nx_ranges nx s = [] \<longleftrightarrow> ips nx s = {}"
  unfolding ranges_cover
  using ranges_valid [of _ s] rng_set_nonempty by (cases "nx_ranges nx s") force+

lemma first_range_Min:
  assumes "nx_ranges nx s = r # rs"
  shows "rng_from r = Min (ips nx s)" "ips nx s \<noteq> {}" "zoneless (rng_from r)"
proof -
  have r: "rng_valid r" using ranges_valid [of r s] assms by simp
  show "zoneless (rng_from r)" using r by (simp add: rng_valid_def)
  have "rng_from r \<in> ips nx s"
    using rng_set_nonempty [OF r] assms by (auto simp: ranges_cover)
  then show "ips nx s \<noteq> {}" by blast
  moreover have "rng_from r \<le> x" if "x \<in> ips nx s" for x
  proof -
    from that obtain q where q: "q \<in> set (nx_ranges nx s)" "x \<in> rng_set q"
      unfolding ranges_cover by blast
    show ?thesis
    proof (cases "q = r")
      case True
      with q show ?thesis by (simp add: rng_set_def addr_interval_def)
    next
      case False
      then have "rng_to r < rng_from q" using ranges_sorted [of s] assms q by auto
      moreover have "rng_from r \<le> rng_to r" using r by (simp add: rng_valid_def)
      moreover have "rng_from q \<le> x" using q by (simp add: rng_set_def addr_interval_def)
      ultimately show ?thesis by (meson less_imp_le order_trans)
    qed
  qed
  ultimately show "rng_from r = Min (ips nx s)"
    using \<open>rng_from r \<in> ips nx s\<close> finite_ips by (intro Min_eqI [symmetric]) auto
qed

end

subsection \<open>The addresses of a pool\<close>

text \<open>
  What a pool spec promises to hand out: its addresses, less the excluded ones, less the
  reserved ones of its subnet (the first address, and for IPv4 the last), less the gateway.
\<close>

definition spec_subnet :: "InClusterIPPoolSpec \<Rightarrow> netprefix" where
  "spec_subnet spec =
     PrefixFrom (Min (the (entries_set (Addresses spec)))) (spec_Prefix spec)"

definition reserved_addrs :: "InClusterIPPoolSpec \<Rightarrow> addr set" where
  "reserved_addrs spec =
     (if AllocateReservedIPAddresses spec then {}
      else let net = pfx_set (spec_subnet spec)
           in insert (Min net) (if Is4 (pfx_addr (spec_subnet spec)) then {Max net} else {}))"

definition gateway_addrs :: "InClusterIPPoolSpec \<Rightarrow> addr set" where
  "gateway_addrs spec =
     (case ParseAddr (Gateway spec) of Inl e \<Rightarrow> {} | Inr a \<Rightarrow> {WithZone a []})"

definition pool_addrs :: "InClusterIPPoolSpec \<Rightarrow> addr set" where
  "pool_addrs spec =
     the (entries_set (Addresses spec)) - the (entries_set (ExcludedAddresses spec))
       - reserved_addrs spec - gateway_addrs spec"

definition spec_parses :: "InClusterIPPoolSpec \<Rightarrow> bool" where
  "spec_parses spec \<longleftrightarrow>
     entries_set (Addresses spec) \<noteq> None \<and> entries_set (ExcludedAddresses spec) \<noteq> None
     \<and> (AllocateReservedIPAddresses spec
        \<or> Addresses spec \<noteq> [] \<and> Prefix_IsValid (spec_subnet spec))
     \<and> (Gateway spec = [] \<or> (\<exists>a. ParseAddr (Gateway spec) = Inr a))"

lemma ParseAddr_Nil [simp]: "ParseAddr [] = Inl (ParseAddrError [])"
  by (simp add: ParseAddr_def)

context netipx_laws
begin

lemma excluded_step:
  fixes spec :: InClusterIPPoolSpec
  assumes "AddressesToIPSet nx (Addresses spec) = Inr t"
  obtains (ok) b E where
      "(if length (ExcludedAddresses spec) > 0 then
          outcome_bind (from_sum (AddressesToIPSet nx (ExcludedAddresses spec)))
            (\<lambda>x. Ok (nx_remove_set nx x (nx_add_set nx t (nx_new nx))))
        else Ok (nx_add_set nx t (nx_new nx))) = Ok b"
      "entries_set (ExcludedAddresses spec) = Some E" "bips b = ips nx t - E" "bok b"
    | (error) e where
      "(if length (ExcludedAddresses spec) > 0 then
          outcome_bind (from_sum (AddressesToIPSet nx (ExcludedAddresses spec)))
            (\<lambda>x. Ok (nx_remove_set nx x (nx_add_set nx t (nx_new nx))))
        else Ok (nx_add_set nx t (nx_new nx))) = Err e"
      "entries_set (ExcludedAddresses spec) = None"
proof (cases "ExcludedAddresses spec = []")
  case True
  then show ?thesis by (intro ok [of "nx_add_set nx t (nx_new nx)" "{}"]) (simp_all add: builder_laws)
next
  case False
  show ?thesis
  proof (cases rule: AddressesToIPSet_cases [of "ExcludedAddresses spec"])
    case (ok u E)
    with False show ?thesis by (intro that(1) [of "nx_remove_set nx u (nx_add_set nx t (nx_new nx))" E]) (simp_all add: builder_laws)
  next
    case (error e)
    with False show ?thesis by (intro that(2) [of e]) simp_all
  qed
qed

lemma reserved_step:
  fixes b :: 'b
  assumes "\<not> AllocateReservedIPAddresses spec" "nx_ranges nx t = r # rs"
    "entries_set (Addresses spec) = Some (ips nx t)"
  defines "net \<equiv> nx_range_of_prefix nx (PrefixFrom (rng_from r) (spec_Prefix spec))"
  defines "b' \<equiv> (if Is4 (pfx_addr (PrefixFrom (rng_from r) (spec_Prefix spec)))
                  then nx_remove nx (rng_to net) (nx_remove nx (rng_from net) b)
                  else nx_remove nx (rng_from net) b)"
  shows "bok b' \<longleftrightarrow> bok b \<and> Prefix_IsValid (spec_subnet spec)"
    and "bok b' \<Longrightarrow> bips b' = bips b - reserved_addrs spec"
proof -
  have subnet: "PrefixFrom (rng_from r) (spec_Prefix spec) = spec_subnet spec"
    using first_range_Min [OF assms(2)] assms(3) by (simp add: spec_subnet_def)
  have "(bok b' \<longleftrightarrow> bok b \<and> Prefix_IsValid (spec_subnet spec))
      \<and> (bok b' \<longrightarrow> bips b' = bips b - reserved_addrs spec)"
  proof (cases "Prefix_IsValid (spec_subnet spec)")
    case True
    have wf: "pfx_wf (spec_subnet spec)" by (simp add: spec_subnet_def)
    note law = range_of_prefix [OF wf True]
    then have ends: "rng_from net = Min (pfx_set (spec_subnet spec))"
      "rng_to net = Max (pfx_set (spec_subnet spec))"
      using valid_range_ends [of net] by (simp_all add: net_def subnet)
    have "zoneless (rng_from net)" "zoneless (rng_to net)"
      using law by (simp_all add: net_def subnet rng_valid_def)
    then have z: "IsValid (rng_from net)" "WithZone (rng_from net) [] = rng_from net"
      "IsValid (rng_to net)" "WithZone (rng_to net) [] = rng_to net"
      by (auto simp: zoneless_def)
    show ?thesis using True z assms(1)
      by (auto simp: b'_def subnet builder_laws reserved_addrs_def Let_def ends)
  next
    case False
    then show ?thesis
      by (simp add: b'_def net_def subnet range_of_prefix_invalid builder_laws)
  qed
  then show "bok b' \<longleftrightarrow> bok b \<and> Prefix_IsValid (spec_subnet spec)"
    "bok b' \<Longrightarrow> bips b' = bips b - reserved_addrs spec" by auto
qed

lemma gateway_step:
  fixes b :: 'b and spec :: InClusterIPPoolSpec
  obtains (ok) b' where
      "(if Gateway spec \<noteq> [] then
          outcome_bind (from_sum (ParseAddr (Gateway spec))) (\<lambda>g. Ok (nx_remove nx g b))
        else Ok b) = Ok b'"
      "Gateway spec = [] \<or> (\<exists>a. ParseAddr (Gateway spec) = Inr a)"
      "bok b' = bok b" "bips b' = bips b - gateway_addrs spec"
    | (error) e where
      "(if Gateway spec \<noteq> [] then
          outcome_bind (from_sum (ParseAddr (Gateway spec))) (\<lambda>g. Ok (nx_remove nx g b))
        else Ok b) = Err e"
      "\<not> (Gateway spec = [] \<or> (\<exists>a. ParseAddr (Gateway spec) = Inr a))"
proof (cases "Gateway spec = []")
  case True
  then show ?thesis by (intro ok [of b]) (simp_all add: gateway_addrs_def)
next
  case False
  show ?thesis
  proof (cases "ParseAddr (Gateway spec)")
    case (Inl e)
    with False show ?thesis by (intro error [of e]) simp_all
  next
    case (Inr a)
    then have "IsValid a" by (rule ParseAddr_valid)
    with False Inr show ?thesis
      by (intro ok [of "nx_remove nx a b"]) (simp_all add: gateway_addrs_def builder_laws)
  qed
qed

lemma spec_tail:
  fixes b :: 'b and spec :: InClusterIPPoolSpec
  assumes "bok b \<longleftrightarrow> P" "bok b \<Longrightarrow> bips b = S"
    and r: "r = outcome_bind
        (if Gateway spec \<noteq> [] then
          outcome_bind (from_sum (ParseAddr (Gateway spec))) (\<lambda>g. Ok (nx_remove nx g b))
        else Ok b) (\<lambda>b. from_sum (nx_ipset nx b))"
  obtains (ok) s where "r = Ok s" "P" "ips nx s = S - gateway_addrs spec"
      "Gateway spec = [] \<or> (\<exists>a. ParseAddr (Gateway spec) = Inr a)"
    | (error) e where "r = Err e"
      "\<not> (P \<and> (Gateway spec = [] \<or> (\<exists>a. ParseAddr (Gateway spec) = Inr a)))"
proof (cases rule: gateway_step [of spec b])
  case (ok b')
  have r': "r = from_sum (nx_ipset nx b')" unfolding r ok(1) by simp
  show ?thesis
  proof (cases rule: ipset_cases [of b'])
    case set: (ok s)
    show ?thesis by (rule that(1) [of s]) (use ok assms(1,2) set r' in auto)
  next
    case failed: (error e)
    show ?thesis by (rule that(2) [of e]) (use ok assms(1,2) failed r' in auto)
  qed
next
  case (error e)
  have "r = Err e" unfolding r error(1) by simp
  then show ?thesis using error by (intro that(2) [of e]) auto
qed

lemma PoolSpecToIPSet_cases:
  obtains (ok) s where "PoolSpecToIPSet nx spec = Ok s" "spec_parses spec"
      "ips nx s = pool_addrs spec"
    | (error) e where "PoolSpecToIPSet nx spec = Err e" "\<not> spec_parses spec"
      "Addresses spec \<noteq> [] \<or> AllocateReservedIPAddresses spec
        \<or> entries_set (ExcludedAddresses spec) = None"
    | (panic) m where "PoolSpecToIPSet nx spec = Panic m" "\<not> spec_parses spec"
      "Addresses spec = []" "\<not> AllocateReservedIPAddresses spec"
      "entries_set (ExcludedAddresses spec) \<noteq> None"
proof (cases rule: AddressesToIPSet_cases [of "Addresses spec"])
  case (error e)
  then have "Addresses spec \<noteq> []" by auto
  with error show ?thesis
    by (intro that(2) [of e]) (simp_all add: PoolSpecToIPSet_def spec_parses_def)
next
  case (ok t A)
  note addresses = ok
  show ?thesis
  proof (cases rule: excluded_step [OF addresses(1), case_names ok error])
    case (error e)
    with addresses show ?thesis
      by (intro that(2) [of e]) (simp_all add: PoolSpecToIPSet_def spec_parses_def)
  next
    case (ok b E)
    note excluded = ok
    show ?thesis
    proof (cases "AllocateReservedIPAddresses spec")
      case True
      then have none: "reserved_addrs spec = {}" by (simp add: reserved_addrs_def)
      have b: "bok b \<longleftrightarrow> True" "bips b = A - E" using addresses excluded by simp_all
      have unfold: "PoolSpecToIPSet nx spec = outcome_bind
          (if Gateway spec \<noteq> [] then
            outcome_bind (from_sum (ParseAddr (Gateway spec))) (\<lambda>g. Ok (nx_remove nx g b))
           else Ok b) (\<lambda>b. from_sum (nx_ipset nx b))"
        unfolding PoolSpecToIPSet_def Let_def using addresses excluded True by simp
      show ?thesis
        by (rule spec_tail [OF b unfold])
           (use addresses excluded True none in
            \<open>auto intro: that(1,2) simp: spec_parses_def pool_addrs_def\<close>)
    next
      case False
      show ?thesis
      proof (cases "nx_ranges nx t")
        case Nil
        then have "A = {}" using addresses ranges_Nil_iff by blast
        with addresses have empty: "Addresses spec = []" by (simp add: entries_set_empty_iff)
        have "PoolSpecToIPSet nx spec = Panic ''index out of range''"
          unfolding PoolSpecToIPSet_def Let_def
          using addresses excluded False Nil by simp
        then show ?thesis
          by (rule that(3)) (use empty excluded False in \<open>auto simp: spec_parses_def\<close>)
      next
        case (Cons r rs)
        then have "A \<noteq> {}" using addresses ranges_Nil_iff by force
        with addresses have nonempty: "Addresses spec \<noteq> []" by auto
        define net b' where "net = nx_range_of_prefix nx (PrefixFrom (rng_from r) (spec_Prefix spec))"
          and "b' = (if Is4 (pfx_addr (PrefixFrom (rng_from r) (spec_Prefix spec)))
                  then nx_remove nx (rng_to net) (nx_remove nx (rng_from net) b)
                  else nx_remove nx (rng_from net) b)"
        have res: "bok b' \<longleftrightarrow> Prefix_IsValid (spec_subnet spec)"
          "bok b' \<Longrightarrow> bips b' = A - E - reserved_addrs spec"
          using reserved_step [of spec t r rs b] False Cons addresses excluded
          unfolding b'_def net_def by auto
        have unfold: "PoolSpecToIPSet nx spec = outcome_bind
            (if Gateway spec \<noteq> [] then
              outcome_bind (from_sum (ParseAddr (Gateway spec))) (\<lambda>g. Ok (nx_remove nx g b'))
             else Ok b') (\<lambda>b. from_sum (nx_ipset nx b))"
          unfolding PoolSpecToIPSet_def Let_def b'_def net_def
          using addresses excluded False Cons by simp
        show ?thesis
          by (rule spec_tail [OF res unfold])
             (use addresses excluded False nonempty in
               \<open>auto intro: that(1,2) simp: spec_parses_def pool_addrs_def\<close>)
      qed
    qed
  qed
qed

end

subsection \<open>The search finds the least free address\<close>

lemma find_free_in_range_zaddr:
  assumes "a \<le> b" "b < 2 ^ famlen f"
  shows "find_free_in_range used (zaddr f a) (zaddr f b) =
    Some (if \<forall>n\<in>{a..b}. used (zaddr f n) then None
          else Some (zaddr f (LEAST n. a \<le> n \<and> \<not> used (zaddr f n))))"
  using assms
proof (induction "b - a" arbitrary: a)
  case 0
  then have "a = b" by simp
  then show ?case
    by (subst find_free_in_range.simps) (auto intro: arg_cong [of _ _ "zaddr f"] Least_equality [symmetric])
next
  case (Suc d)
  show ?case
  proof (cases "used (zaddr f a)")
    case True
    have ab: "a < b" using Suc.hyps by simp
    have split: "{a..b} = insert a {Suc a..b}" using ab by auto
    have least: "(LEAST n. a \<le> n \<and> \<not> used (zaddr f n))
        = (LEAST n. Suc a \<le> n \<and> \<not> used (zaddr f n))"
      using True by (metis Suc_leD Suc_leI le_neq_implies_less)
    have "find_free_in_range used (zaddr f a) (zaddr f b)
        = find_free_in_range used (zaddr f (Suc a)) (zaddr f b)"
      using True ab Suc.prems by (subst find_free_in_range.simps) (simp add: Next_zaddr)
    then show ?thesis
      using Suc.hyps Suc.prems ab True by (simp add: split least)
  next
    case False
    then have "(LEAST n. a \<le> n \<and> \<not> used (zaddr f n)) = a"
      by (intro Least_equality) auto
    then show ?thesis using False Suc.prems by (subst find_free_in_range.simps) auto
  qed
qed

lemma find_free_in_valid_range:
  assumes "rng_valid r"
  shows "find_free_in_range used (rng_from r) (rng_to r) =
    Some (if \<forall>a \<in> rng_set r. used a then None else Some (Min {a \<in> rng_set r. \<not> used a}))"
proof -
  obtain f a b where r: "r = nrange f a b" "a \<le> b" "b < 2 ^ famlen f"
    using assms by (rule valid_range_cases)
  define free where "free = {x \<in> rng_set r. \<not> used x}"
  have "Min free = zaddr f (LEAST n. a \<le> n \<and> \<not> used (zaddr f n))"
    if "\<exists>n\<in>{a..b}. \<not> used (zaddr f n)"
  proof -
    define m where "m = (LEAST n. a \<le> n \<and> \<not> used (zaddr f n))"
    from that obtain n where n: "n \<in> {a..b}" "\<not> used (zaddr f n)" by blast
    then have m: "a \<le> m" "\<not> used (zaddr f m)"
      unfolding m_def by (metis (mono_tags, lifting) LeastI atLeastAtMost_iff)+
    have least: "m \<le> k" if "a \<le> k" "\<not> used (zaddr f k)" for k
      unfolding m_def using that by (intro Least_le) simp
    have "m \<le> b" using least [of n] n by auto
    have "finite free" using r by (simp add: free_def rng_set_nrange)
    then show ?thesis unfolding m_def [symmetric]
      by (rule Min_eqI) (use r m \<open>m \<le> b\<close> least in \<open>auto simp: free_def rng_set_nrange\<close>)
  qed
  then show ?thesis
    using r by (auto simp: find_free_in_range_zaddr rng_set_nrange free_def)
qed

text \<open>Ranges that are valid and sorted, as \<open>Ranges()\<close> returns them.\<close>

definition sorted_ranges :: "iprange list \<Rightarrow> bool" where
  "sorted_ranges rs \<longleftrightarrow> (\<forall>r \<in> set rs. rng_valid r) \<and> sorted_wrt (\<lambda>r r'. rng_to r < rng_from r') rs"

lemma sorted_ranges_Cons:
  "sorted_ranges (r # rs) \<longleftrightarrow>
     rng_valid r \<and> sorted_ranges rs \<and> (\<forall>r' \<in> set rs. rng_to r < rng_from r')"
  by (auto simp: sorted_ranges_def)

lemma sorted_ranges_below:
  assumes "sorted_ranges (r # rs)" "x \<in> rng_set r" "y \<in> (\<Union>r \<in> set rs. rng_set r)"
  shows "x < y"
proof -
  from assms obtain q where "q \<in> set rs" "y \<in> rng_set q" by blast
  with assms have "rng_to r < rng_from q" "x \<le> rng_to r" "rng_from q \<le> y"
    by (auto simp: sorted_ranges_Cons rng_set_def addr_interval_def)
  then show ?thesis by (meson le_less_trans less_le_trans)
qed

lemma find_free_in_ranges_least:
  assumes "sorted_ranges rs"
  shows "find_free_in_ranges used rs =
    (let S = (\<Union>r \<in> set rs. rng_set r) in
     Some (if \<forall>a \<in> S. used a then None else Some (Min {a \<in> S. \<not> used a})))"
  using assms
proof (induction rs)
  case Nil
  then show ?case by simp
next
  case (Cons r rs)
  define A B where "A = rng_set r" and "B = (\<Union>r \<in> set rs. rng_set r)"
  have r: "rng_valid r" "sorted_ranges rs" using Cons.prems by (simp_all add: sorted_ranges_Cons)
  have fin: "finite A" "finite B"
    using r valid_range_ends by (auto simp: A_def B_def sorted_ranges_def)
  have below: "x < y" if "x \<in> A" "y \<in> B" for x y
    using sorted_ranges_below [OF Cons.prems] that by (simp add: A_def B_def)
  have set: "(\<Union>r \<in> set (r # rs). rng_set r) = A \<union> B" by (simp add: A_def B_def)
  note ih = Cons.IH [OF r(2), unfolded Let_def, folded B_def]
  note head = find_free_in_valid_range [OF r(1), of used, folded A_def]
  show ?case
  proof (cases "\<forall>a \<in> A. used a")
    case True
    then have "{a \<in> A \<union> B. \<not> used a} = {a \<in> B. \<not> used a}" by auto
    moreover have "(\<forall>a \<in> A \<union> B. used a) = (\<forall>a \<in> B. used a)" using True by auto
    ultimately show ?thesis unfolding set Let_def using True head ih by simp
  next
    case False
    define m where "m = Min {a \<in> A. \<not> used a}"
    have ne: "finite {a \<in> A. \<not> used a}" "{a \<in> A. \<not> used a} \<noteq> {}" using fin False by auto
    have m: "m \<in> A" "\<not> used m" using Min_in [OF ne] by (auto simp: m_def)
    have "Min {a \<in> A \<union> B. \<not> used a} = m"
    proof (rule Min_eqI)
      show "m \<le> y" if "y \<in> {a \<in> A \<union> B. \<not> used a}" for y
      proof (cases "y \<in> A")
        case True
        with that ne show ?thesis by (simp add: m_def)
      next
        case False
        with that have "m < y" using m below by auto
        then show ?thesis by simp
      qed
    qed (use fin m in auto)
    moreover have "(\<forall>a \<in> A \<union> B. used a) \<longleftrightarrow> False" using False by auto
    moreover have "find_free_in_range used (rng_from r) (rng_to r) = Some (Some m)"
      using head False by (simp only: if_False m_def)
    ultimately show ?thesis
      unfolding set Let_def find_free_in_ranges.simps by (simp only: option.case if_False)
  qed
qed

context netipx_laws
begin

lemma sorted_ranges_nx: "sorted_ranges (nx_ranges nx s)"
  using ranges_valid ranges_sorted by (simp add: sorted_ranges_def)

lemma FindFreeAddress_least:
  "FindFreeAddress nx p u =
     Some (if ips nx p \<subseteq> ips nx u then Inl (ErrorString ''no address available'')
           else Inr (Min (ips nx p - ips nx u)))"
proof -
  have eq: "{a \<in> ips nx p. \<not> nx_contains nx u a} = ips nx p - ips nx u"
    by (auto simp: contains_iff)
  have "(\<forall>a \<in> ips nx p. nx_contains nx u a) \<longleftrightarrow> ips nx p \<subseteq> ips nx u"
    by (auto simp: contains_iff)
  then show ?thesis
    by (simp add: FindFreeAddress_def find_free_in_ranges_least [OF sorted_ranges_nx]
        ranges_cover [symmetric] eq Let_def)
qed

end

subsection \<open>The count is the number of addresses\<close>

lemma card_valid_range:
  assumes "rng_valid r"
  shows "int (card (rng_set r)) = int (addr_bits (rng_to r)) - int (addr_bits (rng_from r)) + 1"
proof -
  obtain f a b where r: "r = nrange f a b" "a \<le> b" "b < 2 ^ famlen f"
    using assms by (rule valid_range_cases)
  then have "card (zaddr f ` {a..b}) = card {a..b}"
    by (intro card_image inj_on_zaddr) auto
  with r show ?thesis by (simp add: rng_set_nrange zaddr_bits)
qed

lemma foldl_range_sizes:
  assumes "sorted_ranges rs"
  shows "foldl (\<lambda>total r. total + (SetBytes (AsSlice (rng_to r)) - SetBytes (AsSlice (rng_from r))) + 1) t rs
    = t + int (card (\<Union>r \<in> set rs. rng_set r))"
  using assms
proof (induction rs arbitrary: t)
  case Nil
  then show ?case by simp
next
  case (Cons r rs)
  define A B where "A = rng_set r" and "B = (\<Union>r \<in> set rs. rng_set r)"
  have r: "rng_valid r" "sorted_ranges rs" using Cons.prems by (simp_all add: sorted_ranges_Cons)
  have fin: "finite A" "finite B"
    using r valid_range_ends by (auto simp: A_def B_def sorted_ranges_def)
  have "A \<inter> B = {}" using sorted_ranges_below [OF Cons.prems] by (force simp: A_def B_def)
  with fin have "card (A \<union> B) = card A + card B" by (rule card_Un_disjoint)
  with Cons.IH [OF r(2)] card_valid_range [OF r(1)] show ?case
    by (simp add: A_def B_def)
qed

context netipx_laws
begin

lemma IPSetCount_card:
  "IPSetCount nx (Some s) = min (int (card (ips nx s))) max_int"
proof -
  define n where "n = card (ips nx s)"
  have "IPSetCount nx (Some s) =
      (if - (2 ^ 63) \<le> int n \<and> int n < 2 ^ 63 \<and> int n mod 2 ^ 64 \<le> max_int
       then go_int (int n mod 2 ^ 64) else max_int)"
    unfolding IPSetCount_def Let_def option.case foldl_range_sizes [OF sorted_ranges_nx]
      ranges_cover [symmetric] n_def [symmetric] add_0 conj_assoc ..
  also have "\<dots> = min (int n) max_int"
  proof (cases "int n \<le> max_int")
    case True
    then have "int n mod 2 ^ 64 = int n" by (simp add: max_int_def)
    with True show ?thesis by (simp add: go_int_id max_int_def)
  next
    case False
    then show ?thesis by (simp add: max_int_def)
  qed
  finally show ?thesis by (simp add: n_def)
qed

lemma bips_add_parsable:
  "bips (add_parsable nx as b) = bips b \<union> {WithZone a [] |a. \<exists>x \<in> set as. ParseAddr (ia_address x) = Inr a}
   \<and> bok (add_parsable nx as b) = bok b"
proof (induction as arbitrary: b)
  case (Cons x as)
  show ?case
  proof (cases "ParseAddr (ia_address x)")
    case (Inr a)
    then have "IsValid a" by (rule ParseAddr_valid)
    with Inr Cons.IH [of "nx_add nx a b"] show ?thesis
      by (auto simp: add_laws)
  qed (use Cons.IH [of b] in auto)
qed simp

lemma AddressesOutOfRangeIPSet_ips:
  "\<exists>s. AddressesOutOfRangeIPSet nx as p = Inr s
     \<and> ips nx s = {WithZone a [] |a. \<exists>x \<in> set as. ParseAddr (ia_address x) = Inr a} - ips nx p"
  using ipset_ok [of "nx_remove_set nx p (add_parsable nx as (nx_new nx))"] bips_add_parsable
  by (simp add: AddressesOutOfRangeIPSet_def builder_laws)

end

subsection \<open>Properties\<close>

text \<open>C9: \<open>FindFreeAddress\<close> always returns; its result is the least address of the pool
  that is not in use, and it fails exactly if every address of the pool is in use.\<close>

theorem FindFreeAddress_spec:
  fixes nx :: "('b, 's) netipx"
  assumes "netipx_laws nx bips bok"
  shows "FindFreeAddress nx poolIPSet inUseIPSet =
    Some (if ips nx poolIPSet \<subseteq> ips nx inUseIPSet then Inl (ErrorString ''no address available'')
          else Inr (Min (ips nx poolIPSet - ips nx inUseIPSet)))"
  using assms by (rule netipx_laws.FindFreeAddress_least)

lemma FindFreeAddress_spec_witness:
  "let p = projr (AddressesToIPSet ref_netipx [''10.0.0.0/30'', ''10.1.0.1-10.1.0.9'']);
       u = projr (AddressesToIPSet ref_netipx [''10.0.0.0'', ''10.0.0.1'']);
       r = FindFreeAddress ref_netipx p u
   in r = Some (Inr (V4 0x0A000002))
      \<and> r = Some (if ips ref_netipx p \<subseteq> ips ref_netipx u
               then Inl (ErrorString ''no address available'')
               else Inr (Min (ips ref_netipx p - ips ref_netipx u)))"
  unfolding Let_def
  by (rule conjI, code_simp) (rule FindFreeAddress_spec [OF ref.netipx_laws_axioms])

text \<open>C11: \<open>PoolSpecToIPSet\<close> on every branch: for a spec whose texts parse it returns the
  set the spec promises (addresses less exclusions, reserved addresses and gateway); it
  fails if a text does not parse or the subnet is no valid prefix; and it panics only on a
  spec without addresses that keeps its reserved addresses.\<close>

theorem PoolSpecToIPSet_spec:
  fixes nx :: "('b, 's) netipx"
  assumes "netipx_laws nx bips bok"
  shows "case PoolSpecToIPSet nx spec of
      Ok s \<Rightarrow> spec_parses spec \<and> ips nx s = pool_addrs spec
    | Err e \<Rightarrow> \<not> spec_parses spec
        \<and> (Addresses spec \<noteq> [] \<or> AllocateReservedIPAddresses spec
           \<or> entries_set (ExcludedAddresses spec) = None)
    | Panic m \<Rightarrow> Addresses spec = [] \<and> \<not> AllocateReservedIPAddresses spec
        \<and> entries_set (ExcludedAddresses spec) \<noteq> None"
  by (rule netipx_laws.PoolSpecToIPSet_cases [OF assms, of spec]) simp_all

lemma PoolSpecToIPSet_spec_witness:
  "let spec = \<lparr>Addresses = [''10.0.0.0/29''], spec_Prefix = 29, Gateway = ''10.0.0.1'',
         AllocateReservedIPAddresses = False, ExcludedAddresses = [''10.0.0.4-10.0.0.6''],
         AddressReuseGracePeriodSeconds = None\<rparr>
   in (case PoolSpecToIPSet ref_netipx spec of
         Ok s \<Rightarrow> nx_ranges ref_netipx s = [\<lparr>rng_from = V4 0x0A000002, rng_to = V4 0x0A000003\<rparr>]
       | _ \<Rightarrow> False)
     \<and> (case PoolSpecToIPSet ref_netipx spec of
         Ok s \<Rightarrow> spec_parses spec \<and> ips ref_netipx s = pool_addrs spec
       | Err e \<Rightarrow> \<not> spec_parses spec
           \<and> (Addresses spec \<noteq> [] \<or> AllocateReservedIPAddresses spec
              \<or> entries_set (ExcludedAddresses spec) = None)
       | Panic m \<Rightarrow> Addresses spec = [] \<and> \<not> AllocateReservedIPAddresses spec
           \<and> entries_set (ExcludedAddresses spec) \<noteq> None)"
  unfolding Let_def
  by (rule conjI, code_simp) (rule PoolSpecToIPSet_spec [OF ref.netipx_laws_axioms])

text \<open>The gateway is never in the set of a pool, nor are the reserved addresses unless
  the spec asks for them, nor an excluded one.\<close>

theorem pool_set_excludes:
  fixes nx :: "('b, 's) netipx"
  assumes "netipx_laws nx bips bok" "PoolSpecToIPSet nx spec = Ok s"
  shows "ips nx s \<inter> gateway_addrs spec = {} \<and> ips nx s \<inter> reserved_addrs spec = {}
    \<and> ips nx s \<inter> the (entries_set (ExcludedAddresses spec)) = {}
    \<and> ips nx s \<subseteq> the (entries_set (Addresses spec))"
  using netipx_laws.PoolSpecToIPSet_cases [OF assms(1), of spec] assms(2)
  by (auto simp: pool_addrs_def)

lemma pool_set_excludes_witness:
  "let spec = \<lparr>Addresses = [''fd00::/126''], spec_Prefix = 126, Gateway = ''fd00::2'',
         AllocateReservedIPAddresses = False, ExcludedAddresses = [],
         AddressReuseGracePeriodSeconds = None\<rparr>;
       s = (case PoolSpecToIPSet ref_netipx spec of Ok s \<Rightarrow> s)
   in ips ref_netipx s \<inter> gateway_addrs spec = {} \<and> ips ref_netipx s \<inter> reserved_addrs spec = {}
    \<and> ips ref_netipx s \<inter> the (entries_set (ExcludedAddresses spec)) = {}
    \<and> ips ref_netipx s \<subseteq> the (entries_set (Addresses spec))"
  unfolding Let_def
  by (rule pool_set_excludes [OF ref.netipx_laws_axioms]) code_simp

text \<open>\<open>AddressesToIPSet\<close> returns the union of what its entries stand for (single
  addresses, CIDRs and hyphenated ranges), and fails exactly if an entry does not parse.\<close>

theorem AddressesToIPSet_spec:
  fixes nx :: "('b, 's) netipx"
  assumes "netipx_laws nx bips bok"
  shows "case AddressesToIPSet nx addresses of
      Inr s \<Rightarrow> entries_set addresses = Some (ips nx s)
    | Inl e \<Rightarrow> entries_set addresses = None"
  by (rule netipx_laws.AddressesToIPSet_cases [OF assms, of addresses]) simp_all

lemma AddressesToIPSet_spec_witness:
  "let as = [''10.0.0.2'', ''10.0.0.4-10.0.0.5'', ''10.0.0.6/31'', ''fd00::1'']
   in (case AddressesToIPSet ref_netipx as of
         Inr s \<Rightarrow> length (nx_ranges ref_netipx s) = 3 | Inl e \<Rightarrow> False)
     \<and> (case AddressesToIPSet ref_netipx as of
         Inr s \<Rightarrow> entries_set as = Some (ips ref_netipx s)
       | Inl e \<Rightarrow> entries_set as = None)"
  unfolding Let_def
  by (rule conjI, code_simp) (rule AddressesToIPSet_spec [OF ref.netipx_laws_axioms])

text \<open>\<open>AddressStrParses\<close>, the check the webhooks use, accepts exactly the entries that
  stand for a set of addresses, and that set is never empty.\<close>

theorem AddressStrParses_spec:
  fixes nx :: "('b, 's) netipx"
  assumes "netipx_laws nx bips bok"
  shows "AddressStrParses nx addressStr \<longleftrightarrow> (\<exists>A. entry_set addressStr = Some A \<and> A \<noteq> {})"
  using netipx_laws.AddressStrParses_iff [OF assms, of addressStr] entry_set_nonempty by auto

lemma AddressStrParses_spec_witness:
  "AddressStrParses ref_netipx ''10.0.0.9-10.0.0.10'' \<and> \<not> AddressStrParses ref_netipx ''10.0.0.9-10.0.0.1''
   \<and> \<not> (\<exists>A. entry_set ''10.0.0.9-10.0.0.1'' = Some A \<and> A \<noteq> {})"
  by (subst AddressStrParses_spec [OF ref.netipx_laws_axioms, symmetric]) code_simp

text \<open>C33: \<open>IPSetCount\<close> is the number of addresses of the set, capped at \<open>math.MaxInt\<close>,
  and zero for nil: the sum over 128-bit ranges never wraps.\<close>

theorem IPSetCount_spec:
  fixes nx :: "('b, 's) netipx"
  assumes "netipx_laws nx bips bok"
  shows "IPSetCount nx ipSet =
    (case ipSet of None \<Rightarrow> 0 | Some s \<Rightarrow> min (int (card (ips nx s))) max_int)"
  using netipx_laws.IPSetCount_card [OF assms]
  by (cases ipSet) (simp add: IPSetCount_def, simp)

lemma IPSetCount_spec_witness:
  "let s = projr (AddressesToIPSet ref_netipx [''fd00::/60'', ''10.0.0.0/8''])
   in IPSetCount ref_netipx (Some s) = max_int
     \<and> IPSetCount ref_netipx (Some s) = min (int (card (ips ref_netipx s))) max_int"
  unfolding Let_def
  by (rule conjI, code_simp) (simp only: IPSetCount_spec [OF ref.netipx_laws_axioms] option.case)

text \<open>C34: \<open>AddressesOutOfRangeIPSet\<close> never fails and holds the addresses in use that parse
  and lie outside the pool.\<close>

theorem AddressesOutOfRangeIPSet_spec:
  fixes nx :: "('b, 's) netipx"
  assumes "netipx_laws nx bips bok"
  shows "\<exists>s. AddressesOutOfRangeIPSet nx inUse poolIPSet = Inr s
     \<and> ips nx s = {WithZone a [] |a. \<exists>x \<in> set inUse. ParseAddr (ia_address x) = Inr a} - ips nx poolIPSet"
  using assms by (rule netipx_laws.AddressesOutOfRangeIPSet_ips)

lemma AddressesOutOfRangeIPSet_spec_witness:
  "\<exists>s. AddressesOutOfRangeIPSet ref_netipx
        [\<lparr>ia_meta = empty_meta, ia_claim_ref = [], ia_pool_ref = \<lparr>pr_group = [], pr_kind = [], pr_name = []\<rparr>,
          ia_address = ''10.0.0.1'', ia_prefix = None, ia_gateway = []\<rparr>]
        (projr (AddressesToIPSet ref_netipx [''10.0.0.0/30''])) = Inr s \<and>
     ips ref_netipx s = {WithZone a [] |a. \<exists>x \<in> set [\<lparr>ia_meta = empty_meta, ia_claim_ref = [],
          ia_pool_ref = \<lparr>pr_group = [], pr_kind = [], pr_name = []\<rparr>,
          ia_address = ''10.0.0.1'', ia_prefix = None, ia_gateway = []\<rparr>]. ParseAddr (ia_address x) = Inr a}
       - ips ref_netipx (projr (AddressesToIPSet ref_netipx [''10.0.0.0/30'']))"
  by (rule AddressesOutOfRangeIPSet_spec [OF ref.netipx_laws_axioms])

end
