(* ===== verification/PrefixUtil.thy ===== *)
theory PrefixUtil
  imports PoolUtil
begin

text \<open>
  \<open>internal/poolutil/prefix.go\<close>: the allocation of network prefixes of one length out of a
  set of aggregates. A nil \<open>*PrefixPoolConfig\<close> and a nil \<open>*IPSet\<close> are \<open>None\<close>. Error texts
  keep the message and its operand, without the quoting of \<open>%q\<close>.
\<close>

subsection \<open>Configuration\<close>

definition defaultAllocationPrefixLength :: int where
  "defaultAllocationPrefixLength = 64"

definition EffectiveAllocationPrefixLength :: "int \<Rightarrow> int" where
  "EffectiveAllocationPrefixLength allocationPrefixLength =
     (if allocationPrefixLength = 0 then defaultAllocationPrefixLength else allocationPrefixLength)"

record PrefixPoolConfig =
  cfg_Prefixes :: "string list"
  cfg_AllocationPrefixLength :: int
  cfg_Gateway :: string
  cfg_ExcludedPrefixes :: "string list"

definition NewPrefixPoolConfig :: "InClusterPrefixPoolSpec \<Rightarrow> PrefixPoolConfig" where
  "NewPrefixPoolConfig spec =
     \<lparr>cfg_Prefixes = Prefixes spec,
      cfg_AllocationPrefixLength = EffectiveAllocationPrefixLength (AllocationPrefixLength spec),
      cfg_Gateway = pp_Gateway spec,
      cfg_ExcludedPrefixes = ExcludedPrefixes spec\<rparr>"

definition validatedAllocationPrefixLength :: "PrefixPoolConfig option \<Rightarrow> error + int" where
  "validatedAllocationPrefixLength poolConfig =
     (case poolConfig of
        None \<Rightarrow> Inl (ErrorString ''prefix pool config is required'')
      | Some c \<Rightarrow>
          if cfg_AllocationPrefixLength c \<le> 0 \<or> cfg_AllocationPrefixLength c > 128
          then Inl (ErrorString (''invalid prefix length '' @ itoa (cfg_AllocationPrefixLength c)))
          else Inr (cfg_AllocationPrefixLength c))"

subsection \<open>Sets\<close>

definition PrefixFromIPAddress :: "ip_address \<Rightarrow> error + netprefix" where
  "PrefixFromIPAddress address =
     (case ia_prefix address of
        None \<Rightarrow> Inl (ErrorString (''address '' @ om_namespace (ia_meta address) @ ''/''
                      @ om_name (ia_meta address) @ '' has no prefix set''))
      | Some bits \<Rightarrow>
          (case ParsePrefix (ia_address address @ ''/'' @ itoa bits) of
             Inl e \<Rightarrow> Inl (Wrapped (''failed parsing address '' @ om_namespace (ia_meta address)
                        @ ''/'' @ om_name (ia_meta address) @ '' as prefix'') e)
           | Inr prefix \<Rightarrow> Inr (Masked prefix)))"

fun add_allocations :: "('b, 's) netipx \<Rightarrow> ip_address list \<Rightarrow> 'b \<Rightarrow> error + 'b" where
  "add_allocations nx [] builder = Inr builder"
| "add_allocations nx (address # rest) builder =
     (case PrefixFromIPAddress address of
        Inl e \<Rightarrow> Inl e
      | Inr prefix \<Rightarrow> add_allocations nx rest (nx_add_prefix nx prefix builder))"

definition AddressesToAllocationPrefixSet ::
  "('b, 's) netipx \<Rightarrow> ip_address list \<Rightarrow> error + 's" where
  "AddressesToAllocationPrefixSet nx addresses =
     (case add_allocations nx addresses (nx_new nx) of
        Inl e \<Rightarrow> Inl e
      | Inr builder \<Rightarrow> nx_ipset nx builder)"

fun add_cidrs :: "('b, 's) netipx \<Rightarrow> string list \<Rightarrow> 'b \<Rightarrow> error + 'b" where
  "add_cidrs nx [] builder = Inr builder"
| "add_cidrs nx (entry # rest) builder =
     (case ParsePrefix entry of
        Inl e \<Rightarrow> Inl (Wrapped (''invalid pool CIDR '' @ entry) e)
      | Inr prefix \<Rightarrow>
          if prefix \<noteq> Masked prefix
          then Inl (ErrorString (''pool CIDR '' @ entry @ '' is not network aligned''))
          else add_cidrs nx rest (nx_add_prefix nx prefix builder))"

definition PrefixesToIPSet :: "('b, 's) netipx \<Rightarrow> string list \<Rightarrow> error + 's" where
  "PrefixesToIPSet nx prefixes =
     (case add_cidrs nx prefixes (nx_new nx) of
        Inl e \<Rightarrow> Inl e
      | Inr builder \<Rightarrow> nx_ipset nx builder)"

definition prefixPoolBlockedIPSet ::
  "('b, 's) netipx \<Rightarrow> PrefixPoolConfig \<Rightarrow> 's option \<Rightarrow> error + 's" where
  "prefixPoolBlockedIPSet nx poolConfig inUseIPSet =
     sum_bind
       (if length (cfg_ExcludedPrefixes poolConfig) > 0 then
          sum_bind (AddressesToIPSet nx (cfg_ExcludedPrefixes poolConfig))
            (\<lambda>excludedIPSet. Inr (nx_add_set nx excludedIPSet (nx_new nx)))
        else Inr (nx_new nx))
       (\<lambda>builder.
          nx_ipset nx
            (case inUseIPSet of None \<Rightarrow> builder | Some s \<Rightarrow> nx_add_set nx s builder))"

text \<open>
  \<open>slices.SortFunc\<close> with the comparison of \<open>sortedPrefixes\<close>, as an insertion sort. The
  comparison is zero on equal prefixes only, so every sorting algorithm returns this list.
\<close>

definition prefix_cmp :: "netprefix \<Rightarrow> netprefix \<Rightarrow> int" where
  "prefix_cmp i j =
     (let cmp = Compare (pfx_addr i) (pfx_addr j) in
      if cmp \<noteq> 0 then cmp else pfx_bits i - pfx_bits j)"

fun insert_by :: "('a \<Rightarrow> 'a \<Rightarrow> int) \<Rightarrow> 'a \<Rightarrow> 'a list \<Rightarrow> 'a list" where
  "insert_by cmp x [] = [x]"
| "insert_by cmp x (y # ys) = (if cmp x y \<le> 0 then x # y # ys else y # insert_by cmp x ys)"

definition SortFunc :: "('a \<Rightarrow> 'a \<Rightarrow> int) \<Rightarrow> 'a list \<Rightarrow> 'a list" where
  "SortFunc cmp xs = foldr (insert_by cmp) xs []"

definition sortedPrefixes :: "netprefix list \<Rightarrow> netprefix list" where
  "sortedPrefixes prefixes = SortFunc prefix_cmp prefixes"

subsection \<open>Splitting and searching\<close>

definition splitPrefix :: "('b, 's) netipx \<Rightarrow> netprefix \<Rightarrow> (netprefix \<times> netprefix) option" where
  "splitPrefix nx p =
     (if \<not> Prefix_IsValid p then None
      else let bits = pfx_bits p in
        if bits \<ge> BitLen (pfx_addr p) \<or> bits < 0 then None
        else let left = Masked (PrefixFrom (pfx_addr p) (bits + 1));
                 rightAddr = Next (rng_to (nx_range_of_prefix nx left))
             in if \<not> IsValid rightAddr then None
                else Some (left, Masked (PrefixFrom rightAddr (bits + 1))))"

lemma Masked_PrefixFrom_bits:
  "Prefix_IsValid (Masked (PrefixFrom a b)) \<Longrightarrow> pfx_bits (Masked (PrefixFrom a b)) = b"
  by (cases a) (auto simp: Masked_def PrefixFrom_def Prefix_IsValid_def zero_prefix_def)

lemma splitPrefix_bits:
  assumes "splitPrefix nx p = Some (l, r)"
  shows "Prefix_IsValid l \<Longrightarrow> pfx_bits l = pfx_bits p + 1"
    and "Prefix_IsValid r \<Longrightarrow> pfx_bits r = pfx_bits p + 1"
  using assms Masked_PrefixFrom_bits by (auto simp: splitPrefix_def Let_def split: if_splits)

text \<open>How far a prefix is from the target length: it shrinks with every split.\<close>

definition split_depth :: "netprefix \<Rightarrow> int \<Rightarrow> nat" where
  "split_depth p targetBits =
     (if Prefix_IsValid p then Suc (nat (targetBits - pfx_bits p)) else 0)"

lemma split_depth_less:
  assumes "splitPrefix nx p = Some (l, r)" "Prefix_IsValid p" "\<not> targetBits < pfx_bits p"
    "pfx_bits p \<noteq> targetBits"
  shows "split_depth l targetBits < split_depth p targetBits"
    "split_depth r targetBits < split_depth p targetBits"
  using splitPrefix_bits [OF assms(1)] assms(2-) by (auto simp: split_depth_def)

function findFreePrefixInAggregate ::
  "('b, 's) netipx \<Rightarrow> netprefix \<Rightarrow> int \<Rightarrow> 's \<Rightarrow> netprefix option" where
  "findFreePrefixInAggregate nx aggregate targetBits blockedIPSet =
     (if \<not> Prefix_IsValid aggregate then None
      else let bits = pfx_bits aggregate in
      if bits > targetBits \<or> bits < 0 \<or> targetBits > BitLen (pfx_addr aggregate) then None
      else if nx_contains_prefix nx blockedIPSet aggregate then None
      else if \<not> nx_overlaps_prefix nx blockedIPSet aggregate then
        (if bits = targetBits then Some aggregate
         else Some (Masked (PrefixFrom (pfx_addr aggregate) targetBits)))
      else if bits = targetBits then None
      else (case splitPrefix nx aggregate of
          None \<Rightarrow> None
        | Some (left, right) \<Rightarrow>
            (case findFreePrefixInAggregate nx left targetBits blockedIPSet of
               Some prefix \<Rightarrow> Some prefix
             | None \<Rightarrow> findFreePrefixInAggregate nx right targetBits blockedIPSet)))"
  by pat_completeness auto
termination
  by (relation "measure (\<lambda>(nx, p, t, s). split_depth p t)") (auto intro: split_depth_less)

definition twoPowerCapped :: "int \<Rightarrow> int" where
  "twoPowerCapped exponent =
     (if exponent < 0 then 0
      else if exponent = 0 then 1
      else let total = 2 ^ nat exponent in if total > max_int then max_int else go_int total)"

definition addIntCapped :: "int \<Rightarrow> int \<Rightarrow> int" where
  "addIntCapped current add =
     (if current = max_int \<or> add = max_int then max_int
      else if add > go_int (max_int - current) then max_int
      else go_int (current + add))"

function countAllocatablePrefixesInAggregate ::
  "('b, 's) netipx \<Rightarrow> netprefix \<Rightarrow> int \<Rightarrow> 's \<Rightarrow> int" where
  "countAllocatablePrefixesInAggregate nx aggregate targetBits blockedIPSet =
     (if \<not> Prefix_IsValid aggregate then 0
      else let bits = pfx_bits aggregate in
      if bits > targetBits \<or> bits < 0 \<or> targetBits > BitLen (pfx_addr aggregate) then 0
      else if nx_contains_prefix nx blockedIPSet aggregate then 0
      else if \<not> nx_overlaps_prefix nx blockedIPSet aggregate then
        twoPowerCapped (targetBits - bits)
      else if bits = targetBits then 0
      else (case splitPrefix nx aggregate of
          None \<Rightarrow> 0
        | Some (left, right) \<Rightarrow>
            addIntCapped (countAllocatablePrefixesInAggregate nx left targetBits blockedIPSet)
              (countAllocatablePrefixesInAggregate nx right targetBits blockedIPSet)))"
  by pat_completeness auto
termination
  by (relation "measure (\<lambda>(nx, p, t, s). split_depth p t)") (auto intro: split_depth_less)

declare findFreePrefixInAggregate.simps [simp del]
  countAllocatablePrefixesInAggregate.simps [simp del]

subsection \<open>The three operations\<close>

fun first_free :: "('b, 's) netipx \<Rightarrow> int \<Rightarrow> 's \<Rightarrow> netprefix list \<Rightarrow> error + netprefix" where
  "first_free nx allocLen blockedIPSet [] = Inl (ErrorString ''no prefix available'')"
| "first_free nx allocLen blockedIPSet (aggregate # rest) =
     (case findFreePrefixInAggregate nx aggregate allocLen blockedIPSet of
        Some freePrefix \<Rightarrow> Inr freePrefix
      | None \<Rightarrow> first_free nx allocLen blockedIPSet rest)"

definition FindFreePrefix ::
  "('b, 's) netipx \<Rightarrow> PrefixPoolConfig option \<Rightarrow> 's option \<Rightarrow> error + netprefix" where
  "FindFreePrefix nx poolConfig inUseIPSet =
     sum_bind (validatedAllocationPrefixLength poolConfig) (\<lambda>allocLen.
     sum_bind (PrefixesToIPSet nx (cfg_Prefixes (the poolConfig))) (\<lambda>poolIPSet.
     sum_bind (prefixPoolBlockedIPSet nx (the poolConfig) inUseIPSet) (\<lambda>blockedIPSet.
     first_free nx allocLen blockedIPSet (sortedPrefixes (nx_prefixes nx poolIPSet)))))"

definition PrefixCandidateCount ::
  "('b, 's) netipx \<Rightarrow> PrefixPoolConfig option \<Rightarrow> error + int" where
  "PrefixCandidateCount nx poolConfig =
     sum_bind (validatedAllocationPrefixLength poolConfig) (\<lambda>allocLen.
     sum_bind (PrefixesToIPSet nx (cfg_Prefixes (the poolConfig))) (\<lambda>poolIPSet.
     sum_bind (prefixPoolBlockedIPSet nx (the poolConfig) None) (\<lambda>blockedIPSet.
     Inr (foldl (\<lambda>total aggregate.
            addIntCapped total (countAllocatablePrefixesInAggregate nx aggregate allocLen blockedIPSet))
          0 (sortedPrefixes (nx_prefixes nx poolIPSet))))))"

definition PrefixIsAllocatable ::
  "('b, 's) netipx \<Rightarrow> netprefix \<Rightarrow> PrefixPoolConfig option \<Rightarrow> bool" where
  "PrefixIsAllocatable nx p poolConfig =
     (if poolConfig = None \<or> \<not> Prefix_IsValid p then False
      else case validatedAllocationPrefixLength poolConfig of
        Inl e \<Rightarrow> False
      | Inr allocLen \<Rightarrow>
          let p = Masked p in
          if pfx_bits p \<noteq> allocLen then False
          else case PrefixesToIPSet nx (cfg_Prefixes (the poolConfig)) of
            Inl e \<Rightarrow> False
          | Inr poolIPSet \<Rightarrow>
              if \<not> nx_contains_prefix nx poolIPSet p then False
              else case prefixPoolBlockedIPSet nx (the poolConfig) None of
                Inl e \<Rightarrow> False
              | Inr blockedIPSet \<Rightarrow> \<not> nx_overlaps_prefix nx blockedIPSet p)"

subsection \<open>Free blocks\<close>

text \<open>
  The numbers of the free blocks of length \<open>t\<close> in block \<open>k\<close> of length \<open>b\<close>: those with no
  address in \<open>B\<close>.
\<close>

definition free_blocks :: "addr set \<Rightarrow> family \<Rightarrow> nat \<Rightarrow> nat \<Rightarrow> nat \<Rightarrow> nat set" where
  "free_blocks B f t k b =
     {j. j div 2 ^ (t - b) = k \<and> zaddr f ` nblock f j t \<inter> B = {}}"

lemma div_eq_interval:
  assumes "(0::nat) < m"
  shows "{j. j div m = k} = {k * m ..< Suc k * m}"
proof (intro set_eqI iffI)
  fix j assume "j \<in> {j. j div m = k}"
  then have k: "j div m = k" by simp
  have "j div m * m \<le> j" "j < m + j div m * m"
    using assms by (simp_all add: dividend_less_div_times)
  then show "j \<in> {k * m ..< Suc k * m}" unfolding k by simp
next
  fix j assume "j \<in> {k * m ..< Suc k * m}"
  then have "j div m = k" by (intro div_nat_eqI) (simp_all add: mult.commute)
  then show "j \<in> {j. j div m = k}" by simp
qed

lemma finite_free_blocks: "finite (free_blocks B f t k b)"
proof (rule finite_subset)
  show "free_blocks B f t k b \<subseteq> {j. j div 2 ^ (t - b) = k}" by (auto simp: free_blocks_def)
  show "finite {j. j div 2 ^ (t - b) = (k::nat)}" by (simp add: div_eq_interval)
qed

lemma free_blocks_split:
  assumes "b < t"
  shows "free_blocks B f t k b = free_blocks B f t (2 * k) (Suc b) \<union> free_blocks B f t (2 * k + 1) (Suc b)"
proof -
  have eq: "j div 2 ^ (t - b) = j div 2 ^ (t - Suc b) div 2" for j :: nat
  proof -
    have "t - b = Suc (t - Suc b)" using assms by simp
    then show ?thesis by (simp add: div_mult2_eq [symmetric] mult.commute)
  qed
  have "i div 2 = k \<longleftrightarrow> i = 2 * k \<or> i = 2 * k + 1" for i :: nat by presburger
  then show ?thesis by (auto simp: free_blocks_def eq)
qed

lemma free_blocks_ordered:
  assumes "i \<in> free_blocks B f t k b" "j \<in> free_blocks B f t k' b" "k < k'"
  shows "i < j"
proof (rule ccontr)
  assume "\<not> i < j"
  then have "j div 2 ^ (t - b) \<le> i div 2 ^ (t - b)" by (simp add: div_le_mono)
  with assms show False by (simp add: free_blocks_def)
qed

lemma free_blocks_bound:
  assumes "j \<in> free_blocks B f t k b" "k < 2 ^ b" "b \<le> t"
  shows "j < 2 ^ t"
proof -
  have "j div 2 ^ (t - b) < 2 ^ b" using assms by (simp add: free_blocks_def)
  then have "j < 2 ^ b * 2 ^ (t - b)" by (simp add: div_less_iff_less_mult)
  also have "\<dots> = 2 ^ t" using assms by (simp add: power_add [symmetric])
  finally show ?thesis .
qed

lemma free_blocks_covered:
  assumes "zaddr f ` nblock f k b \<subseteq> B" "b \<le> t" "t \<le> famlen f"
  shows "free_blocks B f t k b = {}"
proof -
  have False if j: "j \<in> free_blocks B f t k b" for j
  proof -
    have "nblock f j t \<subseteq> nblock f k b"
      using j assms by (simp add: nblock_subset_iff free_blocks_def)
    with assms(1) nblock_nonempty [of j f t] have "zaddr f (j * bsize f t) \<in> B" by blast
    with nblock_nonempty [of j f t] j show False by (auto simp: free_blocks_def)
  qed
  then show ?thesis by blast
qed

lemma free_blocks_all:
  assumes "zaddr f ` nblock f k b \<inter> B = {}" "b \<le> t" "t \<le> famlen f"
  shows "free_blocks B f t k b = {k * 2 ^ (t - b) ..< Suc k * 2 ^ (t - b)}"
proof -
  have "zaddr f ` nblock f j t \<inter> B = {}" if "j div 2 ^ (t - b) = k" for j
  proof -
    have "nblock f j t \<subseteq> nblock f k b" using that assms by (simp add: nblock_subset_iff)
    then show ?thesis using assms(1) by blast
  qed
  then have "free_blocks B f t k b = {j. j div 2 ^ (t - b) = k}" by (auto simp: free_blocks_def)
  then show ?thesis by (simp add: div_eq_interval)
qed

lemma free_blocks_at_target:
  assumes "zaddr f ` nblock f k t \<inter> B \<noteq> {}"
  shows "free_blocks B f t k t = {}"
  using assms by (auto simp: free_blocks_def)

lemma Min_atLeastLessThan: "a < b \<Longrightarrow> Min {a ..< b :: nat} = a"
  by (rule Min_eqI) auto

context netipx_laws
begin

lemma splitPrefix_nprefix:
  assumes "k < 2 ^ b" "b < famlen f"
  shows "splitPrefix nx (nprefix f k b) =
    Some (nprefix f (2 * k) (Suc b), nprefix f (2 * k + 1) (Suc b))"
proof -
  have half: "bsize f b = 2 * bsize f (Suc b)"
    using bsize_coarser [of b "Suc b" f] assms by simp
  define m where "m = bsize f (Suc b)"
  have m: "0 < m" by (simp add: m_def)
  have k': "2 * k < 2 ^ Suc b" "2 * k + 1 < 2 ^ Suc b" using assms by auto
  have start: "k * (2 * m) < 2 ^ famlen f"
    using block_start_bound [of k b f] assms half by (simp add: m_def)
  have mid: "(2 * k + 1) * m < 2 ^ famlen f"
    using block_start_bound [of "2 * k + 1" "Suc b" f] k' assms by (simp add: m_def)
  have "(2 * k) * m div m = 2 * k" "(2 * k + 1) * m div m = 2 * k + 1"
    using m by (simp_all only: nonzero_mult_div_cancel_right)
  then have left: "Masked (PrefixFrom (zaddr f (k * (2 * m))) (int (Suc b))) = nprefix f (2 * k) (Suc b)"
    and right: "Masked (PrefixFrom (zaddr f ((2 * k + 1) * m)) (int (Suc b))) = nprefix f (2 * k + 1) (Suc b)"
    using assms start mid Masked_PrefixFrom_zaddr [of "k * (2 * m)" f "Suc b"]
      Masked_PrefixFrom_zaddr [of "(2 * k + 1) * m" f "Suc b"]
    by (simp_all add: m_def [symmetric] mult.commute mult.left_commute)
  have "nx_range_of_prefix nx (nprefix f (2 * k) (Suc b)) = nrange f ((2 * k) * m) (Suc (2 * k) * m - 1)"
    using range_of_prefix_ends [of "2 * k" "Suc b" f] k' assms by (simp add: m_def)
  moreover define e where "e = Suc (2 * k) * m - 1"
  ultimately have r: "rng_to (nx_range_of_prefix nx (nprefix f (2 * k) (Suc b))) = zaddr f e" by simp
  have e: "Suc e = (2 * k + 1) * m" using m by (simp add: e_def)
  then have "Suc e < 2 ^ famlen f" using mid by simp
  then have next_eq: "Next (zaddr f e) = zaddr f ((2 * k + 1) * m)"
    by (simp only: Next_zaddr [OF Suc_lessD] if_True e)
  have bits: "int b + 1 = int (Suc b)" by simp
  have addr: "pfx_addr (nprefix f k b) = zaddr f (k * (2 * m))" by (simp add: half m_def)
  show ?thesis
    unfolding splitPrefix_def Let_def addr
    using assms(2) by (simp only: nprefix_valid nprefix_sel bits left r next_eq right) simp
qed

lemma block_queries:
  assumes "k < 2 ^ b" "b \<le> famlen f"
  shows "nx_contains_prefix nx s (nprefix f k b) \<longleftrightarrow> zaddr f ` nblock f k b \<subseteq> ips nx s"
    and "nx_overlaps_prefix nx s (nprefix f k b) \<longleftrightarrow> zaddr f ` nblock f k b \<inter> ips nx s \<noteq> {}"
  using assms by (simp_all add: contains_prefix_iff overlaps_prefix_iff pfx_set_nblock)

end

lemma twoPowerCapped_min: "twoPowerCapped (int n) = min (2 ^ n) max_int"
proof (cases "2 ^ n \<le> max_int")
  case True
  have "- (2 ^ 63) \<le> (0::int)" "(0::int) \<le> 2 ^ n" by simp_all
  then have "- (2 ^ 63) \<le> (2::int) ^ n" by (rule order_trans)
  then have "go_int (2 ^ n) = 2 ^ n" using True by (rule go_int_id)
  with True show ?thesis by (auto simp: twoPowerCapped_def Let_def)
next
  case False
  then have "n \<noteq> 0" by (cases n) (auto simp: max_int_def)
  with False show ?thesis by (auto simp: twoPowerCapped_def Let_def)
qed

lemma addIntCapped_min:
  assumes "0 \<le> x" "0 \<le> y"
  shows "addIntCapped (min x max_int) (min y max_int) = min (x + y) max_int"
proof (cases "x < max_int \<and> y < max_int")
  case True
  then have "go_int (max_int - x) = max_int - x" using assms by (intro go_int_id) auto
  moreover have "go_int (x + y) = x + y" if "y \<le> max_int - x"
    using that assms by (intro go_int_id) auto
  ultimately show ?thesis using True by (auto simp: addIntCapped_def min_def)
next
  case False
  then have "min x max_int = max_int \<or> min y max_int = max_int" by linarith
  with False assms show ?thesis by (auto simp: addIntCapped_def)
qed

context netipx_laws
begin

text \<open>The search and the count in an aggregate, by the free blocks in it.\<close>

lemma aggregate_leaf:
  assumes "k < 2 ^ b" "b \<le> t" "t \<le> famlen f"
    and leaf: "b = t \<or> zaddr f ` nblock f k b \<subseteq> ips nx s
      \<or> zaddr f ` nblock f k b \<inter> ips nx s = {}"
  defines "F \<equiv> free_blocks (ips nx s) f t k b"
  shows "findFreePrefixInAggregate nx (nprefix f k b) (int t) s =
           (if F = {} then None else Some (nprefix f (Min F) t))"
    and "countAllocatablePrefixesInAggregate nx (nprefix f k b) (int t) s =
           min (int (card F)) max_int"
proof -
  have b: "b \<le> famlen f" using assms by simp
  note q = block_queries [OF assms(1) b, of s]
  let ?find = "findFreePrefixInAggregate nx (nprefix f k b) (int t) s"
  let ?count = "countAllocatablePrefixesInAggregate nx (nprefix f k b) (int t) s"
  have "?find = (if F = {} then None else Some (nprefix f (Min F) t)) \<and> ?count = min (int (card F)) max_int"
  proof (cases "zaddr f ` nblock f k b \<subseteq> ips nx s")
    case True
    then have "F = {}" unfolding F_def using assms by (intro free_blocks_covered)
    with True show ?thesis
      by (simp add: findFreePrefixInAggregate.simps [of nx "nprefix f k b"]
          countAllocatablePrefixesInAggregate.simps [of nx "nprefix f k b"] Let_def q)
  next
    case notin: False
    show ?thesis
    proof (cases "zaddr f ` nblock f k b \<inter> ips nx s = {}")
      case True
      define m where "m = (2::nat) ^ (t - b)"
      have m: "0 < m" by (simp add: m_def)
      have F: "F = {k * m ..< Suc k * m}"
        unfolding F_def m_def using True assms by (intro free_blocks_all)
      have F': "F \<noteq> {}" "Min F = k * m" "card F = m"
        using m by (simp_all add: F Min_atLeastLessThan)
      have size: "k * bsize f b = k * m * bsize f t"
        using bsize_coarser [of b t f] assms by (simp add: m_def mult.assoc mult.left_commute mult.commute)
      have start: "k * bsize f b < 2 ^ famlen f" using assms b by (intro block_start_bound)
      have masked: "Masked (PrefixFrom (zaddr f (k * bsize f b)) (int t)) = nprefix f (k * m) t"
        using Masked_PrefixFrom_zaddr [OF start, of t] assms by (simp add: size)
      have "nprefix f k b = nprefix f (k * m) t" if "b = t" using that by (simp add: m_def)
      then have "?find = Some (nprefix f (k * m) t)"
        using notin True assms b masked
        by (simp add: findFreePrefixInAggregate.simps [of nx "nprefix f k b"] Let_def q)
      moreover have "?count = min (2 ^ (t - b)) max_int"
        using notin True assms b twoPowerCapped_min [of "t - b"]
        by (simp add: countAllocatablePrefixesInAggregate.simps [of nx "nprefix f k b"] Let_def q
            of_nat_diff)
      ultimately show ?thesis using F' by (simp add: m_def)
    next
      case False
      with leaf notin have "b = t" by blast
      with False have "F = {}" unfolding F_def by (simp add: free_blocks_at_target)
      with notin False \<open>b = t\<close> assms show ?thesis
        by (simp add: findFreePrefixInAggregate.simps [of nx "nprefix f k t"]
          countAllocatablePrefixesInAggregate.simps [of nx "nprefix f k t"] Let_def
          q [unfolded \<open>b = t\<close>])
    qed
  qed
  then show "?find = (if F = {} then None else Some (nprefix f (Min F) t))"
    "?count = min (int (card F)) max_int" by auto
qed

lemma aggregate_search:
  assumes "k < 2 ^ b" "b \<le> t" "t \<le> famlen f"
  shows "findFreePrefixInAggregate nx (nprefix f k b) (int t) s =
           (if free_blocks (ips nx s) f t k b = {} then None
            else Some (nprefix f (Min (free_blocks (ips nx s) f t k b)) t))
    \<and> countAllocatablePrefixesInAggregate nx (nprefix f k b) (int t) s =
           min (int (card (free_blocks (ips nx s) f t k b))) max_int"
  using assms
proof (induction "t - b" arbitrary: k b)
  case base: 0
  then have "b = t" by simp
  then show ?case using aggregate_leaf [of k b t f s] base by blast
next
  case step: (Suc d)
  have b: "b < t" "b < famlen f" "b \<le> famlen f" using step by auto
  show ?case
  proof (cases "zaddr f ` nblock f k b \<subseteq> ips nx s \<or> zaddr f ` nblock f k b \<inter> ips nx s = {}")
    case True
    then show ?thesis using aggregate_leaf [OF step.prems, of s] by blast
  next
    case False
    define L R where "L = free_blocks (ips nx s) f t (2 * k) (Suc b)"
      and "R = free_blocks (ips nx s) f t (Suc (2 * k)) (Suc b)"
    have fin: "finite L" "finite R" by (simp_all add: L_def R_def finite_free_blocks)
    have both: "free_blocks (ips nx s) f t k b = L \<union> R"
      unfolding L_def R_def using free_blocks_split [OF b(1), of _ f k] by simp
    have below: "i < j" if "i \<in> L" "j \<in> R" for i j
      using that free_blocks_ordered [of i _ f t "2 * k" "Suc b" j "Suc (2 * k)"]
      by (simp add: L_def R_def)
    then have disj: "L \<inter> R = {}" by fastforce
    have k': "2 * k < 2 ^ Suc b" "Suc (2 * k) < 2 ^ Suc b" using step.prems by auto
    have d: "d = t - Suc b" "Suc b \<le> t" using step.hyps(2) b by auto
    note left = step.hyps(1) [OF d(1) k'(1) d(2) step.prems(3), folded L_def]
    note right = step.hyps(1) [OF d(1) k'(2) d(2) step.prems(3), folded R_def]
    note q = block_queries [OF step.prems(1) b(3), of s]
    have split: "splitPrefix nx (nprefix f k b) =
        Some (nprefix f (2 * k) (Suc b), nprefix f (Suc (2 * k)) (Suc b))"
      using splitPrefix_nprefix [OF step.prems(1) b(2)] by simp
    have "findFreePrefixInAggregate nx (nprefix f k b) (int t) s =
        (case findFreePrefixInAggregate nx (nprefix f (2 * k) (Suc b)) (int t) s of
           Some p \<Rightarrow> Some p
         | None \<Rightarrow> findFreePrefixInAggregate nx (nprefix f (Suc (2 * k)) (Suc b)) (int t) s)"
      using False b step.prems
      by (subst findFreePrefixInAggregate.simps) (simp add: Let_def q split)
    moreover have "Min (L \<union> R) = Min L" if "L \<noteq> {}"
    proof (rule Min_eqI)
      show "Min L \<le> y" if "y \<in> L \<union> R" for y
        using that fin \<open>L \<noteq> {}\<close> below [OF Min_in [OF fin(1) \<open>L \<noteq> {}\<close>]] by (auto intro: less_imp_le)
    qed (use fin that in auto)
    moreover have "countAllocatablePrefixesInAggregate nx (nprefix f k b) (int t) s =
        addIntCapped (countAllocatablePrefixesInAggregate nx (nprefix f (2 * k) (Suc b)) (int t) s)
          (countAllocatablePrefixesInAggregate nx (nprefix f (Suc (2 * k)) (Suc b)) (int t) s)"
      using False b step.prems
      by (subst countAllocatablePrefixesInAggregate.simps) (simp add: Let_def q split)
    moreover have "card (L \<union> R) = card L + card R" using fin disj by (rule card_Un_disjoint)
    ultimately show ?thesis
      unfolding both using left right addIntCapped_min [of "int (card L)" "int (card R)"] by auto
  qed
qed

end

subsection \<open>Allocatable prefixes\<close>

text \<open>
  The masked prefixes of length \<open>l\<close> with all their addresses in \<open>P\<close> and none in \<open>B\<close>.
\<close>

definition alloc_prefixes :: "int \<Rightarrow> addr set \<Rightarrow> addr set \<Rightarrow> netprefix set" where
  "alloc_prefixes l P B =
     {p. Prefix_IsValid p \<and> pfx_wf p \<and> Masked p = p \<and> pfx_bits p = l
         \<and> pfx_set p \<subseteq> P \<and> pfx_set p \<inter> B = {}}"

text \<open>An aggregate as \<open>Prefixes()\<close> returns it.\<close>

definition aggregate_ok :: "netprefix \<Rightarrow> bool" where
  "aggregate_ok p \<longleftrightarrow> Prefix_IsValid p \<and> pfx_wf p \<and> Masked p = p"

lemma aggregate_cases:
  assumes "aggregate_ok p"
  obtains f k b where "p = nprefix f k b" "k < 2 ^ b" "b \<le> famlen f"
  using assms masked_prefix_cases unfolding aggregate_ok_def by blast

lemma aggregate_ok_nprefix: "k < 2 ^ b \<Longrightarrow> b \<le> famlen f \<Longrightarrow> aggregate_ok (nprefix f k b)"
  by (simp add: aggregate_ok_def)

lemma alloc_in_aggregate:
  assumes "k < 2 ^ b" "b \<le> famlen f"
  shows "alloc_prefixes (int t) (pfx_set (nprefix f k b)) B =
    (if b \<le> t \<and> t \<le> famlen f then (\<lambda>j. nprefix f j t) ` free_blocks B f t k b else {})"
proof (intro set_eqI iffI)
  fix p assume p: "p \<in> alloc_prefixes (int t) (pfx_set (nprefix f k b)) B"
  then have "aggregate_ok p" by (simp add: alloc_prefixes_def aggregate_ok_def)
  then obtain g j c where c: "p = nprefix g j c" "j < 2 ^ c" "c \<le> famlen g" by (rule aggregate_cases)
  with p have t: "c = t" and sub: "pfx_set (nprefix g j t) \<subseteq> pfx_set (nprefix f k b)"
    and free: "pfx_set (nprefix g j t) \<inter> B = {}" by (auto simp: alloc_prefixes_def)
  note j = c(2,3)[unfolded t]
  have g: "g = f"
  proof -
    have "j * bsize g t < 2 ^ famlen g" using j by (intro block_start_bound)
    moreover have "zaddr g (j * bsize g t) \<in> pfx_set (nprefix g j t)"
      using j nblock_nonempty by (simp add: pfx_set_nblock)
    ultimately show ?thesis using sub assms zaddr_in_pfx_set by blast
  qed
  have blocks: "nblock f j t \<subseteq> nblock f k b"
  proof
    fix n assume n: "n \<in> nblock f j t"
    then have "n < 2 ^ famlen f" using nblock_bound [of j t f] j g by auto
    moreover have "zaddr f n \<in> pfx_set (nprefix f k b)"
      using n sub j g by (auto simp: pfx_set_nblock)
    ultimately show "n \<in> nblock f k b" using assms zaddr_in_pfx_set by blast
  qed
  have bt: "b \<le> t" by (rule nblock_level_inject [OF blocks]) (use j g assms in auto)
  have "t \<le> famlen f" using j g by simp
  from nblock_subset_iff [OF bt this] blocks have "j div 2 ^ (t - b) = k" by blast
  moreover have "zaddr f ` nblock f j t \<inter> B = {}" using free j g by (simp add: pfx_set_nblock)
  ultimately have "j \<in> free_blocks B f t k b" by (simp add: free_blocks_def)
  with bt j g c t show "p \<in> (if b \<le> t \<and> t \<le> famlen f
      then (\<lambda>j. nprefix f j t) ` free_blocks B f t k b else {})" by simp
next
  fix p assume "p \<in> (if b \<le> t \<and> t \<le> famlen f
      then (\<lambda>j. nprefix f j t) ` free_blocks B f t k b else {})"
  then obtain j where t: "b \<le> t" "t \<le> famlen f" and j: "p = nprefix f j t" "j \<in> free_blocks B f t k b"
    by (auto split: if_splits)
  have bound: "j < 2 ^ t" using j(2) assms(1) t(1) by (rule free_blocks_bound)
  have "nblock f j t \<subseteq> nblock f k b" using j t by (simp add: nblock_subset_iff free_blocks_def)
  then have "pfx_set p \<subseteq> pfx_set (nprefix f k b)"
    using j bound t assms by (auto simp: pfx_set_nblock)
  moreover have "pfx_set p \<inter> B = {}" using j bound t by (simp add: pfx_set_nblock free_blocks_def)
  ultimately show "p \<in> alloc_prefixes (int t) (pfx_set (nprefix f k b)) B"
    using j bound t by (simp add: alloc_prefixes_def)
qed

context netipx_laws
begin

lemma search_outside:
  assumes "\<not> (b \<le> t \<and> t \<le> famlen f)"
  shows "findFreePrefixInAggregate nx (nprefix f k b) (int t) s = None"
    and "countAllocatablePrefixesInAggregate nx (nprefix f k b) (int t) s = 0"
  using assms by (auto simp: findFreePrefixInAggregate.simps [of nx "nprefix f k b"]
      countAllocatablePrefixesInAggregate.simps [of nx "nprefix f k b"] Let_def)

lemma find_in_aggregate:
  assumes "aggregate_ok p"
  shows "case findFreePrefixInAggregate nx p (int t) s of
      None \<Rightarrow> alloc_prefixes (int t) (pfx_set p) (ips nx s) = {}
    | Some q \<Rightarrow> q \<in> alloc_prefixes (int t) (pfx_set p) (ips nx s)
        \<and> (\<forall>q' \<in> alloc_prefixes (int t) (pfx_set p) (ips nx s). pfx_addr q \<le> pfx_addr q')"
proof -
  obtain f k b where p: "p = nprefix f k b" "k < 2 ^ b" "b \<le> famlen f"
    using assms by (rule aggregate_cases)
  note alloc = alloc_in_aggregate [OF p(2,3), of t "ips nx s"]
  show ?thesis
  proof (cases "b \<le> t \<and> t \<le> famlen f")
    case True
    define F where "F = free_blocks (ips nx s) f t k b"
    have fin: "finite F" by (simp add: F_def finite_free_blocks)
    have order: "pfx_addr (nprefix f i t) \<le> pfx_addr (nprefix f j t)" if "i \<le> j" "j \<in> F" for i j
    proof -
      have "j < 2 ^ t" using that(2) p(2) True free_blocks_bound unfolding F_def by blast
      then have "j * bsize f t < 2 ^ famlen f" using True by (intro block_start_bound) auto
      moreover have "i * bsize f t \<le> j * bsize f t" using that(1) by simp
      ultimately have "zaddr f (i * bsize f t) \<le> zaddr f (j * bsize f t)"
        by (meson le_less_trans zaddr_le)
      then show ?thesis by simp
    qed
    show ?thesis
    proof (cases "F = {}")
      case True
      then show ?thesis
        using aggregate_search [OF p(2), of t f s] \<open>b \<le> t \<and> t \<le> famlen f\<close> alloc
        by (simp add: p(1) F_def)
    next
      case False
      then have "Min F \<in> F" using fin by simp
      moreover have "Min F \<le> j" if "j \<in> F" for j using that fin by simp
      ultimately show ?thesis
        using aggregate_search [OF p(2), of t f s] True False alloc order
        by (simp add: p(1) F_def)
    qed
  next
    case False
    then show ?thesis using alloc search_outside [OF False] by (auto simp: p(1))
  qed
qed

lemma count_in_aggregate:
  fixes t :: nat
  assumes "aggregate_ok p"
  defines "A \<equiv> alloc_prefixes (int t) (pfx_set p)"
  shows "finite (A (ips nx s))"
    and "countAllocatablePrefixesInAggregate nx p (int t) s = min (int (card (A (ips nx s)))) max_int"
proof -
  obtain f k b where p: "p = nprefix f k b" "k < 2 ^ b" "b \<le> famlen f"
    using assms(1) by (rule aggregate_cases)
  note alloc = alloc_in_aggregate [OF p(2,3), of t "ips nx s"]
  have "finite (A (ips nx s)) \<and> countAllocatablePrefixesInAggregate nx p (int t) s =
      min (int (card (A (ips nx s)))) max_int"
  proof (cases "b \<le> t \<and> t \<le> famlen f")
    case True
    define F where "F = free_blocks (ips nx s) f t k b"
    have "inj_on (\<lambda>j. nprefix f j t) F"
    proof (rule inj_onI)
      fix i j assume ij: "i \<in> F" "j \<in> F" "nprefix f i t = nprefix f j t"
      then have "i < 2 ^ t" "j < 2 ^ t"
        using p(2) True free_blocks_bound unfolding F_def by blast+
      with ij(3) True show "i = j" by (simp add: nprefix_eq)
    qed
    then have "card ((\<lambda>j. nprefix f j t) ` F) = card F" by (rule card_image)
    then show ?thesis
      using aggregate_search [OF p(2), of t f s] True alloc finite_free_blocks
      by (simp add: p(1) A_def F_def)
  next
    case False
    then show ?thesis using alloc search_outside [OF False] by (auto simp: p(1) A_def)
  qed
  then show "finite (A (ips nx s))"
    "countAllocatablePrefixesInAggregate nx p (int t) s = min (int (card (A (ips nx s)))) max_int"
    by auto
qed

end

subsection \<open>Sorting\<close>

definition prefix_key :: "netprefix \<Rightarrow> addr \<times> int" where
  "prefix_key p = (pfx_addr p, pfx_bits p)"

lemma prefix_cmp_key: "prefix_cmp i j \<le> 0 \<longleftrightarrow> prefix_key i \<le> prefix_key j"
  using Compare_less [of "pfx_addr i" "pfx_addr j"] Compare_eq [of "pfx_addr i" "pfx_addr j"]
  by (auto simp: prefix_cmp_def prefix_key_def Let_def less_eq_prod_def)

lemma SortFunc_prefix_cmp: "SortFunc prefix_cmp xs = sort_key prefix_key xs"
proof -
  have "insert_by prefix_cmp x ys = insort_key prefix_key x ys" for x ys
    by (induction ys) (simp_all add: prefix_cmp_key)
  then have "insert_by prefix_cmp = insort_key prefix_key" by (intro ext)
  then show ?thesis by (simp add: SortFunc_def sort_key_def)
qed

lemma sortedPrefixes_props:
  "set (sortedPrefixes ps) = set ps"
  "distinct (sortedPrefixes ps) = distinct ps"
  "sorted_wrt (\<lambda>p q. pfx_addr p \<le> pfx_addr q) (sortedPrefixes ps)"
proof -
  show "set (sortedPrefixes ps) = set ps" "distinct (sortedPrefixes ps) = distinct ps"
    by (simp_all add: sortedPrefixes_def SortFunc_prefix_cmp)
  have "sorted_wrt (\<lambda>p q. prefix_key p \<le> prefix_key q) (sortedPrefixes ps)"
    using sorted_sort_key [of prefix_key ps]
    by (simp add: sortedPrefixes_def SortFunc_prefix_cmp sorted_map)
  then show "sorted_wrt (\<lambda>p q. pfx_addr p \<le> pfx_addr q) (sortedPrefixes ps)"
    by (rule sorted_wrt_mono_rel [rotated]) (auto simp: prefix_key_def less_eq_prod_def)
qed

lemma sorted_wrt_distinct_conj:
  "distinct xs \<Longrightarrow> sorted_wrt P xs \<Longrightarrow> sorted_wrt (\<lambda>x y. x \<noteq> y \<and> P x y) xs"
  by (induction xs) auto

text \<open>Aggregates in ascending order: every address of one is below every address of the next.\<close>

definition ascending :: "netprefix list \<Rightarrow> bool" where
  "ascending ps \<longleftrightarrow> (\<forall>p \<in> set ps. aggregate_ok p)
     \<and> sorted_wrt (\<lambda>p q. \<forall>x \<in> pfx_set p. \<forall>y \<in> pfx_set q. x < y) ps"

lemma ascending_Cons:
  "ascending (p # ps) \<longleftrightarrow> aggregate_ok p \<and> ascending ps
     \<and> (\<forall>q \<in> set ps. \<forall>x \<in> pfx_set p. \<forall>y \<in> pfx_set q. x < y)"
  by (auto simp: ascending_def)

lemma pfx_addr_least:
  assumes "aggregate_ok p"
  shows "pfx_addr p \<in> pfx_set p" "x \<in> pfx_set p \<Longrightarrow> pfx_addr p \<le> x"
proof -
  obtain f k b where p: "p = nprefix f k b" "k < 2 ^ b" "b \<le> famlen f"
    using assms by (rule aggregate_cases)
  show "pfx_addr p \<in> pfx_set p" using p nblock_nonempty by (simp add: pfx_set_nblock)
  assume "x \<in> pfx_set p"
  then obtain n where n: "x = zaddr f n" "n \<in> nblock f k b" using p by (auto simp: pfx_set_nblock)
  have "n < 2 ^ famlen f" "k * bsize f b \<le> n"
    using n(2) nblock_bound [OF p(2,3)] by (auto simp: nblock_def)
  then show "pfx_addr p \<le> x" using n(1) p(1) zaddr_le [of "k * bsize f b" f n] by simp
qed

context netipx_laws
begin

lemma pfx_set_convex:
  assumes "aggregate_ok p" "a \<in> pfx_set p" "c \<in> pfx_set p" "a \<le> b" "b \<le> c" "zoneless b"
  shows "b \<in> pfx_set p"
proof -
  have "pfx_set p = rng_set (nx_range_of_prefix nx p)"
    using range_of_prefix [of p] assms(1) by (simp add: aggregate_ok_def)
  then obtain l u where set: "pfx_set p = {x. zoneless x \<and> l \<le> x \<and> x \<le> u}"
    by (auto simp: rng_set_def addr_interval_def)
  have "l \<le> a" "c \<le> u" using assms(2,3) unfolding set by blast+
  then have "l \<le> b" "b \<le> u" using assms(4,5) by (blast intro: order_trans)+
  then show ?thesis unfolding set using assms(6) by blast
qed

lemma disjoint_aggregates_order:
  assumes "aggregate_ok p" "aggregate_ok q" "pfx_set p \<inter> pfx_set q = {}"
    "pfx_addr p \<le> pfx_addr q" "x \<in> pfx_set p" "y \<in> pfx_set q"
  shows "x < y"
proof (rule ccontr)
  assume "\<not> x < y"
  then have "pfx_addr q \<le> x" using pfx_addr_least(2) [OF assms(2,6)] by simp
  moreover have "zoneless (pfx_addr q)"
    using pfx_addr_least(1) [OF assms(2)] by (rule pfx_set_zoneless)
  ultimately have "pfx_addr q \<in> pfx_set p"
    using pfx_set_convex [OF assms(1) pfx_addr_least(1) [OF assms(1)] assms(5,4)] by blast
  with assms(3) pfx_addr_least(1) [OF assms(2)] show False by blast
qed

lemma nx_prefixes_ascending: "ascending (sortedPrefixes (nx_prefixes nx s))"
proof -
  define ps where "ps = sortedPrefixes (nx_prefixes nx s)"
  note props = sortedPrefixes_props [of "nx_prefixes nx s", folded ps_def]
  have ok: "aggregate_ok p" if "p \<in> set ps" for p
    using that prefixes_valid [of p s] by (simp add: props aggregate_ok_def)
  have "distinct ps" using props(2) prefixes_distinct [of s] by simp
  then have "sorted_wrt (\<lambda>p q. p \<noteq> q \<and> pfx_addr p \<le> pfx_addr q) ps"
    using props(3) by (rule sorted_wrt_distinct_conj)
  then have "sorted_wrt (\<lambda>p q. \<forall>x \<in> pfx_set p. \<forall>y \<in> pfx_set q. x < y) ps"
  proof (rule sorted_wrt_mono_rel [rotated])
    fix p q assume pq: "p \<in> set ps" "q \<in> set ps" "p \<noteq> q \<and> pfx_addr p \<le> pfx_addr q"
    have "pfx_set p \<inter> pfx_set q = {}"
      using pq props by (intro prefixes_disjoint [of _ s]) simp_all
    then show "\<forall>x \<in> pfx_set p. \<forall>y \<in> pfx_set q. x < y"
      using pq ok disjoint_aggregates_order by blast
  qed
  with ok show ?thesis by (simp add: ascending_def ps_def)
qed

lemma alloc_prefixes_aggregates:
  "alloc_prefixes l (ips nx s) B =
     (\<Union>p \<in> set (nx_prefixes nx s). alloc_prefixes l (pfx_set p) B)"
  using prefixes_minimal [of _ s] prefixes_cover [of s]
  by (fastforce simp: alloc_prefixes_def)

lemma first_free_least:
  fixes t :: nat and s :: 's
  assumes "ascending ps"
  defines "A \<equiv> \<Union>p \<in> set ps. alloc_prefixes (int t) (pfx_set p) (ips nx s)"
  shows "case first_free nx (int t) s ps of
      Inl e \<Rightarrow> A = {}
    | Inr q \<Rightarrow> q \<in> A \<and> (\<forall>q' \<in> A. pfx_addr q \<le> pfx_addr q')"
  using assms(1) unfolding A_def
proof (induction ps)
  case Nil
  then show ?case by simp
next
  case (Cons p ps)
  have p: "aggregate_ok p" "ascending ps" using Cons.prems by (simp_all add: ascending_Cons)
  have in_set: "pfx_addr q \<in> pfx_set r" if "q \<in> alloc_prefixes (int t) (pfx_set r) B" for q r B
    using that pfx_addr_least(1) [of q] by (auto simp: alloc_prefixes_def aggregate_ok_def)
  note found = find_in_aggregate [OF p(1), of t s]
  show ?case
  proof (cases "findFreePrefixInAggregate nx p (int t) s")
    case None
    with found have "(\<Union>r \<in> set (p # ps). alloc_prefixes (int t) (pfx_set r) (ips nx s))
        = (\<Union>r \<in> set ps. alloc_prefixes (int t) (pfx_set r) (ips nx s))" by simp
    with None Cons.IH [OF p(2)] show ?thesis by (simp only: first_free.simps option.case)
  next
    case (Some q)
    with found have q: "q \<in> alloc_prefixes (int t) (pfx_set p) (ips nx s)"
      "\<forall>q' \<in> alloc_prefixes (int t) (pfx_set p) (ips nx s). pfx_addr q \<le> pfx_addr q'" by simp_all
    have "pfx_addr q \<le> pfx_addr q'"
      if "r \<in> set ps" "q' \<in> alloc_prefixes (int t) (pfx_set r) (ips nx s)" for q' r
    proof -
      have "pfx_addr q < pfx_addr q'"
        using Cons.prems that in_set [OF q(1)] in_set [OF that(2)] unfolding ascending_Cons by blast
      then show ?thesis by simp
    qed
    with Some q show ?thesis by auto
  qed
qed

lemma foldl_counts:
  fixes t :: nat and s :: 's
  assumes "ascending ps"
  defines "A \<equiv> \<Union>p \<in> set ps. alloc_prefixes (int t) (pfx_set p) (ips nx s)"
  shows "finite A \<and> foldl (\<lambda>total p. addIntCapped total (countAllocatablePrefixesInAggregate nx p (int t) s))
    (min (int n) max_int) ps = min (int (n + card A)) max_int"
  using assms(1) unfolding A_def
proof (induction ps arbitrary: n)
  case Nil
  then show ?case by simp
next
  case (Cons p ps)
  define A B where "A = alloc_prefixes (int t) (pfx_set p) (ips nx s)"
    and "B = (\<Union>p \<in> set ps. alloc_prefixes (int t) (pfx_set p) (ips nx s))"
  have p: "aggregate_ok p" "ascending ps" using Cons.prems by (simp_all add: ascending_Cons)
  note count = count_in_aggregate [OF p(1), of t s, folded A_def]
  note ih = Cons.IH [OF p(2), folded B_def]
  have "q \<notin> B" if "q \<in> A" for q
  proof
    assume "q \<in> B"
    then obtain r where r: "r \<in> set ps" "q \<in> alloc_prefixes (int t) (pfx_set r) (ips nx s)"
      by (auto simp: B_def)
    have "pfx_addr q \<in> pfx_set q"
      using that pfx_addr_least(1) [of q] by (auto simp: A_def alloc_prefixes_def aggregate_ok_def)
    then have "pfx_addr q \<in> pfx_set p" "pfx_addr q \<in> pfx_set r"
      using that r by (auto simp: A_def alloc_prefixes_def)
    with Cons.prems r show False unfolding ascending_Cons by blast
  qed
  then have "A \<inter> B = {}" by blast
  then have card: "card (A \<union> B) = card A + card B"
    using count(1) ih by (intro card_Un_disjoint) auto
  have "addIntCapped (min (int n) max_int) (min (int (card A)) max_int) = min (int (n + card A)) max_int"
    using addIntCapped_min [of "int n" "int (card A)"] by simp
  then show ?case
    using ih [of "n + card A"] ih count card by (simp add: A_def [symmetric] B_def [symmetric] add.assoc)
qed

end

subsection \<open>What a configuration promises\<close>

text \<open>The addresses of a pool entry: a network-aligned CIDR.\<close>

definition cidr_set :: "string \<Rightarrow> addr set option" where
  "cidr_set s =
     (case ParsePrefix s of
        Inl e \<Rightarrow> None
      | Inr p \<Rightarrow> if p = Masked p then Some (pfx_set p) else None)"

definition cidrs_set :: "string list \<Rightarrow> addr set option" where
  "cidrs_set ss =
     (if list_all (\<lambda>s. cidr_set s \<noteq> None) ss then Some (\<Union>s \<in> set ss. the (cidr_set s)) else None)"

definition cfg_parses :: "PrefixPoolConfig \<Rightarrow> bool" where
  "cfg_parses c \<longleftrightarrow>
     0 < cfg_AllocationPrefixLength c \<and> cfg_AllocationPrefixLength c \<le> 128
     \<and> cidrs_set (cfg_Prefixes c) \<noteq> None \<and> entries_set (cfg_ExcludedPrefixes c) \<noteq> None"

text \<open>The prefixes a configuration can hand out while the addresses in \<open>U\<close> are in use.\<close>

definition pool_prefixes :: "PrefixPoolConfig \<Rightarrow> addr set \<Rightarrow> netprefix set" where
  "pool_prefixes c U =
     alloc_prefixes (cfg_AllocationPrefixLength c) (the (cidrs_set (cfg_Prefixes c)))
       (the (entries_set (cfg_ExcludedPrefixes c)) \<union> U)"

definition in_use_set :: "('b, 's) netipx \<Rightarrow> 's option \<Rightarrow> addr set" where
  "in_use_set nx u = (case u of None \<Rightarrow> {} | Some s \<Rightarrow> ips nx s)"

context netipx_laws
begin

lemma add_cidrs_cases:
  obtains (ok) b' A where "add_cidrs nx ss b = Inr b'" "cidrs_set ss = Some A"
      "bips b' = bips b \<union> A" "bok b' = bok b"
    | (error) e where "add_cidrs nx ss b = Inl e" "cidrs_set ss = None"
proof (induction ss arbitrary: b thesis)
  case Nil
  show ?case by (rule Nil.prems(1) [of b "{}"]) (simp_all add: cidrs_set_def)
next
  case (Cons s rest)
  show ?case
  proof (cases "ParsePrefix s")
    case (Inl e)
    then show ?thesis
      by (intro Cons.prems(2)) (auto simp: cidrs_set_def cidr_set_def)
  next
    case (Inr p)
    note valid = ParsePrefix_valid [OF Inr]
    show ?thesis
    proof (cases "p = Masked p")
      case False
      with Inr show ?thesis
        by (intro Cons.prems(2)) (auto simp: cidrs_set_def cidr_set_def)
    next
      case True
      have step: "add_cidrs nx (s # rest) b = add_cidrs nx rest (nx_add_prefix nx p b)"
        using Inr True by simp
      have set: "cidr_set s = Some (pfx_set p)" using Inr True by (simp add: cidr_set_def)
      have add: "bips (nx_add_prefix nx p b) = bips b \<union> pfx_set p" "bok (nx_add_prefix nx p b) = bok b"
        using valid by (simp_all add: add_prefix_laws)
      show ?thesis
      proof (rule Cons.IH [of "nx_add_prefix nx p b"], goal_cases)
        case (1 b' B)
        then show ?thesis
          by (intro Cons.prems(1) [of b' "pfx_set p \<union> B"])
             (auto simp: step set add cidrs_set_def simp del: add_cidrs.simps split: if_splits)
      next
        case (2 e)
        then show ?thesis
          by (intro Cons.prems(2) [of e]) (auto simp: step set cidrs_set_def simp del: add_cidrs.simps split: if_splits)
      qed
    qed
  qed
qed

lemma PrefixesToIPSet_cases:
  obtains (ok) t A where "PrefixesToIPSet nx ss = Inr t" "cidrs_set ss = Some A" "ips nx t = A"
    | (error) e where "PrefixesToIPSet nx ss = Inl e" "cidrs_set ss = None"
proof (cases rule: add_cidrs_cases [of ss "nx_new nx"])
  case (ok b' A)
  show ?thesis
    by (rule ipset_cases [of b'])
       (use ok new_laws in \<open>auto intro!: that(1) simp: PrefixesToIPSet_def\<close>)
next
  case (error e)
  then show ?thesis by (intro that(2) [of e]) (auto simp: PrefixesToIPSet_def)
qed

lemma blocked_cases:
  obtains (ok) t A where "prefixPoolBlockedIPSet nx c u = Inr t"
      "entries_set (cfg_ExcludedPrefixes c) = Some A" "ips nx t = A \<union> in_use_set nx u"
    | (error) e where "prefixPoolBlockedIPSet nx c u = Inl e"
      "entries_set (cfg_ExcludedPrefixes c) = None"
proof -
  have tail: "\<exists>t. nx_ipset nx (case u of None \<Rightarrow> b | Some s \<Rightarrow> nx_add_set nx s b) = Inr t
      \<and> ips nx t = bips b \<union> in_use_set nx u" if "bok b" for b
    using that ipset_ok [of b] ipset_ok [of "nx_add_set nx s b" for s]
    by (cases u) (simp_all add: in_use_set_def add_set_laws)
  show ?thesis
  proof (cases "cfg_ExcludedPrefixes c = []")
    case True
    then show ?thesis
      using tail [of "nx_new nx"] that(1) by (auto simp: prefixPoolBlockedIPSet_def new_laws)
  next
    case False
    show ?thesis
    proof (cases rule: AddressesToIPSet_cases [of "cfg_ExcludedPrefixes c"])
      case (ok x A)
      with False tail [of "nx_add_set nx x (nx_new nx)"] that(1) show ?thesis
        by (auto simp: prefixPoolBlockedIPSet_def builder_laws)
    next
      case (error e)
      with False that(2) show ?thesis by (auto simp: prefixPoolBlockedIPSet_def)
    qed
  qed
qed

lemma validated_cases:
  "validatedAllocationPrefixLength (Some c) =
     (if 0 < cfg_AllocationPrefixLength c \<and> cfg_AllocationPrefixLength c \<le> 128
      then Inr (cfg_AllocationPrefixLength c)
      else Inl (ErrorString (''invalid prefix length '' @ itoa (cfg_AllocationPrefixLength c))))"
  by (auto simp: validatedAllocationPrefixLength_def)

text \<open>The common start of the three operations.\<close>

lemma config_cases:
  obtains (ok) n P B where
      "cfg_parses c" "validatedAllocationPrefixLength (Some c) = Inr (int n)"
      "cfg_AllocationPrefixLength c = int n"
      "PrefixesToIPSet nx (cfg_Prefixes c) = Inr P"
      "prefixPoolBlockedIPSet nx c u = Inr B"
      "pool_prefixes c (in_use_set nx u) = alloc_prefixes (int n) (ips nx P) (ips nx B)"
    | (length) e where "\<not> cfg_parses c" "validatedAllocationPrefixLength (Some c) = Inl e"
    | (prefixes) n e where "\<not> cfg_parses c" "validatedAllocationPrefixLength (Some c) = Inr n"
      "PrefixesToIPSet nx (cfg_Prefixes c) = Inl e"
    | (excluded) n P e where "\<not> cfg_parses c" "validatedAllocationPrefixLength (Some c) = Inr n"
      "PrefixesToIPSet nx (cfg_Prefixes c) = Inr P" "prefixPoolBlockedIPSet nx c u = Inl e"
proof (cases "0 < cfg_AllocationPrefixLength c \<and> cfg_AllocationPrefixLength c \<le> 128")
  case False
  then show ?thesis by (intro length) (auto simp: validated_cases cfg_parses_def)
next
  case True
  then obtain n where n: "cfg_AllocationPrefixLength c = int n" by (metis less_imp_le zero_le_imp_eq_int)
  with True have v: "validatedAllocationPrefixLength (Some c) = Inr (int n)" by (simp add: validated_cases)
  show ?thesis
  proof (cases rule: PrefixesToIPSet_cases [of "cfg_Prefixes c"])
    case pfx: (ok P A)
    show ?thesis
    proof (cases rule: blocked_cases [of c u])
      case blk: (ok B E)
      show ?thesis
        by (rule that(1) [of n P B])
           (use True n v pfx blk in \<open>simp_all add: cfg_parses_def pool_prefixes_def\<close>)
    next
      case (error e)
      then show ?thesis using v pfx by (intro that(4)) (auto simp: cfg_parses_def)
    qed
  next
    case (error e)
    then show ?thesis using v by (intro that(3)) (auto simp: cfg_parses_def)
  qed
qed

lemma FindFreePrefix_least:
  "case FindFreePrefix nx (Some c) u of
     Inl e \<Rightarrow> \<not> cfg_parses c \<or> pool_prefixes c (in_use_set nx u) = {}
   | Inr p \<Rightarrow> cfg_parses c \<and> p \<in> pool_prefixes c (in_use_set nx u)
       \<and> (\<forall>q \<in> pool_prefixes c (in_use_set nx u). pfx_addr p \<le> pfx_addr q)"
proof (cases rule: config_cases [of c u])
  case (ok n P B)
  have find: "FindFreePrefix nx (Some c) u = first_free nx (int n) B (sortedPrefixes (nx_prefixes nx P))"
    using ok by (simp add: FindFreePrefix_def)
  have set: "pool_prefixes c (in_use_set nx u) = (\<Union>p \<in> set (sortedPrefixes (nx_prefixes nx P)).
      alloc_prefixes (int n) (pfx_set p) (ips nx B))"
    using ok(6) by (simp add: sortedPrefixes_props alloc_prefixes_aggregates)
  show ?thesis
    unfolding find set using first_free_least [OF nx_prefixes_ascending [of P], of n B] ok(1)
    by (cases "first_free nx (int n) B (sortedPrefixes (nx_prefixes nx P))") simp_all
qed (simp_all add: FindFreePrefix_def)

lemma PrefixCandidateCount_card:
  "case PrefixCandidateCount nx (Some c) of
     Inl e \<Rightarrow> \<not> cfg_parses c
   | Inr n \<Rightarrow> cfg_parses c \<and> finite (pool_prefixes c {})
       \<and> n = min (int (card (pool_prefixes c {}))) max_int"
proof (cases rule: config_cases [of c None])
  case (ok n P B)
  have "pool_prefixes c {} = (\<Union>p \<in> set (sortedPrefixes (nx_prefixes nx P)).
      alloc_prefixes (int n) (pfx_set p) (ips nx B))"
    using ok(6) by (simp add: in_use_set_def sortedPrefixes_props alloc_prefixes_aggregates)
  with foldl_counts [OF nx_prefixes_ascending [of P], where t = n and s = B and n = 0] ok show ?thesis
    by (simp add: PrefixCandidateCount_def)
qed (simp_all add: PrefixCandidateCount_def)

lemma PrefixIsAllocatable_iff:
  assumes "pfx_wf p"
  shows "PrefixIsAllocatable nx p (Some c) \<longleftrightarrow>
    Prefix_IsValid p \<and> cfg_parses c \<and> Masked p \<in> pool_prefixes c {}"
proof (cases "Prefix_IsValid p")
  case False
  then show ?thesis by (simp add: PrefixIsAllocatable_def)
next
  case True
  have m: "Prefix_IsValid (Masked p)" "pfx_wf (Masked p)" "Masked (Masked p) = Masked p"
    using Masked_valid_cases [OF True assms] Masked_wf [OF assms True] by (metis nprefix_valid, simp_all)
  show ?thesis
    by (rule config_cases [of c None])
       (use True m in \<open>auto simp: PrefixIsAllocatable_def Let_def in_use_set_def alloc_prefixes_def
          contains_prefix_iff overlaps_prefix_iff\<close>)
qed

end

subsection \<open>Properties\<close>

text \<open>C10: first fit. \<open>FindFreePrefix\<close> returns the allocatable prefix with the lowest
  address that overlaps no exclusion and no prefix in use; it fails exactly if the
  configuration is invalid or no such prefix is left. The recursive splitting misses none.\<close>

theorem FindFreePrefix_spec:
  fixes nx :: "('b, 's) netipx"
  assumes "netipx_laws nx bips bok"
  shows "case FindFreePrefix nx (Some c) inUse of
      Inl e \<Rightarrow> \<not> cfg_parses c \<or> pool_prefixes c (in_use_set nx inUse) = {}
    | Inr p \<Rightarrow> cfg_parses c \<and> p \<in> pool_prefixes c (in_use_set nx inUse)
        \<and> (\<forall>q \<in> pool_prefixes c (in_use_set nx inUse). pfx_addr p \<le> pfx_addr q)"
  using assms by (rule netipx_laws.FindFreePrefix_least)

lemma FindFreePrefix_spec_witness:
  "let c = \<lparr>cfg_Prefixes = [''10.1.0.0/30'', ''10.0.0.0/30''], cfg_AllocationPrefixLength = 31,
            cfg_Gateway = [], cfg_ExcludedPrefixes = [''10.0.0.0'']\<rparr>;
       u = Some (projr (PrefixesToIPSet ref_netipx [''10.0.0.2/31'']))
   in FindFreePrefix ref_netipx (Some c) u = ParsePrefix ''10.1.0.0/31''
     \<and> (case FindFreePrefix ref_netipx (Some c) u of
        Inl e \<Rightarrow> \<not> cfg_parses c \<or> pool_prefixes c (in_use_set ref_netipx u) = {}
      | Inr p \<Rightarrow> cfg_parses c \<and> p \<in> pool_prefixes c (in_use_set ref_netipx u)
          \<and> (\<forall>q \<in> pool_prefixes c (in_use_set ref_netipx u). pfx_addr p \<le> pfx_addr q))"
  unfolding Let_def
  by (rule conjI, code_simp) (rule FindFreePrefix_spec [OF ref.netipx_laws_axioms])

text \<open>C31: \<open>PrefixCandidateCount\<close> counts the allocatable prefixes exactly, capped at
  \<open>math.MaxInt\<close>, and fails exactly if the configuration is invalid.\<close>

theorem PrefixCandidateCount_spec:
  fixes nx :: "('b, 's) netipx"
  assumes "netipx_laws nx bips bok"
  shows "case PrefixCandidateCount nx (Some c) of
      Inl e \<Rightarrow> \<not> cfg_parses c
    | Inr n \<Rightarrow> cfg_parses c \<and> finite (pool_prefixes c {})
        \<and> n = min (int (card (pool_prefixes c {}))) max_int"
  using assms by (rule netipx_laws.PrefixCandidateCount_card)

lemma PrefixCandidateCount_spec_witness:
  "let c = \<lparr>cfg_Prefixes = [''10.0.0.0/28''], cfg_AllocationPrefixLength = 30,
            cfg_Gateway = [], cfg_ExcludedPrefixes = [''10.0.0.1'']\<rparr>
   in PrefixCandidateCount ref_netipx (Some c) = Inr 3
     \<and> (case PrefixCandidateCount ref_netipx (Some c) of
      Inl e \<Rightarrow> \<not> cfg_parses c
    | Inr n \<Rightarrow> cfg_parses c \<and> finite (pool_prefixes c {})
        \<and> n = min (int (card (pool_prefixes c {}))) max_int)"
  unfolding Let_def
  by (rule conjI, code_simp) (rule PrefixCandidateCount_spec [OF ref.netipx_laws_axioms])

text \<open>\<open>PrefixIsAllocatable\<close> accepts exactly the prefixes whose masked form the
  configuration can hand out.\<close>

theorem PrefixIsAllocatable_spec:
  fixes nx :: "('b, 's) netipx"
  assumes "netipx_laws nx bips bok" "pfx_wf p"
  shows "PrefixIsAllocatable nx p (Some c) \<longleftrightarrow>
    Prefix_IsValid p \<and> cfg_parses c \<and> Masked p \<in> pool_prefixes c {}"
  using assms by (rule netipx_laws.PrefixIsAllocatable_iff)

lemma PrefixIsAllocatable_spec_witness:
  "let c = \<lparr>cfg_Prefixes = [''10.0.0.0/24''], cfg_AllocationPrefixLength = 28,
            cfg_Gateway = ''10.0.0.1'', cfg_ExcludedPrefixes = [''10.0.0.32'']\<rparr>;
       p = projr (ParsePrefix ''10.0.0.1/28'')
   in PrefixIsAllocatable ref_netipx p (Some c)
     \<and> (PrefixIsAllocatable ref_netipx p (Some c) \<longleftrightarrow>
         Prefix_IsValid p \<and> cfg_parses c \<and> Masked p \<in> pool_prefixes c {})"
  unfolding Let_def
  by (rule conjI, code_simp, rule PrefixIsAllocatable_spec [OF ref.netipx_laws_axioms]) code_simp

text \<open>C32: the three operations agree. What \<open>FindFreePrefix\<close> returns is allocatable and
  disjoint from everything in use; and with nothing in use it finds a prefix exactly if
  \<open>PrefixCandidateCount\<close> is positive.\<close>

theorem prefix_operations_agree:
  fixes nx :: "('b, 's) netipx"
  assumes "netipx_laws nx bips bok"
  shows "(\<forall>p. FindFreePrefix nx (Some c) inUse = Inr p \<longrightarrow>
            PrefixIsAllocatable nx p (Some c) \<and> pfx_set p \<inter> in_use_set nx inUse = {})
    \<and> ((\<exists>p. FindFreePrefix nx (Some c) None = Inr p) \<longleftrightarrow>
         (\<exists>n > 0. PrefixCandidateCount nx (Some c) = Inr n))"
proof (intro conjI allI impI)
  fix p assume "FindFreePrefix nx (Some c) inUse = Inr p"
  with netipx_laws.FindFreePrefix_least [OF assms, of c inUse]
  have p: "cfg_parses c" "p \<in> pool_prefixes c (in_use_set nx inUse)" by simp_all
  then have "pfx_wf p" "Prefix_IsValid p" "Masked p \<in> pool_prefixes c {}"
    by (auto simp: pool_prefixes_def alloc_prefixes_def)
  with p show "PrefixIsAllocatable nx p (Some c)"
    by (simp add: netipx_laws.PrefixIsAllocatable_iff [OF assms])
  from p show "pfx_set p \<inter> in_use_set nx inUse = {}"
    by (auto simp: pool_prefixes_def alloc_prefixes_def)
next
  note find = netipx_laws.FindFreePrefix_least [OF assms, of c None]
  note count = netipx_laws.PrefixCandidateCount_card [OF assms, of c]
  have "(\<exists>p. FindFreePrefix nx (Some c) None = Inr p) \<longleftrightarrow> cfg_parses c \<and> pool_prefixes c {} \<noteq> {}"
    using find by (cases "FindFreePrefix nx (Some c) None") (auto simp: in_use_set_def)
  also have "\<dots> \<longleftrightarrow> (\<exists>n > 0. PrefixCandidateCount nx (Some c) = Inr n)"
    using count by (cases "PrefixCandidateCount nx (Some c)") (auto simp: card_gt_0_iff)
  finally show "(\<exists>p. FindFreePrefix nx (Some c) None = Inr p) \<longleftrightarrow>
      (\<exists>n > 0. PrefixCandidateCount nx (Some c) = Inr n)" .
qed

lemma prefix_operations_agree_witness:
  "let c = \<lparr>cfg_Prefixes = [''10.0.0.0/24''], cfg_AllocationPrefixLength = 28,
            cfg_Gateway = [], cfg_ExcludedPrefixes = []\<rparr>
   in (\<forall>p. FindFreePrefix ref_netipx (Some c) None = Inr p \<longrightarrow>
            PrefixIsAllocatable ref_netipx p (Some c) \<and> pfx_set p \<inter> in_use_set ref_netipx None = {})
    \<and> ((\<exists>p. FindFreePrefix ref_netipx (Some c) None = Inr p) \<longleftrightarrow>
         (\<exists>n > 0. PrefixCandidateCount ref_netipx (Some c) = Inr n))
"
  unfolding Let_def by (rule prefix_operations_agree [OF ref.netipx_laws_axioms])

text \<open>\<open>addIntCapped\<close> is addition capped at \<open>math.MaxInt\<close> on the counts it is given:
  the \<open>int\<close> arithmetic of the code never wraps.\<close>

theorem addIntCapped_spec:
  assumes "0 \<le> x" "x \<le> max_int" "0 \<le> y" "y \<le> max_int"
  shows "addIntCapped x y = min (x + y) max_int \<and> 0 \<le> addIntCapped x y"
  using addIntCapped_min [of x y] assms by (simp add: min_absorb1)

lemma addIntCapped_spec_witness:
  "addIntCapped (max_int - 1) 5 = max_int
   \<and> addIntCapped (max_int - 1) 5 = min (max_int - 1 + 5) max_int \<and> 0 \<le> addIntCapped (max_int - 1) 5"
proof -
  have "0 \<le> max_int - 1" "max_int - 1 \<le> max_int" "(0::int) \<le> 5" "5 \<le> max_int"
    by (simp_all add: max_int_def)
  from addIntCapped_spec [OF this] show ?thesis by (simp add: max_int_def)
qed

end
