(* ===== verification/NetIPRoundTrip.thy ===== *)
theory NetIPRoundTrip
  imports NetIPText
begin

text \<open>
  Parsing reads back what \<open>Addr.String\<close> prints, for every IPv4 and IPv6 address without a
  zone, whichever form is printed (dotted, IPv4-mapped, the longest run of zero groups
  elided at the start, in the middle, at the end, or not at all); and \<open>ParsePrefix\<close> reads
  back address and length. An allocation stored as text is therefore found again.
\<close>

subsection \<open>Digits\<close>

lemma hex_digit_facts:
  assumes "d < 16"
  shows "hexval (hex_digit d) = Some d" "hex_digit d \<notin> {CHR '':'', CHR ''.'', CHR ''%'', CHR ''/'', CHR ''-''}"
proof -
  have "list_all (\<lambda>d. hexval (hex_digit d) = Some d
      \<and> hex_digit d \<notin> {CHR '':'', CHR ''.'', CHR ''%'', CHR ''/'', CHR ''-''}) [0..<16]"
    by code_simp
  then show "hexval (hex_digit d) = Some d"
    "hex_digit d \<notin> {CHR '':'', CHR ''.'', CHR ''%'', CHR ''/'', CHR ''-''}"
    using assms by (auto simp: list_all_iff)
qed

lemma dec_digit_facts:
  assumes "d < 10"
  shows "is_digit (hex_digit d)" "digit_val (hex_digit d) = d"
proof -
  have "list_all (\<lambda>d. is_digit (hex_digit d) \<and> digit_val (hex_digit d) = d) [0..<10]"
    by code_simp
  then show "is_digit (hex_digit d)" "digit_val (hex_digit d) = d"
    using assms by (auto simp: list_all_iff)
qed

lemma sep_facts:
  "\<not> is_digit (CHR ''.'')" "hexval (CHR ''.'') = None" "hexval (CHR '':'') = None"
  by code_simp+

lemma dec_nat_byte:
  assumes "n < 1000"
  shows "dec_nat n =
    (if n < 10 then [hex_digit n]
     else if n < 100 then [hex_digit (n div 10), hex_digit (n mod 10)]
     else [hex_digit (n div 100), hex_digit (n div 10 mod 10), hex_digit (n mod 10)])"
proof -
  have "n div 10 div 10 = n div 100" by (simp add: div_mult2_eq [symmetric])
  moreover have "n div 10 < 10 \<longleftrightarrow> n < 100" by auto
  moreover have "n div 100 < 10" using assms by auto
  ultimately show ?thesis
    by (simp add: dec_nat.simps [of n] dec_nat.simps [of "n div 10"] dec_nat.simps [of "n div 100"])
qed

lemma hex_nat_group:
  assumes "n < 65536"
  shows "hex_nat n =
    (if n < 16 then [hex_digit n]
     else if n < 256 then [hex_digit (n div 16), hex_digit (n mod 16)]
     else if n < 4096 then [hex_digit (n div 256), hex_digit (n div 16 mod 16), hex_digit (n mod 16)]
     else [hex_digit (n div 4096), hex_digit (n div 256 mod 16), hex_digit (n div 16 mod 16),
           hex_digit (n mod 16)])"
proof -
  have "n div 16 div 16 = n div 256" "n div 256 div 16 = n div 4096"
    by (simp_all add: div_mult2_eq [symmetric])
  moreover have "n div 16 < 16 \<longleftrightarrow> n < 256" "n div 256 < 16 \<longleftrightarrow> n < 4096" by auto
  moreover have "n div 4096 < 16" using assms by auto
  ultimately show ?thesis
    by (simp add: hex_nat.simps [of n] hex_nat.simps [of "n div 16"] hex_nat.simps [of "n div 256"]
        hex_nat.simps [of "n div 4096"])
qed

lemma dec_nat_chars: "set (dec_nat n) \<subseteq> hex_digit ` {..<10}"
proof (induction n rule: dec_nat.induct)
  case (1 n)
  then show ?case by (subst dec_nat.simps) auto
qed

lemma hex_nat_chars: "set (hex_nat n) \<subseteq> hex_digit ` {..<16}"
proof (induction n rule: hex_nat.induct)
  case (1 n)
  then show ?case by (subst hex_nat.simps) auto
qed

lemma dec_nat_nonempty [simp]: "dec_nat n \<noteq> []" "hex_nat n \<noteq> []"
  by (subst dec_nat.simps, simp) (subst hex_nat.simps, simp)

subsection \<open>Dotted decimal\<close>

lemma p4_octet:
  assumes "n < 256" "length fs < 3" "cs \<noteq> []"
  shows "p4_loop (dec_nat n @ CHR ''.'' # cs) pd 0 0 fs = p4_loop cs True 0 0 (fs @ [n])"
proof -
  have [simp]: "n div 10 mod 10 < 10" "n div 10 < 100" by simp_all (use assms in auto)
  show ?thesis
  proof (cases "n < 10")
    case True
    with assms show ?thesis by (simp add: dec_nat_byte dec_digit_facts sep_facts)
  next
    case ge10: False
    show ?thesis
    proof (cases "n < 100")
      case True
      then have "n div 10 < 10" "n div 10 \<noteq> 0" using ge10 by auto
      with True ge10 assms show ?thesis by (simp add: dec_nat_byte dec_digit_facts sep_facts)
    next
      case False
      have "n div 100 < 10" "n div 100 \<noteq> 0" using False assms by auto
      moreover have "n div 100 * 10 + n div 10 mod 10 = n div 10"
        using div_mult_mod_eq [of "n div 10" 10] by (simp add: div_mult2_eq [symmetric])
      moreover have "n div 10 \<noteq> 0" "n div 10 \<le> 255" using False assms by auto
      ultimately show ?thesis using False ge10 assms
        by (simp add: dec_nat_byte dec_digit_facts sep_facts)
    qed
  qed
qed

lemma p4_last:
  assumes "n < 256" "length fs = 3"
  shows "p4_loop (dec_nat n) pd 0 0 fs = Some (fs @ [n])"
proof -
  have [simp]: "n div 10 mod 10 < 10" by simp
  show ?thesis
  proof (cases "n < 10")
    case True
    with assms show ?thesis by (simp add: dec_nat_byte dec_digit_facts)
  next
    case ge10: False
    show ?thesis
    proof (cases "n < 100")
      case True
      then have "n div 10 < 10" "n div 10 \<noteq> 0" using ge10 by auto
      with True ge10 assms show ?thesis by (simp add: dec_nat_byte dec_digit_facts)
    next
      case False
      have "n div 100 < 10" "n div 100 \<noteq> 0" using False assms by auto
      moreover have "n div 100 * 10 + n div 10 mod 10 = n div 10"
        using div_mult_mod_eq [of "n div 10" 10] by (simp add: div_mult2_eq [symmetric])
      moreover have "n div 10 \<noteq> 0" "n div 10 \<le> 255" using False assms by auto
      ultimately show ?thesis using False ge10 assms
        by (simp add: dec_nat_byte dec_digit_facts)
    qed
  qed
qed

lemma octets: "base_digits 256 4 n = [n div 16777216 mod 256, n div 65536 mod 256, n div 256 mod 256, n mod 256]"
proof -
  have "(4::nat) = Suc (Suc (Suc (Suc 0)))" by simp
  then show ?thesis by (simp only: base_digits.simps) (simp add: div_mult2_eq [symmetric])
qed

lemma string4_octets:
  "string4 n = dec_nat (n div 16777216 mod 256) @ CHR ''.'' # dec_nat (n div 65536 mod 256)
     @ CHR ''.'' # dec_nat (n div 256 mod 256) @ CHR ''.'' # dec_nat (n mod 256)"
  by (simp add: string4_def octets)

lemma parse_string4: "parseIPv4Fields (string4 n) = Some (base_digits 256 4 n)"
  by (simp add: parseIPv4Fields_def string4_octets p4_octet p4_last octets)

subsection \<open>Groups of hexadecimal digits\<close>

lemma p6_hex_group:
  assumes "n < 65536" "rest = [] \<or> hexval (hd rest) = None"
  shows "\<exists>off > 0. p6_hex (hex_nat n @ rest) 0 0 = Some (n, off, rest)"
proof -
  have stop: "p6_hex rest off acc = Some (acc, off, rest)" for off acc
    using assms(2) by (cases rest) auto
  have [simp]: "n div 256 * 16 + n div 16 mod 16 = n div 16" "n div 4096 * 16 + n div 256 mod 16 = n div 256"
    using div_mult_mod_eq [of "n div 16" 16] div_mult_mod_eq [of "n div 256" 16]
    by (simp_all add: div_mult2_eq [symmetric])
  have le: "n div 16 \<le> 65535" "n div 256 \<le> 65535" "n div 4096 \<le> 65535" "n div 4096 < 16"
    using assms(1) by auto
  consider "n < 16" | "16 \<le> n" "n < 256" | "256 \<le> n" "n < 4096" | "4096 \<le> n" by linarith
  then show ?thesis
  proof cases
    case 1
    with assms(1) show ?thesis by (simp add: hex_nat_group hex_digit_facts stop)
  next
    case 2
    then have "n div 16 < 16" by auto
    with 2 assms(1) le show ?thesis by (simp add: hex_nat_group hex_digit_facts stop)
  next
    case 3
    then have "n div 256 < 16" by auto
    with 3 assms(1) le show ?thesis by (simp add: hex_nat_group hex_digit_facts stop)
  next
    case 4
    with assms(1) le show ?thesis by (simp add: hex_nat_group hex_digit_facts stop)
  qed
qed

lemma p6_loop_group:
  assumes "n < 65536" "length gs < 8"
  shows "p6_loop (hex_nat n) gs ell = Some ([], gs @ [n], ell)"
    and "hexval c = Some d \<Longrightarrow> p6_loop (hex_nat n @ CHR '':'' # c # r) gs ell = p6_loop (c # r) (gs @ [n]) ell"
    and "p6_loop (hex_nat n @ '':'' @ '':'' @ []) gs None = Some ([], gs @ [n], Some (length gs + 1))"
    and "r \<noteq> [] \<Longrightarrow> p6_loop (hex_nat n @ '':'' @ '':'' @ r) gs None
       = p6_loop r (gs @ [n]) (Some (length gs + 1))"
proof -
  show "p6_loop (hex_nat n) gs ell = Some ([], gs @ [n], ell)"
    using p6_hex_group [OF assms(1), of "[]"] assms(2) by (subst p6_loop.simps) auto
  show "p6_loop (hex_nat n @ CHR '':'' # c # r) gs ell = p6_loop (c # r) (gs @ [n]) ell"
    if "hexval c = Some d"
  proof -
    have "c \<noteq> CHR '':''" using that sep_facts by auto
    with p6_hex_group [OF assms(1), of "CHR '':'' # c # r"] assms(2) show ?thesis
      by (subst p6_loop.simps) (auto simp: sep_facts)
  qed
  show "p6_loop (hex_nat n @ '':'' @ '':'' @ []) gs None = Some ([], gs @ [n], Some (length gs + 1))"
    using p6_hex_group [OF assms(1), of "''::''"] assms(2)
    by (subst p6_loop.simps) (auto simp: sep_facts)
  show "p6_loop (hex_nat n @ '':'' @ '':'' @ r) gs None = p6_loop r (gs @ [n]) (Some (length gs + 1))"
    if "r \<noteq> []"
    using p6_hex_group [OF assms(1), of "'':'' @ '':'' @ r"] assms(2) that
    by (subst p6_loop.simps) (auto simp: sep_facts)
qed

lemma join_Cons: "xs \<noteq> [] \<Longrightarrow> join sep (x # xs) = x @ sep @ join sep xs"
  by (cases xs) simp_all

lemma join_hex_hd:
  assumes "xs \<noteq> []"
  obtains c r d where "join sep (map hex_nat xs) @ s = c # r" "hexval c = Some d"
proof -
  obtain x ys where xs: "xs = x # ys" using assms by (cases xs) auto
  obtain c r where c: "hex_nat x = c # r" by (cases "hex_nat x") (use dec_nat_nonempty in auto)
  then have "c \<in> hex_digit ` {..<16}" using hex_nat_chars [of x] by auto
  then obtain d where "hexval c = Some d" using hex_digit_facts(1) by auto
  moreover have "\<exists>r'. join sep (map hex_nat xs) @ s = c # r'"
    using c by (cases ys) (simp_all add: xs)
  ultimately show ?thesis using that by blast
qed

lemma p6_loop_join:
  assumes "xs \<noteq> []" "\<forall>x \<in> set xs. x < 65536" "length gs + length xs \<le> 8"
  shows "p6_loop (join '':'' (map hex_nat xs)) gs ell = Some ([], gs @ xs, ell)"
  using assms
proof (induction xs arbitrary: gs)
  case (Cons x xs)
  show ?case
  proof (cases "xs = []")
    case True
    with Cons.prems show ?thesis by (simp add: p6_loop_group)
  next
    case False
    obtain c r d where c: "join '':'' (map hex_nat xs) @ [] = c # r" "hexval c = Some d"
      using False by (rule join_hex_hd)
    have "p6_loop (join '':'' (map hex_nat (x # xs))) gs ell = p6_loop (c # r) (gs @ [x]) ell"
      using False c Cons.prems by (simp add: join_Cons p6_loop_group(2) [OF _ _ c(2)])
    also have "\<dots> = Some ([], (gs @ [x]) @ xs, ell)"
      using Cons.IH [of "gs @ [x]"] False c Cons.prems by simp
    finally show ?thesis by simp
  qed
qed simp

lemma p6_loop_ellipsis:
  assumes "xs \<noteq> []" "\<forall>x \<in> set (xs @ ys). x < 65536" "length gs + length xs + length ys \<le> 8"
  shows "p6_loop (join '':'' (map hex_nat xs) @ ''::'' @ join '':'' (map hex_nat ys)) gs None
    = Some ([], gs @ xs @ ys, Some (length gs + length xs))"
  using assms
proof (induction xs arbitrary: gs)
  case (Cons x xs)
  show ?case
  proof (cases "xs = []")
    case True
    show ?thesis
    proof (cases "ys = []")
      case ys: True
      then show ?thesis using True Cons.prems p6_loop_group(3) [of x gs] by simp
    next
      case ys: False
      then obtain c r d where c: "join '':'' (map hex_nat ys) @ [] = c # r" "hexval c = Some d"
        by (rule join_hex_hd)
      then have "join '':'' (map hex_nat ys) \<noteq> []" by simp
      then have "p6_loop (hex_nat x @ ''::'' @ join '':'' (map hex_nat ys)) gs None
          = p6_loop (join '':'' (map hex_nat ys)) (gs @ [x]) (Some (length gs + 1))"
        using p6_loop_group(4) [of x gs] Cons.prems by simp
      also have "\<dots> = Some ([], (gs @ [x]) @ ys, Some (length gs + 1))"
        using ys True Cons.prems by (intro p6_loop_join) simp_all
      finally show ?thesis using True by simp
    qed
  next
    case False
    obtain c r d where c: "join '':'' (map hex_nat xs) @ ''::'' @ join '':'' (map hex_nat ys) = c # r"
      "hexval c = Some d"
      using False by (rule join_hex_hd)
    have "p6_loop (join '':'' (map hex_nat (x # xs)) @ ''::'' @ join '':'' (map hex_nat ys)) gs None
        = p6_loop (c # r) (gs @ [x]) None"
      using False c Cons.prems by (simp add: join_Cons p6_loop_group(2) [OF _ _ c(2)])
    also have "\<dots> = Some ([], (gs @ [x]) @ xs @ ys, Some (length (gs @ [x]) + length xs))"
      using Cons.IH [of "gs @ [x]"] False c Cons.prems by simp
    finally show ?thesis by simp
  qed
qed simp

subsection \<open>The elided run\<close>

lemma zero_run_zeros:
  "j < zero_run gs i \<Longrightarrow> i + j < length gs \<and> gs ! (i + j) = 0"
proof -
  assume j: "j < zero_run gs i"
  define ws where "ws = takeWhile (\<lambda>g. g = 0) (drop i gs)"
  have jl: "j < length ws" using j by (simp add: zero_run_def ws_def)
  also have "length ws \<le> length (drop i gs)" unfolding ws_def by (rule length_takeWhile_le)
  finally have "j < length gs - i" by simp
  moreover have "ws ! j = drop i gs ! j" using jl by (simp add: ws_def takeWhile_nth)
  moreover have "ws ! j = 0" using nth_mem [OF jl] set_takeWhileD by (fastforce simp: ws_def)
  ultimately show ?thesis by simp
qed

definition run_ok :: "nat list \<Rightarrow> nat \<times> nat \<Rightarrow> bool" where
  "run_ok gs r \<longleftrightarrow> r = (255, 255) \<or>
     (fst r + 2 \<le> snd r \<and> snd r \<le> length gs \<and> (\<forall>i. fst r \<le> i \<and> i < snd r \<longrightarrow> gs ! i = 0))"

lemma zero_run_ok:
  assumes "2 \<le> zero_run gs i"
  shows "run_ok gs (i, i + zero_run gs i)"
proof -
  have "i + zero_run gs i \<le> length gs"
  proof -
    have "i + (zero_run gs i - 1) < length gs"
      using zero_run_zeros [of "zero_run gs i - 1" gs i] assms by simp
    then show ?thesis by linarith
  qed
  moreover have "gs ! k = 0" if "i \<le> k" "k < i + zero_run gs i" for k
    using zero_run_zeros [of "k - i" gs i] that by simp
  ultimately show ?thesis using assms by (simp add: run_ok_def)
qed

lemma best_run_ok: "run_ok gs (best_run gs)"
proof -
  define step where "step = (\<lambda>(zs, ze) i. let l = zero_run gs i in
      if l \<ge> 2 \<and> l > ze - zs then (i, i + l) else (zs, ze))"
  have "run_ok gs (foldl step r js)" if "run_ok gs r" for r and js :: "nat list"
    using that
  proof (induction js arbitrary: r)
    case (Cons i js)
    have "run_ok gs (step r i)"
      using Cons.prems zero_run_ok by (cases r) (simp add: step_def Let_def)
    then show ?case using Cons.IH by simp
  qed simp
  moreover have "run_ok gs (255, 255)" by (simp add: run_ok_def)
  ultimately show ?thesis by (simp add: best_run_def step_def)
qed

lemma run_split:
  assumes "zs \<le> ze" "ze \<le> length gs" "\<forall>i. zs \<le> i \<and> i < ze \<longrightarrow> gs ! i = 0"
  shows "take zs gs @ replicate (ze - zs) 0 @ drop ze gs = gs"
proof (rule nth_equalityI)
  show "length (take zs gs @ replicate (ze - zs) 0 @ drop ze gs) = length gs"
    using assms by simp
  fix i assume "i < length (take zs gs @ replicate (ze - zs) 0 @ drop ze gs)"
  then show "(take zs gs @ replicate (ze - zs) 0 @ drop ze gs) ! i = gs ! i"
    using assms by (auto simp: nth_append)
qed

lemma lead_hex:
  assumes "xs \<noteq> []"
  shows "take 2 (join '':'' (map hex_nat xs) @ s) \<noteq> ''::''"
proof -
  obtain c r d where c: "join '':'' (map hex_nat xs) @ s = c # r" "hexval c = Some d"
    using assms by (rule join_hex_hd)
  then have "c \<noteq> CHR '':''" using sep_facts by auto
  then show ?thesis unfolding c(1) by (simp add: numeral_2_eq_2)
qed

lemma parse6_string6:
  assumes "length gs = 8" "\<forall>g \<in> set gs. g < 65536"
  shows "parse6_groups (string6_groups gs) = Some gs"
proof -
  obtain zs ze where run: "best_run gs = (zs, ze)" by (cases "best_run gs")
  with best_run_ok [of gs] have ok: "run_ok gs (zs, ze)" by simp
  show ?thesis
  proof (cases "zs = 255")
    case True
    have "gs \<noteq> []" using assms by auto
    with lead_hex [of gs "[]"] p6_loop_join [of gs "[]" None] assms True run show ?thesis
      by (simp add: string6_groups_def parse6_groups_def Let_def expand_ellipsis_def)
  next
    case False
    with ok assms have z: "zs + 2 \<le> ze" "ze \<le> 8" "\<forall>i. zs \<le> i \<and> i < ze \<longrightarrow> gs ! i = 0"
      by (auto simp: run_ok_def)
    define xs ys where "xs = take zs gs" and "ys = drop ze gs"
    have gs: "xs @ replicate (ze - zs) 0 @ ys = gs"
      unfolding xs_def ys_def using z assms by (intro run_split) auto
    have len: "length xs = zs" "length ys = 8 - ze" using z assms by (auto simp: xs_def ys_def)
    have bound: "\<forall>x \<in> set (xs @ ys). x < 65536"
      using assms(2) by (auto simp: xs_def ys_def dest: in_set_takeD in_set_dropD)
    have str: "string6_groups gs = join '':'' (map hex_nat xs) @ ''::'' @ join '':'' (map hex_nat ys)"
      using run False by (simp add: string6_groups_def xs_def ys_def)
    have expand: "expand_ellipsis (xs @ ys) (Some zs) = Some gs"
    proof -
      have "8 - length (xs @ ys) = ze - zs" "length (xs @ ys) < 8" using len z by auto
      then show ?thesis using len gs by (simp add: expand_ellipsis_def)
    qed
    show ?thesis
    proof (cases "xs = []")
      case True
      show ?thesis
      proof (cases "ys = []")
        case ys: True
        with True gs have "gs = replicate (ze - zs) 0" by simp
        with assms(1) have "gs = replicate 8 0" by (metis length_replicate)
        with True ys str show ?thesis by (simp add: parse6_groups_def)
      next
        case ys: False
        then obtain c r d where c: "join '':'' (map hex_nat ys) @ [] = c # r" "hexval c = Some d"
          by (rule join_hex_hd)
        then have ne: "join '':'' (map hex_nat ys) \<noteq> []" by simp
        have "p6_loop (join '':'' (map hex_nat ys)) [] (Some 0) = Some ([], ys, Some 0)"
          using p6_loop_join [of ys "[]" "Some 0"] ys bound len z by simp
        with True str ne expand len show ?thesis
          by (simp add: parse6_groups_def Let_def numeral_2_eq_2)
      qed
    next
      case False
      have "p6_loop (string6_groups gs) [] None = Some ([], xs @ ys, Some zs)"
        using p6_loop_ellipsis [of xs ys "[]"] False bound len z str by simp
      with lead_hex [OF False] str expand show ?thesis
        by (simp add: parse6_groups_def Let_def)
    qed
  qed
qed

text \<open>An IPv4-mapped address.\<close>

lemma expand_mapped: "expand_ellipsis [x, y, z] (Some 0) = Some [0, 0, 0, 0, 0, x, y, z]"
  by (simp add: expand_ellipsis_def eval_nat_numeral)

lemma parse6_mapped:
  "parse6_groups (''::ffff:'' @ string4 n) =
     Some [0, 0, 0, 0, 0, 65535, n div 16777216 mod 256 * 256 + n div 65536 mod 256,
           n div 256 mod 256 * 256 + n mod 256]"
proof -
  define a r where "a = n div 16777216 mod 256" and "r = dec_nat (n div 65536 mod 256)
     @ CHR ''.'' # dec_nat (n div 256 mod 256) @ CHR ''.'' # dec_nat (n mod 256)"
  have s: "string4 n = dec_nat a @ CHR ''.'' # r" by (simp add: string4_octets a_def r_def)
  have a: "a < 1000" using mod_less_divisor [of 256 "n div 16777216"] by (simp add: a_def)
  have hex: "\<exists>acc off. off > 0 \<and> p6_hex (dec_nat a @ CHR ''.'' # r) 0 0 = Some (acc, off, CHR ''.'' # r)"
  proof -
    have [simp]: "a div 10 mod 10 < 16" "a mod 10 < 16" by (auto intro: less_trans [of _ 10])
    consider "a < 10" | "10 \<le> a" "a < 100" | "100 \<le> a" by linarith
    then show ?thesis
    proof cases
      case 1
      with a show ?thesis by (simp add: dec_nat_byte hex_digit_facts sep_facts)
    next
      case 2
      then have "a div 10 < 16" by auto
      moreover have "a mod 10 < 10" by simp
      ultimately have "a div 10 * 16 + a mod 10 \<le> 65535" by linarith
      with 2 a \<open>a div 10 < 16\<close> show ?thesis by (simp add: dec_nat_byte hex_digit_facts sep_facts)
    next
      case 3
      from a have "a div 100 < 10" by auto
      have "(x * 16 + y) * 16 + z \<le> 65535" if "x < 10" "y < 10" "z < 10" for x y z :: nat
        using that by presburger
      from this [OF \<open>a div 100 < 10\<close>, of "a div 10 mod 10" "a mod 10"]
      have "(a div 100 * 16 + a div 10 mod 10) * 16 + a mod 10 \<le> 65535" by simp
      with 3 a \<open>a div 100 < 10\<close> show ?thesis
        by (simp add: dec_nat_byte hex_digit_facts sep_facts)
    qed
  qed
  have tail: "p6_loop (string4 n) [65535] (Some 0) =
      Some ([], [65535, a * 256 + n div 65536 mod 256, n div 256 mod 256 * 256 + n mod 256], Some 0)"
    using hex parse_string4 [of n] s
    by (subst p6_loop.simps) (auto simp: octets a_def)
  obtain c q where c: "dec_nat a = c # q" by (cases "dec_nat a") auto
  then have "c \<in> hex_digit ` {..<10}" using dec_nat_chars [of a] by auto
  then obtain d where d: "hexval c = Some d" using hex_digit_facts(1) by auto
  have f: "hex_nat 65535 = ''ffff''" by code_simp
  have "p6_loop (''ffff:'' @ string4 n) [] (Some 0) = p6_loop (string4 n) [65535] (Some 0)"
    using p6_loop_group(2) [of 65535 "[]" c d "q @ CHR ''.'' # r" "Some 0"] d c s by (simp add: f)
  moreover have "take 2 (''::ffff:'' @ string4 n) = ''::''" "drop 2 (''::ffff:'' @ string4 n) = ''ffff:'' @ string4 n"
    by (simp_all add: numeral_2_eq_2)
  moreover have "''ffff:'' @ string4 n \<noteq> []" by simp
  ultimately show ?thesis
    unfolding parse6_groups_def Let_def by (simp only: tail a_def) (simp add: expand_mapped)
qed

subsection \<open>Addresses\<close>

lemma parse_scan_first:
  assumes "\<forall>c \<in> set pre. c \<notin> {CHR '':'', CHR ''.'', CHR ''%''}"
  shows "parse_scan (pre @ CHR '':'' # r) inp = parseIPv6 inp"
    "parse_scan (pre @ CHR ''.'' # r) inp = parseIPv4 inp"
  using assms by (induction pre) auto

lemma digits_no_sep:
  "\<forall>c \<in> set (dec_nat n). c \<notin> {CHR '':'', CHR ''.'', CHR ''%'', CHR ''/'', CHR ''-''}"
  "\<forall>c \<in> set (hex_nat n). c \<notin> {CHR '':'', CHR ''.'', CHR ''%'', CHR ''/'', CHR ''-''}"
proof -
  have hex: "c \<notin> {CHR '':'', CHR ''.'', CHR ''%'', CHR ''/'', CHR ''-''}"
    if "c \<in> hex_digit ` {..<16}" for c
  proof -
    from that obtain d where d: "c = hex_digit d" "d < 16" by auto
    show ?thesis unfolding d(1) using d(2) by (rule hex_digit_facts(2))
  qed
  have dec: "set (dec_nat n) \<subseteq> hex_digit ` {..<16}" using dec_nat_chars [of n] by fastforce
  show "\<forall>c \<in> set (dec_nat n). c \<notin> {CHR '':'', CHR ''.'', CHR ''%'', CHR ''/'', CHR ''-''}"
    by (intro ballI hex) (rule subsetD [OF dec])
  show "\<forall>c \<in> set (hex_nat n). c \<notin> {CHR '':'', CHR ''.'', CHR ''%'', CHR ''/'', CHR ''-''}"
    by (intro ballI hex) (rule subsetD [OF hex_nat_chars])
qed

text \<open>Characters that no printed address contains.\<close>

abbreviation plain :: "string \<Rightarrow> bool" where
  "plain s \<equiv> set s \<inter> {CHR ''%'', CHR ''/'', CHR ''-''} = {}"

lemma plain_digits: "plain (dec_nat n)" "plain (hex_nat n)"
  using digits_no_sep [of n] by auto

lemma plain_join: "plain sep \<Longrightarrow> \<forall>x \<in> set xs. plain x \<Longrightarrow> plain (join sep xs)"
  by (induction sep xs rule: join.induct) auto

lemma plain_string4: "plain (string4 n)"
  unfolding string4_def by (rule plain_join) (use plain_digits in auto)

lemma plain_string6: "plain (string6_groups gs)"
proof -
  have "plain (join '':'' (map hex_nat xs))" for xs
    by (rule plain_join) (use plain_digits in auto)
  then show ?thesis by (auto simp: string6_groups_def split: prod.splits)
qed

lemma plain_Addr_String:
  assumes "zoneless a"
  shows "plain (Addr_String a)"
proof (cases a)
  case ZeroAddr
  with assms show ?thesis by (simp add: zoneless_def)
next
  case (V4 w)
  then show ?thesis using plain_string4 by simp
next
  case (V6 w z)
  with assms plain_string4 plain_string6 show ?thesis by (auto simp: zoneless_def)
qed

lemma parseIPv6_plain:
  assumes "CHR ''%'' \<notin> set s"
  shows "parseIPv6 s = map_option (\<lambda>gs. V6 (word_of_nat (from_base 65536 gs)) []) (parse6_groups s)"
proof -
  have "takeWhile (\<lambda>c. c \<noteq> CHR ''%'') s = s" using assms by (induction s) auto
  then show ?thesis unfolding parseIPv6_def Let_def using assms by (simp only: simp_thms if_False)
qed

lemma string6_colon:
  assumes "length gs = 8"
  obtains pre r where "string6_groups gs = pre @ CHR '':'' # r"
    "\<forall>c \<in> set pre. c \<notin> {CHR '':'', CHR ''.'', CHR ''%''}"
proof -
  have first: "\<exists>pre r. join '':'' (map hex_nat xs) @ ''::'' @ s = pre @ CHR '':'' # r
      \<and> (\<forall>c \<in> set pre. c \<notin> {CHR '':'', CHR ''.'', CHR ''%''})" for xs s
  proof (cases xs)
    case Nil
    then show ?thesis by (intro exI [of _ "[]"] exI [of _ "CHR '':'' # s"]) simp
  next
    case (Cons x ys)
    then have "\<exists>r. join '':'' (map hex_nat xs) @ ''::'' @ s = hex_nat x @ CHR '':'' # r"
      by (cases ys) auto
    then show ?thesis using digits_no_sep(2) [of x] by blast
  qed
  obtain x y ys where gs: "gs = x # y # ys"
    using assms by (metis length_0_conv length_Cons neq_Nil_conv numeral_eq_one_iff
      One_nat_def semiring_norm(83) zero_neq_numeral)
  have "\<exists>r. join '':'' (map hex_nat gs) = hex_nat x @ CHR '':'' # r" by (simp add: gs)
  then have full: "\<exists>pre r. join '':'' (map hex_nat gs) = pre @ CHR '':'' # r
      \<and> (\<forall>c \<in> set pre. c \<notin> {CHR '':'', CHR ''.'', CHR ''%''})"
    using digits_no_sep(2) [of x] by blast
  obtain zs ze where "best_run gs = (zs, ze)" by (cases "best_run gs")
  then have "\<exists>pre r. string6_groups gs = pre @ CHR '':'' # r
      \<and> (\<forall>c \<in> set pre. c \<notin> {CHR '':'', CHR ''.'', CHR ''%''})"
    using full first [of "take zs gs" "join '':'' (map hex_nat (drop ze gs))"]
    by (simp add: string6_groups_def)
  with that show ?thesis by blast
qed

lemma word_groups:
  "word_of_nat (from_base 256 (base_digits 256 4 (unat w))) = (w :: 32 word)"
  "word_of_nat (from_base 65536 (base_digits 65536 8 (unat u))) = (u :: 128 word)"
proof -
  have "unat w < 2 ^ 32" "unat u < 2 ^ 128"
    using unsigned_less [of w, where ?'a = nat] unsigned_less [of u, where ?'a = nat] by simp_all
  moreover have "(256::nat) ^ 4 = 2 ^ 32" "(65536::nat) ^ 8 = 2 ^ 128" by simp_all
  ultimately show "word_of_nat (from_base 256 (base_digits 256 4 (unat w))) = w"
    "word_of_nat (from_base 65536 (base_digits 65536 8 (unat u))) = u"
    by (simp_all only: from_base_digits mod_less) simp_all
qed

lemma mapped_value:
  assumes "n < 2 ^ 32"
  shows "from_base 65536 [0, 0, 0, 0, 0, 65535, n div 16777216 mod 256 * 256 + n div 65536 mod 256,
      n div 256 mod 256 * 256 + n mod 256] = 65535 * 2 ^ 32 + n"
proof -
  have bytes: "from_base 65536 [0, 0, 0, 0, 0, 65535, a * 256 + b, c * 256 + d]
      = 65535 * 2 ^ 32 + from_base 256 [a, b, c, d]" for a b c d
    by (simp add: from_base_def algebra_simps)
  have "from_base 256 (base_digits 256 4 n) = n"
    using assms by (simp add: from_base_digits)
  then show ?thesis unfolding bytes octets by simp
qed

lemma ParseAddr_Addr_String:
  assumes "zoneless a"
  shows "ParseAddr (Addr_String a) = Inr a"
proof (cases a)
  case ZeroAddr
  with assms show ?thesis by (simp add: zoneless_def)
next
  case (V4 w)
  define n where "n = unat w"
  have "parse_scan (string4 n) (string4 n) = parseIPv4 (string4 n)"
    unfolding string4_octets by (rule parse_scan_first) (use digits_no_sep(1) in auto)
  then show ?thesis using V4 word_groups(1) [of w]
    by (simp add: ParseAddr_def parseIPv4_def parse_string4 n_def)
next
  case (V6 w z)
  with assms have z: "z = []" by (simp add: zoneless_def)
  have nz: "CHR ''%'' \<notin> set (Addr_String a)" using plain_Addr_String [OF assms] by auto
  show ?thesis
  proof (cases "unat w div 2 ^ 32 = 65535")
    case True
    define m where "m = unat w mod 2 ^ 32"
    have s: "Addr_String a = ''::ffff:'' @ string4 m" using V6 z True by (simp add: m_def)
    have m: "m < 2 ^ 32" by (simp add: m_def)
    have "65535 * 2 ^ 32 + m = unat w"
      unfolding m_def True [symmetric] by (rule div_mult_mod_eq)
    then have "parseIPv6 (Addr_String a) = Some (V6 w [])"
      unfolding parseIPv6_plain [OF nz] unfolding s parse6_mapped
      using mapped_value [OF m] by simp
    moreover have "parse_scan (Addr_String a) (Addr_String a) = parseIPv6 (Addr_String a)"
      unfolding s using parse_scan_first(1) [of "[]"] by simp
    ultimately show ?thesis using V6 z by (simp add: ParseAddr_def)
  next
    case False
    define gs where "gs = base_digits 65536 8 (unat w)"
    have s: "Addr_String a = string6_groups gs" using V6 z False by (simp add: gs_def)
    have gs: "length gs = 8" "\<forall>g \<in> set gs. g < 65536"
      by (auto simp: gs_def base_digits_bound)
    obtain pre r where "string6_groups gs = pre @ CHR '':'' # r"
      "\<forall>c \<in> set pre. c \<notin> {CHR '':'', CHR ''.'', CHR ''%''}"
      using gs(1) by (rule string6_colon)
    then have "parse_scan (Addr_String a) (Addr_String a) = parseIPv6 (Addr_String a)"
      unfolding s using parse_scan_first(1) by metis
    moreover have "parseIPv6 (Addr_String a) = Some (V6 w [])"
      unfolding parseIPv6_plain [OF nz] unfolding s parse6_string6 [OF gs]
      using word_groups(2) [of w] by (simp add: gs_def)
    ultimately show ?thesis using V6 z by (simp add: ParseAddr_def)
  qed
qed

subsection \<open>Prefixes\<close>

lemma digit_not_special:
  assumes "d < 10"
  shows "hex_digit d \<noteq> CHR ''-''" "hex_digit d \<noteq> CHR ''+''" "0 < d \<Longrightarrow> hex_digit d \<noteq> CHR ''0''"
proof -
  have no: "\<not> is_digit (CHR ''-'')" "\<not> is_digit (CHR ''+'')" "digit_val (CHR ''0'') = 0" by code_simp+
  show "hex_digit d \<noteq> CHR ''-''"
  proof
    assume "hex_digit d = CHR ''-''"
    with dec_digit_facts(1) [OF assms] no(1) show False by simp
  qed
  show "hex_digit d \<noteq> CHR ''+''"
  proof
    assume "hex_digit d = CHR ''+''"
    with dec_digit_facts(1) [OF assms] no(2) show False by simp
  qed
  show "hex_digit d \<noteq> CHR ''0''" if "0 < d"
  proof
    assume "hex_digit d = CHR ''0''"
    with dec_digit_facts(2) [OF assms] no(3) that show False by simp
  qed
qed

lemma itoa_bits:
  assumes "n \<le> 128"
  shows "Atoi (itoa (int n)) = Some (int n)"
    "length (itoa (int n)) > 1 \<Longrightarrow> is_digit (hd (itoa (int n))) \<and> hd (itoa (int n)) \<noteq> CHR ''0''"
proof -
  have i: "itoa (int n) = dec_nat n" by (simp add: itoa_def)
  have m: "n mod 10 < 10" "n div 10 mod 10 < 10" "n div 100 < 10" using assms by auto
  have max: "int n \<le> max_int" using assms by (simp add: max_int_def)
  have "Atoi (itoa (int n)) = Some (int n) \<and> (length (itoa (int n)) > 1 \<longrightarrow>
      is_digit (hd (itoa (int n))) \<and> hd (itoa (int n)) \<noteq> CHR ''0'')"
  proof -
    consider "n < 10" | "10 \<le> n" "n < 100" | "100 \<le> n" by linarith
    then show ?thesis
    proof cases
      case 1
      then show ?thesis using max
        by (simp add: i dec_nat_byte Atoi_def Let_def digit_not_special dec_digit_facts)
    next
      case 2
      then have "n div 10 < 10" "0 < n div 10" by auto
      with 2 max m show ?thesis
        by (simp add: i dec_nat_byte Atoi_def Let_def digit_not_special dec_digit_facts)
    next
      case 3
      then have "0 < n div 100" by auto
      moreover have "n div 100 * 10 + n div 10 mod 10 = n div 10"
        using div_mult_mod_eq [of "n div 10" 10] by (simp add: div_mult2_eq [symmetric])
      ultimately show ?thesis using 3 max m assms
        by (simp add: i dec_nat_byte Atoi_def Let_def digit_not_special dec_digit_facts)
    qed
  qed
  then show "Atoi (itoa (int n)) = Some (int n)"
    "length (itoa (int n)) > 1 \<Longrightarrow> is_digit (hd (itoa (int n))) \<and> hd (itoa (int n)) \<noteq> CHR ''0''"
    by blast+
qed

lemma split_last_slash_append:
  assumes "CHR ''/'' \<notin> set t"
  shows "split_last_slash (s @ CHR ''/'' # t) = Some (s, t)"
proof -
  let ?P = "\<lambda>c. c \<noteq> CHR ''/''"
  have "dropWhile ?P (rev t @ CHR ''/'' # rev s) = dropWhile ?P (CHR ''/'' # rev s)"
    by (rule dropWhile_append2) (use assms in auto)
  moreover have "takeWhile ?P (rev t @ CHR ''/'' # rev s) = rev t @ takeWhile ?P (CHR ''/'' # rev s)"
    by (rule takeWhile_append2) (use assms in auto)
  ultimately show ?thesis by (simp add: split_last_slash_def)
qed

lemma ParsePrefix_Addr_String:
  assumes "zoneless a" "0 \<le> b" "b \<le> BitLen a"
  shows "ParsePrefix (Addr_String a @ ''/'' @ itoa b) = Inr (PrefixFrom a b)"
proof -
  define n where "n = nat b"
  have "BitLen a \<le> 128" by (cases a) simp_all
  then have n: "b = int n" "n \<le> 128" using assms by (simp_all add: n_def)
  have z: "Zone a = []" using assms(1) by (simp add: zoneless_def)
  have "(if Is6 a then 128 else 32) = BitLen a" using assms(1) by (cases a) (simp_all add: zoneless_def)
  with assms(3) have le: "\<not> b > (if Is6 a then 128 else 32)" by simp
  have "split_last_slash (Addr_String a @ ''/'' @ itoa b) = Some (Addr_String a, itoa b)"
    using split_last_slash_append [of "itoa b" "Addr_String a"] digits_no_sep(1) [of n] n(1)
    by (auto simp: itoa_def)
  then show ?thesis
    using itoa_bits [OF n(2)] n(1) z le assms(2)
    by (simp add: ParsePrefix_def ParseAddr_Addr_String [OF assms(1)])
qed

text \<open>A prefix length beyond the length of the address is refused.\<close>

lemma digits_val_dec_nat: "digits_val (dec_nat n @ cs) 0 = digits_val cs n"
proof (induction n arbitrary: cs rule: dec_nat.induct)
  case (1 n)
  show ?case
  proof (cases "n < 10")
    case True
    then show ?thesis by (subst dec_nat.simps) (simp add: dec_digit_facts)
  next
    case False
    then have "digits_val (dec_nat n @ cs) 0 = digits_val (hex_digit (n mod 10) # cs) (n div 10)"
      using 1 [of "hex_digit (n mod 10) # cs"] by (subst dec_nat.simps) simp
    also have "\<dots> = digits_val cs (n div 10 * 10 + n mod 10)"
      by (simp add: dec_digit_facts)
    finally show ?thesis by simp
  qed
qed

lemma Atoi_itoa: "Atoi (itoa (int n)) \<in> {None, Some (int n)}"
proof -
  obtain c r where c: "dec_nat n = c # r" by (cases "dec_nat n") auto
  then have "c \<in> hex_digit ` {..<10}" using dec_nat_chars [of n] by auto
  then obtain d where d: "d < 10" "c = hex_digit d" by auto
  have "digits_val (c # r) 0 = Some n" using digits_val_dec_nat [of n "[]"] c by simp
  then show ?thesis
    using digit_not_special [OF d(1)] d c by (simp add: Atoi_def itoa_def Let_def)
qed

lemma ParsePrefix_too_long:
  assumes "zoneless a" "BitLen a < b"
  shows "\<exists>e. ParsePrefix (Addr_String a @ ''/'' @ itoa b) = Inl e"
proof -
  define n where "n = nat b"
  have n: "b = int n" using assms(2) by (cases a) (simp_all add: n_def)
  have "(if Is6 a then 128 else 32) = BitLen a" using assms(1) by (cases a) (simp_all add: zoneless_def)
  moreover have "split_last_slash (Addr_String a @ ''/'' @ itoa b) = Some (Addr_String a, itoa b)"
    using split_last_slash_append [of "itoa b" "Addr_String a"] digits_no_sep(1) [of n] n
    by (auto simp: itoa_def)
  ultimately show ?thesis
    using Atoi_itoa [of n] n assms(2)
    by (auto simp: ParsePrefix_def ParseAddr_Addr_String [OF assms(1)] split: option.splits)
qed

end
