(* ===== verification/Index.thy ===== *)
theory Index
  imports ApiTypes
begin

text \<open>
  \<open>internal/index/index.go\<close> and \<open>pkg/predicates/references.go\<close>: the cache index of
  addresses and claims by their pool reference, and the filters on pool kinds. An object
  of the cache is one of the kinds of the datatype \<open>api_object\<close>.
\<close>

subsection \<open>Objects and events\<close>

text \<open>\<open>client.Object\<close>: the pools a claim can be served from.\<close>

datatype pool_object = AddressPool generic_pool | PrefixPool generic_prefix_pool

primrec obj_meta :: "pool_object \<Rightarrow> object_meta" where
  "obj_meta (AddressPool p) = pool_meta p"
| "obj_meta (PrefixPool p) = prefix_pool_meta p"

primrec obj_gvk :: "pool_object \<Rightarrow> gvk" where
  "obj_gvk (AddressPool p) = pool_gvk p"
| "obj_gvk (PrefixPool p) = prefix_pool_gvk p"

datatype api_object =
    AddressObject ip_address
  | ClaimObject ip_claim
  | PoolObject pool_object
  | ClusterObject cluster

primrec api_meta :: "api_object \<Rightarrow> object_meta" where
  "api_meta (AddressObject a) = ia_meta a"
| "api_meta (ClaimObject c) = ic_meta c"
| "api_meta (PoolObject p) = obj_meta p"
| "api_meta (ClusterObject c) = cl_meta c"

text \<open>The events of a watch: \<open>event.UpdateEvent\<close> carries the old and the new object.\<close>

datatype api_event =
    CreateEvent api_object
  | DeleteEvent api_object
  | UpdateEvent api_object api_object
  | GenericEvent api_object

subsection \<open>The index\<close>

definition IPAddressPoolRefCombinedField :: string where
  "IPAddressPoolRefCombinedField = ''index.poolRef''"

definition IPAddressClaimPoolRefCombinedField :: string where
  "IPAddressClaimPoolRefCombinedField = ''index.poolRef''"

definition IPPoolRefValue :: "pool_ref \<Rightarrow> string" where
  "IPPoolRefValue ref =
     (let group = (if pr_group ref = [] then ipam_group else pr_group ref)
      in group @ ''/'' @ pr_kind ref @ ''/'' @ pr_name ref)"

fun IPAddressByCombinedPoolRef :: "api_object \<Rightarrow> string list outcome" where
  "IPAddressByCombinedPoolRef (AddressObject ip) = Ok [IPPoolRefValue (ia_pool_ref ip)]"
| "IPAddressByCombinedPoolRef _ = Panic ''Expected an IPAddress''"

fun ipAddressClaimByCombinedPoolRef :: "api_object \<Rightarrow> string list outcome" where
  "ipAddressClaimByCombinedPoolRef (ClaimObject ip) = Ok [IPPoolRefValue (ic_pool_ref ip)]"
| "ipAddressClaimByCombinedPoolRef _ = Panic ''Expected an IPAddressClaim''"

text \<open>
  The index of claims by the name of their cluster (\<open>pkg/ipamutil/reconciler.go\<close>), with a
  constant of the Cluster API.
\<close>

definition ClusterNameLabel :: string where
  "ClusterNameLabel = ''cluster.x-k8s.io/cluster-name''"

fun indexClusterName :: "api_object \<Rightarrow> string list" where
  "indexClusterName (ClaimObject claim) =
     (if ic_cluster_name claim \<noteq> [] then [ic_cluster_name claim]
      else case om_labels (ic_meta claim) ClusterNameLabel of
        Some v \<Rightarrow> if v \<noteq> [] then [v] else []
      | None \<Rightarrow> [])"
| "indexClusterName _ = []"

subsection \<open>Filters on pool kinds\<close>

text \<open>\<open>metav1.GroupKind\<close>: group and kind.\<close>

type_synonym group_kind = "string \<times> string"

fun processIfClaimReferencesPoolKind :: "group_kind \<Rightarrow> api_object \<Rightarrow> bool" where
  "processIfClaimReferencesPoolKind (grp, kind) (ClaimObject claim) =
     (if pr_kind (ic_pool_ref claim) \<noteq> kind \<or> pr_group (ic_pool_ref claim) \<noteq> grp
      then False else True)"
| "processIfClaimReferencesPoolKind _ _ = False"

fun ClaimReferencesPoolKind :: "group_kind \<Rightarrow> api_event \<Rightarrow> bool" where
  "ClaimReferencesPoolKind gk (CreateEvent obj) = processIfClaimReferencesPoolKind gk obj"
| "ClaimReferencesPoolKind gk (DeleteEvent obj) = processIfClaimReferencesPoolKind gk obj"
| "ClaimReferencesPoolKind gk (UpdateEvent old new) = processIfClaimReferencesPoolKind gk new"
| "ClaimReferencesPoolKind gk (GenericEvent obj) = processIfClaimReferencesPoolKind gk obj"

fun processIfAddressReferencesPoolKind :: "group_kind \<Rightarrow> api_object \<Rightarrow> bool" where
  "processIfAddressReferencesPoolKind (grp, kind) (AddressObject addr) =
     (if pr_kind (ia_pool_ref addr) \<noteq> kind \<or> pr_group (ia_pool_ref addr) \<noteq> grp
      then False else True)"
| "processIfAddressReferencesPoolKind _ _ = False"

fun AddressReferencesPoolKind :: "group_kind \<Rightarrow> api_event \<Rightarrow> bool" where
  "AddressReferencesPoolKind gk (CreateEvent obj) = processIfAddressReferencesPoolKind gk obj"
| "AddressReferencesPoolKind gk (DeleteEvent obj) = processIfAddressReferencesPoolKind gk obj"
| "AddressReferencesPoolKind gk (UpdateEvent old new) = processIfAddressReferencesPoolKind gk new"
| "AddressReferencesPoolKind gk (GenericEvent obj) = processIfAddressReferencesPoolKind gk obj"

subsection \<open>The index value separates pools\<close>

lemma append_slash_eq:
  assumes "CHR ''/'' \<notin> set a" "CHR ''/'' \<notin> set b" "a @ CHR ''/'' # r = b @ CHR ''/'' # s"
  shows "a = b \<and> r = s"
  using assms
proof (induction a arbitrary: b)
  case Nil
  then show ?case by (cases b) auto
next
  case (Cons x a)
  then show ?case by (cases b) auto
qed

definition effective_group :: "pool_ref \<Rightarrow> string" where
  "effective_group ref = (if pr_group ref = [] then ipam_group else pr_group ref)"

lemma same_ref_value_iff:
  assumes "CHR ''/'' \<notin> set (pr_group r)" "CHR ''/'' \<notin> set (pr_kind r)"
    and "CHR ''/'' \<notin> set (pr_group s)" "CHR ''/'' \<notin> set (pr_kind s)"
  shows "IPPoolRefValue r = IPPoolRefValue s \<longleftrightarrow>
    effective_group r = effective_group s \<and> pr_kind r = pr_kind s \<and> pr_name r = pr_name s"
proof
  have no: "CHR ''/'' \<notin> set (effective_group r)" "CHR ''/'' \<notin> set (effective_group s)"
    using assms by (auto simp: effective_group_def ipam_group_def)
  have val: "IPPoolRefValue q = effective_group q @ CHR ''/'' # pr_kind q @ CHR ''/'' # pr_name q" for q
    by (simp add: IPPoolRefValue_def effective_group_def Let_def)
  assume "IPPoolRefValue r = IPPoolRefValue s"
  then have "effective_group r = effective_group s"
    and "pr_kind r @ CHR ''/'' # pr_name r = pr_kind s @ CHR ''/'' # pr_name s"
    using append_slash_eq [OF no] by (simp_all add: val)
  with append_slash_eq [OF assms(2,4)]
  show "effective_group r = effective_group s \<and> pr_kind r = pr_kind s \<and> pr_name r = pr_name s" by blast
qed (auto simp: IPPoolRefValue_def effective_group_def)

text \<open>C40: two references have the same index value exactly if they name the same pool: the
  same kind and name, and the same group, where an empty group stands for the default one.
  (API group and kind names contain no slash.)\<close>

theorem IPPoolRefValue_inj:
  assumes "CHR ''/'' \<notin> set (pr_group r)" "CHR ''/'' \<notin> set (pr_kind r)"
    and "CHR ''/'' \<notin> set (pr_group s)" "CHR ''/'' \<notin> set (pr_kind s)"
  shows "IPPoolRefValue r = IPPoolRefValue s \<longleftrightarrow>
    effective_group r = effective_group s \<and> pr_kind r = pr_kind s \<and> pr_name r = pr_name s"
  using assms by (rule same_ref_value_iff)

lemma IPPoolRefValue_inj_witness:
  "let r = \<lparr>pr_group = [], pr_kind = ''InClusterIPPool'', pr_name = ''a''\<rparr>;
       s = \<lparr>pr_group = ipam_group, pr_kind = ''InClusterIPPool'', pr_name = ''a''\<rparr>
   in IPPoolRefValue r = IPPoolRefValue s \<and>
     (IPPoolRefValue r = IPPoolRefValue s \<longleftrightarrow>
      effective_group r = effective_group s \<and> pr_kind r = pr_kind s \<and> pr_name r = pr_name s)"
  unfolding Let_def by (rule conjI, code_simp, rule IPPoolRefValue_inj) code_simp+

end
