(* ===== verification/Kube.thy ===== *)
theory Kube
  imports Index
begin

text \<open>
  The Kubernetes machinery the controllers call (the controller-runtime client,
  \<open>controllerutil\<close>, the Cluster API patch helper and utilities) is not part of the
  repository: it is a parameter, the record \<open>kube\<close> of its functions over a world of type
  \<open>'w\<close>. Reads are functions of the world, writes return the next world. The locale
  \<open>kube_laws\<close> states the documented behaviour over \<open>st_addr\<close> and \<open>st_claim\<close>, the
  addresses and claims the API server stores. \<open>RefKube\<close> interprets it on a concrete store.

  Reads are up to date: the cache the client reads has seen every write. For the addresses
  a reconciliation creates, the code waits until this is so.
\<close>

subsection \<open>Results\<close>

record ctrl_result =
  Requeue :: bool
  RequeueAfter :: int

definition no_result :: ctrl_result where
  "no_result = \<lparr>Requeue = False, RequeueAfter = 0\<rparr>"

text \<open>A run returns, panics, or does not end.\<close>

datatype 'a exec = Done 'a | Panicked string | Diverges

primrec exec_bind :: "'a exec \<Rightarrow> ('a \<Rightarrow> 'b exec) \<Rightarrow> 'b exec" where
  "exec_bind (Done x) f = f x"
| "exec_bind (Panicked m) f = Panicked m"
| "exec_bind Diverges f = Diverges"

definition claim_key :: "ip_claim \<Rightarrow> nsname" where
  "claim_key c = (om_namespace (ic_meta c), om_name (ic_meta c))"

definition address_key :: "ip_address \<Rightarrow> nsname" where
  "address_key a = (om_namespace (ia_meta a), om_name (ia_meta a))"

subsection \<open>The functions of the machinery\<close>

text \<open>
  \<open>k_create_or_patch address mutate\<close> is \<open>controllerutil.CreateOrPatch\<close>. The mutate
  function of the code also assigns the captured variable \<open>res\<close>: it returns that value
  next to its error or the mutated address, and the call passes it on (\<open>None\<close> if
  \<open>mutate\<close> was not called). \<open>k_poll\<close> is \<open>wait.PollUntilContextTimeout\<close>.
\<close>

type_synonym mutate_fn = "ip_address \<Rightarrow> (ctrl_result option \<times> (error + ip_address)) exec"

record 'w kube =
  k_get_claim :: "nsname \<Rightarrow> 'w \<Rightarrow> error + ip_claim"
  k_get_address :: "nsname \<Rightarrow> 'w \<Rightarrow> error + ip_address"
  k_get_ip_pool :: "nsname \<Rightarrow> 'w \<Rightarrow> error + InClusterIPPool"
  k_get_global_ip_pool :: "nsname \<Rightarrow> 'w \<Rightarrow> error + GlobalInClusterIPPool"
  k_get_prefix_pool :: "nsname \<Rightarrow> 'w \<Rightarrow> error + InClusterPrefixPool"
  k_get_global_prefix_pool :: "nsname \<Rightarrow> 'w \<Rightarrow> error + GlobalInClusterPrefixPool"
  k_cluster_by_name :: "string \<Rightarrow> string \<Rightarrow> 'w \<Rightarrow> error + cluster"
  k_cluster_from_metadata :: "object_meta \<Rightarrow> 'w \<Rightarrow> error + cluster"
  k_list_addresses :: "string \<Rightarrow> string \<Rightarrow> string \<Rightarrow> 'w \<Rightarrow> error + ip_address list"
  k_list_claims :: "string \<Rightarrow> string \<Rightarrow> string \<Rightarrow> 'w \<Rightarrow> error + ip_claim list"
  k_patch_address :: "ip_address \<Rightarrow> ip_address \<Rightarrow> 'w \<Rightarrow> 'w \<times> error option"
  k_delete_address :: "ip_address \<Rightarrow> 'w \<Rightarrow> 'w \<times> error option"
  k_create_or_patch :: "ip_address \<Rightarrow> mutate_fn \<Rightarrow> 'w \<Rightarrow>
    'w \<times> (ctrl_result option \<times> (error + ip_address)) exec"
  k_new_claim_helper :: "ip_claim \<Rightarrow> 'w \<Rightarrow> error option"
  k_patch_claim :: "ip_claim \<Rightarrow> ip_claim \<Rightarrow> 'w \<Rightarrow> 'w \<times> error option"
  k_new_pool_helper :: "pool_object \<Rightarrow> 'w \<Rightarrow> error option"
  k_patch_pool :: "pool_object \<Rightarrow> pool_object \<Rightarrow> 'w \<Rightarrow> 'w \<times> error option"
  k_poll :: "('w \<Rightarrow> error + bool) \<Rightarrow> 'w \<Rightarrow> error option"
  k_now :: "'w \<Rightarrow> int"
  k_is_notfound :: "error \<Rightarrow> bool"
  k_is_paused :: "cluster \<Rightarrow> bool"
  k_has_paused :: "object_meta \<Rightarrow> bool"
  k_add_finalizer :: "string \<Rightarrow> object_meta \<Rightarrow> object_meta \<times> bool"
  k_contains_finalizer :: "string \<Rightarrow> object_meta \<Rightarrow> bool"
  k_remove_finalizer :: "string \<Rightarrow> object_meta \<Rightarrow> object_meta \<times> bool"
  k_set_controller_ref :: "ip_claim \<Rightarrow> object_meta \<Rightarrow> error + object_meta"
  k_set_owner_ref :: "pool_object \<Rightarrow> object_meta \<Rightarrow> error + object_meta"
  k_gv_string :: "gvk \<Rightarrow> string"
  k_aggregate :: "error option list \<Rightarrow> error option"

text \<open>The global pools are cluster-scoped: the client ignores the namespace of the key.\<close>

subsection \<open>Documented behaviour\<close>

text \<open>
  An object that is marked for deletion disappears when its last finalizer does.
\<close>

definition settle_address :: "ip_address \<Rightarrow> ip_address option" where
  "settle_address a =
     (if om_deletion (ia_meta a) \<noteq> None \<and> om_finalizers (ia_meta a) = [] then None else Some a)"

definition settle_claim :: "ip_claim \<Rightarrow> ip_claim option" where
  "settle_claim c =
     (if om_deletion (ic_meta c) \<noteq> None \<and> om_finalizers (ic_meta c) = [] then None else Some c)"

text \<open>
  The helpers on metadata and errors. A failed write may or may not have taken effect, as
  when the response of the API server is lost.
\<close>

locale object_laws =
  fixes K :: "'w kube"
  assumes add_finalizer:
      "k_add_finalizer K f m =
         (if f \<in> set (om_finalizers m) then (m, False)
          else (m\<lparr>om_finalizers := om_finalizers m @ [f]\<rparr>, True))"
    and contains_finalizer: "k_contains_finalizer K f m \<longleftrightarrow> f \<in> set (om_finalizers m)"
    and remove_finalizer:
      "k_remove_finalizer K f m =
         (m\<lparr>om_finalizers := filter (\<lambda>g. g \<noteq> f) (om_finalizers m)\<rparr>, f \<in> set (om_finalizers m))"
    and notfound_laws: "k_is_notfound K NotFound"
      "k_is_notfound K (Wrapped s e) \<longleftrightarrow> k_is_notfound K e"
      "\<not> k_is_notfound K (ErrorString s)"
    and controller_ref: "k_set_controller_ref K c m = Inr m' \<Longrightarrow> \<exists>refs. m' = m\<lparr>om_owners := refs\<rparr>"
    and owner_ref: "k_set_owner_ref K p m = Inr m' \<Longrightarrow>
      \<exists>refs. m' = m\<lparr>om_owners := refs\<rparr> \<and> refs \<noteq> []"
    and aggregate_laws: "(\<forall>e \<in> set es. e = None) \<Longrightarrow> k_aggregate K es = None"
      "Some e \<in> set es \<Longrightarrow> k_aggregate K es \<noteq> None"

locale kube_laws = object_laws K for K :: "'w kube" +
  fixes st_addr :: "'w \<Rightarrow> nsname \<Rightarrow> ip_address option"
    and st_claim :: "'w \<Rightarrow> nsname \<Rightarrow> ip_claim option"
  assumes stored_keys:
      "st_addr w k = Some a \<Longrightarrow> address_key a = k"
      "st_claim w k = Some c \<Longrightarrow> claim_key c = k"
    and get_claim:
      "k_get_claim K k w = Inr c \<Longrightarrow> st_claim w k = Some c"
      "k_get_claim K k w = Inl e \<Longrightarrow> k_is_notfound K e \<Longrightarrow> st_claim w k = None"
    and get_address:
      "k_get_address K k w = Inr a \<Longrightarrow> st_addr w k = Some a"
      "k_get_address K k w = Inl e \<Longrightarrow> k_is_notfound K e \<Longrightarrow> st_addr w k = None"
    and list_addresses:
      "k_list_addresses K IPAddressPoolRefCombinedField v ns w = Inr as \<Longrightarrow>
         set as = {a. \<exists>k vs. st_addr w k = Some a \<and> (ns = [] \<or> fst k = ns)
           \<and> IPAddressByCombinedPoolRef (AddressObject a) = Ok vs \<and> v \<in> set vs}"
    and get_ip_pool: "k_get_ip_pool K k w = Inr np \<Longrightarrow>
      (om_namespace (ip_meta np), om_name (ip_meta np)) = k
      \<and> gvk_group (ip_gvk np) = ipam_group \<and> gvk_kind (ip_gvk np) = ''InClusterIPPool''"
    and get_global_ip_pool: "k_get_global_ip_pool K k w = Inr gp \<Longrightarrow>
      om_namespace (gip_meta gp) = [] \<and> om_name (gip_meta gp) = snd k
      \<and> gvk_group (gip_gvk gp) = ipam_group \<and> gvk_kind (gip_gvk gp) = ''GlobalInClusterIPPool''"
    and get_prefix_pool: "k_get_prefix_pool K k w = Inr pp \<Longrightarrow>
      (om_namespace (pp_meta pp), om_name (pp_meta pp)) = k
      \<and> gvk_group (pp_gvk pp) = ipam_group \<and> gvk_kind (pp_gvk pp) = ''InClusterPrefixPool''"
    and get_global_prefix_pool: "k_get_global_prefix_pool K k w = Inr gpp \<Longrightarrow>
      om_namespace (gpp_meta gpp) = [] \<and> om_name (gpp_meta gpp) = snd k
      \<and> gvk_group (gpp_gvk gpp) = ipam_group \<and> gvk_kind (gpp_gvk gpp) = ''GlobalInClusterPrefixPool''"
    and patch_address: "k_patch_address K old new w = (w', r) \<Longrightarrow> address_key new = address_key old \<Longrightarrow>
      st_claim w' = st_claim w
      \<and> (st_addr w' = (st_addr w)(address_key new := settle_address new) \<or> r \<noteq> None \<and> st_addr w' = st_addr w)"
    and delete_address: "k_delete_address K a w = (w', r) \<Longrightarrow>
      st_claim w' = st_claim w
      \<and> ((case st_addr w (address_key a) of
             None \<Rightarrow> r \<noteq> None \<and> st_addr w' = st_addr w
           | Some b \<Rightarrow> \<exists>t. st_addr w' =
               (st_addr w)(address_key a := settle_address (b\<lparr>ia_meta := (ia_meta b)\<lparr>om_deletion := Some t\<rparr>\<rparr>)))
         \<or> r \<noteq> None \<and> st_addr w' = st_addr w)"
    and delete_address_notfound: "k_delete_address K a w = (w', Some e) \<Longrightarrow> k_is_notfound K e \<Longrightarrow>
      st_addr w (address_key a) = None \<and> st_addr w' = st_addr w"
    and patch_address_notfound: "k_patch_address K old new w = (w', Some e) \<Longrightarrow> k_is_notfound K e \<Longrightarrow>
      st_addr w (address_key new) = None \<and> st_addr w' = st_addr w"
    and create_or_patch_panic: "k_create_or_patch K a f w = (w', x) \<Longrightarrow> (\<forall>v. x \<noteq> Done v) \<Longrightarrow>
      st_addr w' = st_addr w \<and> st_claim w' = st_claim w \<and> (\<exists>b. f b = x)"
    and create_or_patch: "k_create_or_patch K a f w = (w', Done (res, out)) \<Longrightarrow>
      st_claim w' = st_claim w
      \<and> (st_addr w' = st_addr w \<and> (\<exists>e. out = Inl e)
         \<or> (\<exists>new. f (case st_addr w (address_key a) of None \<Rightarrow> a | Some b \<Rightarrow> b) = Done (res, Inr new)
             \<and> address_key new = address_key a
             \<and> (out = Inr new \<or> (\<exists>e. out = Inl e))
             \<and> st_addr w' = (st_addr w)(address_key a := settle_address new)))"
    and patch_claim: "k_patch_claim K c d w = (w', r) \<Longrightarrow> claim_key d = claim_key c \<Longrightarrow>
      st_addr w' = st_addr w
      \<and> (st_claim w' = (st_claim w)(claim_key c := settle_claim d) \<or> r \<noteq> None \<and> st_claim w' = st_claim w)"
    and poll_ready: "cond w = Inr True \<Longrightarrow> k_poll K cond w = None"
    and patch_pool: "k_patch_pool K q q' w = (w', r) \<Longrightarrow> st_addr w' = st_addr w \<and> st_claim w' = st_claim w"

text \<open>
  An API server that answers: reads and writes of existing objects succeed. Only the
  liveness of the controllers rests on it.
\<close>

locale kube_up = kube_laws K st_addr st_claim for K :: "'w kube" and st_addr st_claim +
  assumes up_get_claim: "st_claim w k = Some c \<Longrightarrow> k_get_claim K k w = Inr c"
    and up_get_address: "st_addr w k = Some a \<Longrightarrow> k_get_address K k w = Inr a"
    and up_list_addresses: "\<exists>as. k_list_addresses K IPAddressPoolRefCombinedField v ns w = Inr as"
    and up_claim_helper: "k_new_claim_helper K c w = None"
    and up_patch_claim: "st_claim w (claim_key c) = Some c \<Longrightarrow> claim_key d = claim_key c \<Longrightarrow>
      snd (k_patch_claim K c d w) = None"
    and up_create_or_patch: "st_addr w (address_key a) = None \<Longrightarrow> f a = Done (res, Inr new) \<Longrightarrow>
      address_key new = address_key a \<Longrightarrow>
      \<exists>w'. k_create_or_patch K a f w = (w', Done (res, Inr new))
        \<and> st_addr w' = (st_addr w)(address_key a := settle_address new)"
    and up_controller_ref: "k_set_controller_ref K c m = Inl e \<Longrightarrow> e = AlreadyOwned"
    and up_owner_ref: "\<exists>m'. k_set_owner_ref K p m = Inr m'"

end
