(* ===== verification/RefKube.thy ===== *)
theory RefKube
  imports Kube
begin

text \<open>
  A concrete API server: lists of objects, looked up by namespace and name. It shows that
  the behaviour \<open>kube_laws\<close> asks for can be had, and the witnesses of the controllers run
  on it. Its writes always succeed on objects that exist.
\<close>

subsection \<open>Stores\<close>

definition lookup :: "('a \<Rightarrow> nsname) \<Rightarrow> 'a list \<Rightarrow> nsname \<Rightarrow> 'a option" where
  "lookup key xs k = find (\<lambda>x. key x = k) xs"

definition store :: "('a \<Rightarrow> nsname) \<Rightarrow> nsname \<Rightarrow> 'a option \<Rightarrow> 'a list \<Rightarrow> 'a list" where
  "store key k v xs =
     (case v of None \<Rightarrow> [] | Some x \<Rightarrow> [x]) @ filter (\<lambda>x. key x \<noteq> k) xs"

lemma lookup_key: "lookup key xs k = Some x \<Longrightarrow> key x = k \<and> x \<in> set xs"
  by (auto simp: lookup_def find_Some_iff)

lemma lookup_filter: "lookup key (filter (\<lambda>x. key x \<noteq> k) xs) = (lookup key xs)(k := None)"
  by (induction xs) (auto simp: lookup_def fun_eq_iff)

lemma lookup_Cons: "lookup key (x # xs) = (lookup key xs)(key x \<mapsto> x)"
  by (auto simp: lookup_def fun_eq_iff)

lemma lookup_store:
  "(\<forall>x. v = Some x \<longrightarrow> key x = k) \<Longrightarrow> lookup key (store key k v xs) = (lookup key xs)(k := v)"
  by (cases v) (simp_all add: store_def lookup_Cons lookup_filter)

record ref_world =
  rw_addresses :: "ip_address list"
  rw_claims :: "ip_claim list"
  rw_ip_pools :: "InClusterIPPool list"
  rw_global_ip_pools :: "GlobalInClusterIPPool list"
  rw_prefix_pools :: "InClusterPrefixPool list"
  rw_global_prefix_pools :: "GlobalInClusterPrefixPool list"
  rw_clusters :: "cluster list"
  rw_now :: int

definition meta_key :: "object_meta \<Rightarrow> nsname" where
  "meta_key m = (om_namespace m, om_name m)"

definition found :: "'a option \<Rightarrow> error + 'a" where
  "found v = (case v of None \<Rightarrow> Inl NotFound | Some x \<Rightarrow> Inr x)"

lemma found_iff [simp]: "found v = Inr x \<longleftrightarrow> v = Some x" "found v = Inl e \<longleftrightarrow> v = None \<and> e = NotFound"
  by (auto simp: found_def split: option.splits)

definition ref_addr :: "ref_world \<Rightarrow> nsname \<Rightarrow> ip_address option" where
  "ref_addr w = lookup address_key (rw_addresses w)"

definition ref_claim :: "ref_world \<Rightarrow> nsname \<Rightarrow> ip_claim option" where
  "ref_claim w = lookup claim_key (rw_claims w)"

definition set_addr :: "nsname \<Rightarrow> ip_address option \<Rightarrow> ref_world \<Rightarrow> ref_world" where
  "set_addr k v w = w\<lparr>rw_addresses := store address_key k v (rw_addresses w)\<rparr>"

definition set_claim :: "nsname \<Rightarrow> ip_claim option \<Rightarrow> ref_world \<Rightarrow> ref_world" where
  "set_claim k v w = w\<lparr>rw_claims := store claim_key k v (rw_claims w)\<rparr>"

lemma ref_owner_laws:
  "(\<forall>x. v = Some x \<longrightarrow> address_key x = k) \<Longrightarrow> ref_addr (set_addr k v w) = (ref_addr w)(k := v)"
  "ref_claim (set_addr k v w) = ref_claim w"
  "(\<forall>x. c = Some x \<longrightarrow> claim_key x = k) \<Longrightarrow> ref_claim (set_claim k c w) = (ref_claim w)(k := c)"
  "ref_addr (set_claim k c w) = ref_addr w"
  by (simp_all add: ref_addr_def ref_claim_def set_addr_def set_claim_def lookup_store)

subsection \<open>The operations\<close>

definition pool_kind_gvk :: "string \<Rightarrow> gvk" where
  "pool_kind_gvk k = \<lparr>gvk_group = ipam_group, gvk_version = ''v1alpha2'', gvk_kind = k\<rparr>"

definition ref_addresses :: "ref_world \<Rightarrow> ip_address list" where
  "ref_addresses w = concat (map (\<lambda>k. case ref_addr w k of None \<Rightarrow> [] | Some a \<Rightarrow> [a])
     (remdups (map address_key (rw_addresses w))))"

definition ref_list_addresses ::
  "string \<Rightarrow> string \<Rightarrow> string \<Rightarrow> ref_world \<Rightarrow> error + ip_address list" where
  "ref_list_addresses field v ns w =
     (if field = IPAddressPoolRefCombinedField then
        Inr (filter (\<lambda>a. (ns = [] \<or> om_namespace (ia_meta a) = ns)
               \<and> IPPoolRefValue (ia_pool_ref a) = v)
             (ref_addresses w))
      else Inl (ApiError ''no index''))"

definition ref_claims :: "ref_world \<Rightarrow> ip_claim list" where
  "ref_claims w = concat (map (\<lambda>k. case ref_claim w k of None \<Rightarrow> [] | Some c \<Rightarrow> [c])
     (remdups (map claim_key (rw_claims w))))"

definition ref_list_claims ::
  "string \<Rightarrow> string \<Rightarrow> string \<Rightarrow> ref_world \<Rightarrow> error + ip_claim list" where
  "ref_list_claims field v ns w =
     (if field = IPAddressClaimPoolRefCombinedField then
        Inr (filter (\<lambda>c. (ns = [] \<or> om_namespace (ic_meta c) = ns)
               \<and> IPPoolRefValue (ic_pool_ref c) = v) (ref_claims w))
      else if field = ''clusterName'' then
        Inr (filter (\<lambda>c. (ns = [] \<or> om_namespace (ic_meta c) = ns)
               \<and> v \<in> set (indexClusterName (ClaimObject c))) (ref_claims w))
      else Inl (ApiError ''no index''))"

definition ref_patch_address :: "ip_address \<Rightarrow> ip_address \<Rightarrow> ref_world \<Rightarrow> ref_world \<times> error option" where
  "ref_patch_address old new w =
     (if ref_addr w (address_key new) = None then (w, Some NotFound)
      else (set_addr (address_key new) (settle_address new) w, None))"

definition ref_delete_address :: "ip_address \<Rightarrow> ref_world \<Rightarrow> ref_world \<times> error option" where
  "ref_delete_address a w =
     (case ref_addr w (address_key a) of
        None \<Rightarrow> (w, Some NotFound)
      | Some b \<Rightarrow>
          (set_addr (address_key a)
             (settle_address (b\<lparr>ia_meta := (ia_meta b)\<lparr>om_deletion :=
                Some (case om_deletion (ia_meta b) of None \<Rightarrow> rw_now w | Some t \<Rightarrow> t)\<rparr>\<rparr>)) w, None))"

definition ref_create_or_patch ::
  "ip_address \<Rightarrow> mutate_fn \<Rightarrow> ref_world \<Rightarrow> ref_world \<times> (ctrl_result option \<times> (error + ip_address)) exec" where
  "ref_create_or_patch a f w =
     (case f (case ref_addr w (address_key a) of None \<Rightarrow> a | Some b \<Rightarrow> b) of
        Panicked m \<Rightarrow> (w, Panicked m)
      | Diverges \<Rightarrow> (w, Diverges)
      | Done (res, Inl e) \<Rightarrow> (w, Done (res, Inl e))
      | Done (res, Inr new) \<Rightarrow>
          if address_key new \<noteq> address_key a
          then (w, Done (res, Inl (ErrorString ''MutateFn cannot mutate object name and/or object namespace'')))
          else (set_addr (address_key a) (settle_address new) w, Done (res, Inr new)))"

definition ref_patch_claim :: "ip_claim \<Rightarrow> ip_claim \<Rightarrow> ref_world \<Rightarrow> ref_world \<times> error option" where
  "ref_patch_claim c d w =
     (if ref_claim w (claim_key c) = None then (w, Some NotFound)
      else (set_claim (claim_key c) (settle_claim d) w, None))"

fun pool_object_key :: "pool_object \<Rightarrow> nsname" where
  "pool_object_key p = meta_key (obj_meta p)"

fun ref_patch_pool :: "pool_object \<Rightarrow> pool_object \<Rightarrow> ref_world \<Rightarrow> ref_world \<times> error option" where
  "ref_patch_pool old (AddressPool (NsPool p)) w =
     (w\<lparr>rw_ip_pools := store (meta_key \<circ> ip_meta) (meta_key (ip_meta p)) (Some p) (rw_ip_pools w)\<rparr>, None)"
| "ref_patch_pool old (AddressPool (GlobalPool p)) w =
     (w\<lparr>rw_global_ip_pools :=
          store (meta_key \<circ> gip_meta) (meta_key (gip_meta p)) (Some p) (rw_global_ip_pools w)\<rparr>, None)"
| "ref_patch_pool old (PrefixPool (NsPrefixPool p)) w =
     (w\<lparr>rw_prefix_pools := store (meta_key \<circ> pp_meta) (meta_key (pp_meta p)) (Some p) (rw_prefix_pools w)\<rparr>, None)"
| "ref_patch_pool old (PrefixPool (GlobalPrefixPool p)) w =
     (w\<lparr>rw_global_prefix_pools :=
          store (meta_key \<circ> gpp_meta) (meta_key (gpp_meta p)) (Some p) (rw_global_prefix_pools w)\<rparr>, None)"

definition ref_poll :: "(ref_world \<Rightarrow> error + bool) \<Rightarrow> ref_world \<Rightarrow> error option" where
  "ref_poll cond w =
     (case cond w of
        Inl e \<Rightarrow> Some e
      | Inr b \<Rightarrow> if b then None else Some (ErrorString ''context deadline exceeded''))"

fun ref_is_notfound :: "error \<Rightarrow> bool" where
  "ref_is_notfound NotFound = True"
| "ref_is_notfound (Wrapped s e) = ref_is_notfound e"
| "ref_is_notfound _ = False"

definition ref_has_paused :: "object_meta \<Rightarrow> bool" where
  "ref_has_paused m = (om_annotations m ''cluster.x-k8s.io/paused'' \<noteq> None)"

definition ref_gv_string :: "gvk \<Rightarrow> string" where
  "ref_gv_string g =
     (if gvk_group g = [] then gvk_version g else gvk_group g @ ''/'' @ gvk_version g)"

definition upsert_owner :: "owner_ref \<Rightarrow> owner_ref list \<Rightarrow> owner_ref list" where
  "upsert_owner r rs =
     (if list_ex (\<lambda>q. or_kind q = or_kind r \<and> or_name q = or_name r) rs
      then map (\<lambda>q. if or_kind q = or_kind r \<and> or_name q = or_name r then r else q) rs
      else rs @ [r])"

definition ref_set_controller_ref :: "ip_claim \<Rightarrow> object_meta \<Rightarrow> error + object_meta" where
  "ref_set_controller_ref c m =
     (if list_ex (\<lambda>q. or_controller q = Some True
          \<and> \<not> (or_kind q = ''IPAddressClaim'' \<and> or_name q = om_name (ic_meta c))) (om_owners m)
      then Inl AlreadyOwned
      else Inr (m\<lparr>om_owners := upsert_owner
             \<lparr>or_api_version = ''ipam.cluster.x-k8s.io/v1beta2'', or_kind = ''IPAddressClaim'',
              or_name = om_name (ic_meta c), or_controller = Some True, or_block = Some True\<rparr>
             (om_owners m)\<rparr>))"

definition ref_set_owner_ref :: "pool_object \<Rightarrow> object_meta \<Rightarrow> error + object_meta" where
  "ref_set_owner_ref p m =
     Inr (m\<lparr>om_owners := upsert_owner
       \<lparr>or_api_version = ref_gv_string (obj_gvk p), or_kind = gvk_kind (obj_gvk p),
        or_name = om_name (obj_meta p), or_controller = None, or_block = None\<rparr> (om_owners m)\<rparr>)"

definition ref_add_finalizer :: "string \<Rightarrow> object_meta \<Rightarrow> object_meta \<times> bool" where
  "ref_add_finalizer f m =
     (if f \<in> set (om_finalizers m) then (m, False)
      else (m\<lparr>om_finalizers := om_finalizers m @ [f]\<rparr>, True))"

definition ref_contains_finalizer :: "string \<Rightarrow> object_meta \<Rightarrow> bool" where
  "ref_contains_finalizer f m = (f \<in> set (om_finalizers m))"

definition ref_remove_finalizer :: "string \<Rightarrow> object_meta \<Rightarrow> object_meta \<times> bool" where
  "ref_remove_finalizer f m =
     (m\<lparr>om_finalizers := filter (\<lambda>g. g \<noteq> f) (om_finalizers m)\<rparr>, f \<in> set (om_finalizers m))"

definition ref_cluster_by_name :: "string \<Rightarrow> string \<Rightarrow> ref_world \<Rightarrow> error + cluster" where
  "ref_cluster_by_name ns n w = found (lookup (meta_key \<circ> cl_meta) (rw_clusters w) (ns, n))"

definition ref_cluster_from_metadata :: "object_meta \<Rightarrow> ref_world \<Rightarrow> error + cluster" where
  "ref_cluster_from_metadata m w =
     (case om_labels m ClusterNameLabel of
        None \<Rightarrow> Inl (ErrorString ''no cluster'')
      | Some n \<Rightarrow> ref_cluster_by_name (om_namespace m) n w)"

definition ref_kube :: "ref_world kube" where
  "ref_kube =
     \<lparr>k_get_claim = (\<lambda>k w. found (ref_claim w k)),
      k_get_address = (\<lambda>k w. found (ref_addr w k)),
      k_get_ip_pool = (\<lambda>k w. found (map_option (\<lambda>p. p\<lparr>ip_gvk := pool_kind_gvk ''InClusterIPPool''\<rparr>)
         (lookup (meta_key \<circ> ip_meta) (rw_ip_pools w) k))),
      k_get_global_ip_pool = (\<lambda>k w. found (map_option
         (\<lambda>p. p\<lparr>gip_gvk := pool_kind_gvk ''GlobalInClusterIPPool''\<rparr>)
         (lookup (meta_key \<circ> gip_meta) (rw_global_ip_pools w) ([], snd k)))),
      k_get_prefix_pool = (\<lambda>k w. found (map_option
         (\<lambda>p. p\<lparr>pp_gvk := pool_kind_gvk ''InClusterPrefixPool''\<rparr>)
         (lookup (meta_key \<circ> pp_meta) (rw_prefix_pools w) k))),
      k_get_global_prefix_pool = (\<lambda>k w. found (map_option
         (\<lambda>p. p\<lparr>gpp_gvk := pool_kind_gvk ''GlobalInClusterPrefixPool''\<rparr>)
         (lookup (meta_key \<circ> gpp_meta) (rw_global_prefix_pools w) ([], snd k)))),
      k_cluster_by_name = ref_cluster_by_name,
      k_cluster_from_metadata = ref_cluster_from_metadata,
      k_list_addresses = ref_list_addresses,
      k_list_claims = ref_list_claims,
      k_patch_address = ref_patch_address,
      k_delete_address = ref_delete_address,
      k_create_or_patch = ref_create_or_patch,
      k_new_claim_helper = (\<lambda>c w. None),
      k_patch_claim = ref_patch_claim,
      k_new_pool_helper = (\<lambda>p w. None),
      k_patch_pool = ref_patch_pool,
      k_poll = ref_poll,
      k_now = rw_now,
      k_is_notfound = ref_is_notfound,
      k_is_paused = (\<lambda>c. cl_paused c = Some True \<or> ref_has_paused (cl_meta c)),
      k_has_paused = ref_has_paused,
      k_add_finalizer = ref_add_finalizer,
      k_contains_finalizer = ref_contains_finalizer,
      k_remove_finalizer = ref_remove_finalizer,
      k_set_controller_ref = ref_set_controller_ref,
      k_set_owner_ref = ref_set_owner_ref,
      k_gv_string = ref_gv_string,
      k_aggregate = (\<lambda>es. case List.map_filter id es of [] \<Rightarrow> None | e # r \<Rightarrow> Some (Aggregate (e # r)))\<rparr>"

lemma ref_kube_sel [simp]:
  "k_get_claim ref_kube k w = found (ref_claim w k)"
  "k_get_address ref_kube k w = found (ref_addr w k)"
  "k_list_addresses ref_kube = ref_list_addresses"
  "k_patch_address ref_kube = ref_patch_address"
  "k_delete_address ref_kube = ref_delete_address"
  "k_create_or_patch ref_kube = ref_create_or_patch"
  "k_patch_claim ref_kube = ref_patch_claim"
  "k_patch_pool ref_kube = ref_patch_pool"
  "k_is_notfound ref_kube = ref_is_notfound"
  "k_poll ref_kube = ref_poll"
  "k_add_finalizer ref_kube = ref_add_finalizer"
  "k_contains_finalizer ref_kube = ref_contains_finalizer"
  "k_remove_finalizer ref_kube = ref_remove_finalizer"
  by (simp_all add: ref_kube_def)

subsection \<open>Interpretation\<close>

lemma upsert_owner_nonempty: "upsert_owner r rs \<noteq> []"
  by (cases rs) (auto simp: upsert_owner_def)

interpretation ref_objects: object_laws ref_kube
proof (unfold_locales, goal_cases)
  case (1 f m) then show ?case by (simp add: ref_add_finalizer_def)
next
  case (2 f m) then show ?case by (simp add: ref_contains_finalizer_def)
next
  case (3 f m) then show ?case by (simp add: ref_remove_finalizer_def)
next
  case 4 then show ?case by simp
next
  case (5 s e) then show ?case by simp
next
  case (6 s) then show ?case by simp
next
  case (7 c m m') then show ?case
    by (auto simp: ref_kube_def ref_set_controller_ref_def split: if_splits)
next
  case (8 p m m') then show ?case
    by (auto simp: ref_kube_def ref_set_owner_ref_def upsert_owner_nonempty)
next
  case (9 es)
  then have "List.map_filter id es = []" by (induction es) (auto simp: List.map_filter_def)
  then show ?case by (simp add: ref_kube_def)
next
  case (10 e es)
  then have "e \<in> set (List.map_filter id es)" by (force simp: List.map_filter_def)
  then show ?case by (auto simp: ref_kube_def split: list.splits)
qed

lemma settle_keys:
  "settle_address a = Some b \<Longrightarrow> address_key b = address_key a"
  "settle_claim c = Some d \<Longrightarrow> claim_key d = claim_key c"
  by (auto simp: settle_address_def settle_claim_def split: if_splits)

lemma address_key_deletion [simp]:
  "address_key (b\<lparr>ia_meta := (ia_meta b)\<lparr>om_deletion := t\<rparr>\<rparr>) = address_key b"
  by (simp add: address_key_def)

lemma ref_addr_key: "ref_addr w k = Some a \<Longrightarrow> address_key a = k \<and> a \<in> set (rw_addresses w)"
  by (auto simp: ref_addr_def dest: lookup_key)

lemma ref_listed: "a \<in> set (ref_addresses w) \<longleftrightarrow> (\<exists>k. ref_addr w k = Some a)"
proof
  assume "a \<in> set (ref_addresses w)"
  then obtain b where "a \<in> set (case ref_addr w (address_key b) of None \<Rightarrow> [] | Some a \<Rightarrow> [a])"
    unfolding ref_addresses_def by auto
  then have "ref_addr w (address_key b) = Some a" by (cases "ref_addr w (address_key b)") simp_all
  then show "\<exists>k. ref_addr w k = Some a" by blast
next
  assume "\<exists>k. ref_addr w k = Some a"
  then obtain k where k: "ref_addr w k = Some a" by blast
  from ref_addr_key [OF this] have "address_key a = k" "a \<in> set (rw_addresses w)" by simp_all
  with k have "ref_addr w (address_key a) = Some a" "a \<in> set (rw_addresses w)" by simp_all
  then show "a \<in> set (ref_addresses w)"
    by (auto simp: ref_addresses_def intro!: bexI [of _ a])
qed

lemma ref_list_addresses_law:
  assumes "ref_list_addresses IPAddressPoolRefCombinedField v ns w = Inr as"
  shows "set as = {a. \<exists>k vs. ref_addr w k = Some a \<and> (ns = [] \<or> fst k = ns)
    \<and> IPAddressByCombinedPoolRef (AddressObject a) = Ok vs \<and> v \<in> set vs}"
proof -
  have "set as = {a. (\<exists>k. ref_addr w k = Some a) \<and> (ns = [] \<or> om_namespace (ia_meta a) = ns)
      \<and> IPPoolRefValue (ia_pool_ref a) = v}"
    using assms by (auto simp only: ref_list_addresses_def ref_listed if_True refl sum.inject
        set_filter mem_Collect_eq)
  moreover have "om_namespace (ia_meta a) = fst k" if "ref_addr w k = Some a" for k a
    using ref_addr_key [OF that] by (auto simp: address_key_def)
  ultimately show ?thesis by fastforce
qed

lemma ref_delete_address_law:
  assumes "ref_delete_address a w = (w', r)"
  shows "ref_claim w' = ref_claim w"
    and "case ref_addr w (address_key a) of
           None \<Rightarrow> r \<noteq> None \<and> ref_addr w' = ref_addr w
         | Some b \<Rightarrow> \<exists>t. ref_addr w' = (ref_addr w)(address_key a :=
             settle_address (b\<lparr>ia_meta := (ia_meta b)\<lparr>om_deletion := Some t\<rparr>\<rparr>))"
    and "r = Some e \<Longrightarrow> ref_addr w (address_key a) = None \<and> ref_addr w' = ref_addr w"
proof -
  have key: "\<forall>x. settle_address (b\<lparr>ia_meta := (ia_meta b)\<lparr>om_deletion := t\<rparr>\<rparr>) = Some x \<longrightarrow>
      address_key x = address_key a" if "ref_addr w (address_key a) = Some b" for b t
  proof (intro allI impI)
    fix x assume "settle_address (b\<lparr>ia_meta := (ia_meta b)\<lparr>om_deletion := t\<rparr>\<rparr>) = Some x"
    from settle_keys(1) [OF this] ref_addr_key [OF that] show "address_key x = address_key a" by simp
  qed
  show "ref_claim w' = ref_claim w"
    "case ref_addr w (address_key a) of
           None \<Rightarrow> r \<noteq> None \<and> ref_addr w' = ref_addr w
         | Some b \<Rightarrow> \<exists>t. ref_addr w' = (ref_addr w)(address_key a :=
             settle_address (b\<lparr>ia_meta := (ia_meta b)\<lparr>om_deletion := Some t\<rparr>\<rparr>))"
    "r = Some e \<Longrightarrow> ref_addr w (address_key a) = None \<and> ref_addr w' = ref_addr w"
    using assms key by (auto simp: ref_delete_address_def ref_owner_laws split: option.splits)
qed

lemma ref_patch_address_law:
  assumes "ref_patch_address old new w = (w', r)"
  shows "ref_claim w' = ref_claim w"
    and "r = None \<Longrightarrow> ref_addr w' = (ref_addr w)(address_key new := settle_address new)"
    and "r = Some e \<Longrightarrow> ref_addr w (address_key new) = None \<and> ref_addr w' = ref_addr w"
  using assms settle_keys(1) by (auto simp: ref_patch_address_def ref_owner_laws split: if_splits)

lemma ref_create_or_patch_law:
  assumes "ref_create_or_patch a f w = (w', Done (res, out))"
  shows "ref_claim w' = ref_claim w
    \<and> (ref_addr w' = ref_addr w \<and> (\<exists>e. out = Inl e)
       \<or> (\<exists>new. f (case ref_addr w (address_key a) of None \<Rightarrow> a | Some b \<Rightarrow> b) = Done (res, Inr new)
           \<and> address_key new = address_key a
           \<and> (out = Inr new \<or> (\<exists>e. out = Inl e))
           \<and> ref_addr w' = (ref_addr w)(address_key a := settle_address new)))"
  using assms settle_keys(1)
  by (force simp: ref_create_or_patch_def ref_owner_laws split: exec.splits sum.splits prod.splits if_splits)

lemma ref_patch_claim_law:
  assumes "ref_patch_claim c d w = (w', r)" "claim_key d = claim_key c"
  shows "ref_addr w' = ref_addr w"
    and "ref_claim w' = (ref_claim w)(claim_key c := settle_claim d) \<or> r \<noteq> None \<and> ref_claim w' = ref_claim w"
proof -
  have "\<forall>x. settle_claim d = Some x \<longrightarrow> claim_key x = claim_key c"
    using settle_keys(2) assms(2) by metis
  then show "ref_addr w' = ref_addr w"
    "ref_claim w' = (ref_claim w)(claim_key c := settle_claim d) \<or> r \<noteq> None \<and> ref_claim w' = ref_claim w"
    using assms(1) by (auto simp: ref_patch_claim_def ref_owner_laws split: if_splits)
qed

lemma ref_pool_get_laws:
  "k_get_ip_pool ref_kube k w = Inr p \<Longrightarrow> (om_namespace (ip_meta p), om_name (ip_meta p)) = k
     \<and> gvk_group (ip_gvk p) = ipam_group \<and> gvk_kind (ip_gvk p) = ''InClusterIPPool''"
  "k_get_global_ip_pool ref_kube k w = Inr gp \<Longrightarrow> om_namespace (gip_meta gp) = [] \<and> om_name (gip_meta gp) = snd k
     \<and> gvk_group (gip_gvk gp) = ipam_group \<and> gvk_kind (gip_gvk gp) = ''GlobalInClusterIPPool''"
  "k_get_prefix_pool ref_kube k w = Inr pp \<Longrightarrow> (om_namespace (pp_meta pp), om_name (pp_meta pp)) = k
     \<and> gvk_group (pp_gvk pp) = ipam_group \<and> gvk_kind (pp_gvk pp) = ''InClusterPrefixPool''"
  "k_get_global_prefix_pool ref_kube k w = Inr gpp \<Longrightarrow> om_namespace (gpp_meta gpp) = [] \<and> om_name (gpp_meta gpp) = snd k
     \<and> gvk_group (gpp_gvk gpp) = ipam_group \<and> gvk_kind (gpp_gvk gpp) = ''GlobalInClusterPrefixPool''"
  by (auto simp: ref_kube_def pool_kind_gvk_def meta_key_def dest!: lookup_key)

lemma ref_patch_pool_law:
  "ref_patch_pool q q' w = (w', r) \<Longrightarrow> ref_addr w' = ref_addr w \<and> ref_claim w' = ref_claim w"
  by (cases "(q, q', w)" rule: ref_patch_pool.cases) (auto simp: ref_addr_def ref_claim_def)

interpretation ref_kube: kube_laws ref_kube ref_addr ref_claim
proof (unfold_locales, goal_cases)
  case (1 w k a) then show ?case by (simp add: ref_addr_key)
next
  case (2 w k c) then show ?case by (auto simp: ref_claim_def dest: lookup_key)
next
  case (3 k w c) then show ?case by simp
next
  case (4 k w e) then show ?case by simp
next
  case (5 k w a) then show ?case by simp
next
  case (6 k w e) then show ?case by simp
next
  case (7 v ns w as) then show ?case by (simp only: ref_kube_sel ref_list_addresses_law)
next
  case (8 k w p) then show ?case by (rule ref_pool_get_laws)
next
  case (9 k w p) then show ?case by (rule ref_pool_get_laws)
next
  case (10 k w p) then show ?case by (rule ref_pool_get_laws)
next
  case (11 k w p) then show ?case by (rule ref_pool_get_laws)
next
  case (12 old new w w' r) then show ?case
    using ref_patch_address_law [of old new w w' r] by (cases r) auto
next
  case (13 a w w' r) then show ?case using ref_delete_address_law(1,2) [of a w w' r] by simp
next
  case (14 a w w' e) then show ?case using ref_delete_address_law(3) [of a w w' "Some e" e] by simp
next
  case (15 old new w w' e) then show ?case
    using ref_patch_address_law(3) [of old new w w' "Some e" e] by simp
next
  case (16 a f w w' x)
  define base where "base = (case ref_addr w (address_key a) of None \<Rightarrow> a | Some b \<Rightarrow> b)"
  have "f base \<noteq> Done v" for v
  proof
    assume "f base = Done v"
    then have "\<exists>u. snd (ref_create_or_patch a f w) = Done u"
      by (cases v; cases "snd v") (simp_all add: ref_create_or_patch_def base_def [symmetric])
    then show False using 16 by auto
  qed
  with 16 have "w' = w \<and> x = f base"
    by (cases "f base") (auto simp: ref_create_or_patch_def base_def)
  then show ?case by blast
next
  case (17 a f w w' res out) then show ?case by (simp only: ref_kube_sel ref_create_or_patch_law)
next
  case (18 c d w w' r) then show ?case using ref_patch_claim_law [of c d w w' r] by simp
next
  case (19 cond w) then show ?case by (simp add: ref_poll_def)
next
  case (20 q q' w w' r) then show ?case by (simp add: ref_patch_pool_law)
qed

interpretation ref_up: kube_up ref_kube ref_addr ref_claim
proof (unfold_locales, goal_cases)
  case (1 w k c) then show ?case by simp
next
  case (2 w k a) then show ?case by simp
next
  case (3 v ns w) show ?case by (simp add: ref_list_addresses_def)
next
  case (4 c w) show ?case by (simp add: ref_kube_def)
next
  case (5 w c d) then show ?case by (simp add: ref_patch_claim_def)
next
  case (6 w a f res new)
  have "\<forall>x. settle_address new = Some x \<longrightarrow> address_key x = address_key a"
    using settle_keys(1) 6(3) by metis
  with 6 show ?case by (simp add: ref_create_or_patch_def ref_owner_laws)
next
  case (7 c m e) then show ?case by (auto simp: ref_kube_def ref_set_controller_ref_def split: if_splits)
next
  case (8 p m) show ?case by (simp add: ref_kube_def ref_set_owner_ref_def)
qed

end
