(* ===== verification/ClaimHandler.thy ===== *)
theory ClaimHandler
  imports PrefixUtil NetIPRoundTrip RefKube
begin

text \<open>
  \<open>internal/controllers/ipaddressclaim*.go\<close>: the two claim handlers (\<open>FetchPool\<close>,
  \<open>EnsureAddress\<close>, \<open>ReleaseAddress\<close>), the adapter that chooses between them, and the
  functions that turn pool events into claim requests. A method with a pointer receiver
  returns the changed handler.
\<close>

subsection \<open>Constants and helpers\<close>

definition inClusterIPPoolKind :: string where
  "inClusterIPPoolKind = ''InClusterIPPool''"

definition globalInClusterIPPoolKind :: string where
  "globalInClusterIPPoolKind = ''GlobalInClusterIPPool''"

definition inClusterPrefixPoolKind :: string where
  "inClusterPrefixPoolKind = ''InClusterPrefixPool''"

definition globalInClusterPrefixPoolKind :: string where
  "globalInClusterPrefixPoolKind = ''GlobalInClusterPrefixPool''"

definition ListAddressesInUse ::
  "'w kube \<Rightarrow> string \<Rightarrow> pool_ref \<Rightarrow> 'w \<Rightarrow> error + ip_address list" where
  "ListAddressesInUse K namespace poolRef w =
     k_list_addresses K IPAddressPoolRefCombinedField (IPPoolRefValue poolRef) namespace w"

text \<open>
  The stored addresses a listing is about: those of the namespace (of any, if it is empty)
  whose reference has the same index value.
\<close>

definition pool_in_use :: "(nsname \<Rightarrow> ip_address option) \<Rightarrow> string \<Rightarrow> pool_ref \<Rightarrow> bool" where
  "pool_in_use addrs namespace poolRef \<longleftrightarrow>
     (\<exists>a k. addrs k = Some a \<and> (namespace = [] \<or> fst k = namespace)
        \<and> IPPoolRefValue (ia_pool_ref a) = IPPoolRefValue poolRef)"

context kube_laws
begin

lemma listed_in_use:
  "ListAddressesInUse K ns ref w = Inr as \<Longrightarrow> as = [] \<longleftrightarrow> \<not> pool_in_use (st_addr w) ns ref"
proof -
  assume "ListAddressesInUse K ns ref w = Inr as"
  then have "set as = {a. \<exists>k. st_addr w k = Some a \<and> (ns = [] \<or> fst k = ns)
      \<and> IPPoolRefValue (ia_pool_ref a) = IPPoolRefValue ref}"
    using list_addresses by (fastforce simp: ListAddressesInUse_def)
  moreover have "as = [] \<longleftrightarrow> set as = {}" by simp
  ultimately show ?thesis unfolding pool_in_use_def by (simp only: Collect_empty_eq not_ex)
qed

end

definition buildAddressList :: "ip_address list \<Rightarrow> string \<Rightarrow> string list" where
  "buildAddressList addressesInUse gateway =
     (let addrStrings = map ia_address addressesInUse
      in if gateway \<noteq> [] then addrStrings @ [gateway] else addrStrings)"

text \<open>
  \<open>time.Second\<close> in nanoseconds, and \<open>time.Since\<close>, whose result saturates at the range of
  \<open>Duration\<close>.
\<close>

definition time_Second :: int where
  "time_Second = 1000000000"

definition time_Since :: "int \<Rightarrow> int \<Rightarrow> int" where
  "time_Since now t = max (- (2 ^ 63)) (min max_int (now - t))"

subsection \<open>The handler of address pools\<close>

record IPAddressClaimHandler =
  h_claim :: ip_claim
  h_pool :: "generic_pool option"

definition IPAddressClaimHandler_FetchPool ::
  "'w kube \<Rightarrow> IPAddressClaimHandler \<Rightarrow> 'w \<Rightarrow>
     IPAddressClaimHandler \<times> pool_object option \<times> ctrl_result option \<times> error option" where
  "IPAddressClaimHandler_FetchPool K h w =
     (let ref = ic_pool_ref (h_claim h); namespace = om_namespace (ic_meta (h_claim h));
          fetched =
            (if pr_kind ref = inClusterIPPoolKind then
               (case k_get_ip_pool K (namespace, pr_name ref) w of
                  Inl e \<Rightarrow> Inl (Wrapped ''failed to fetch pool'' e)
                | Inr pool \<Rightarrow> Inr (h\<lparr>h_pool := Some (NsPool pool)\<rparr>))
             else if pr_kind ref = globalInClusterIPPoolKind then
               (case k_get_global_ip_pool K ([], pr_name ref) w of
                  Inl e \<Rightarrow> Inl (Wrapped ''failed to fetch pool'' e)
                | Inr pool \<Rightarrow> Inr (h\<lparr>h_pool := Some (GlobalPool pool)\<rparr>))
             else Inr h)
      in case fetched of
           Inl e \<Rightarrow> (h, None, None, Some e)
         | Inr h' \<Rightarrow> (h', map_option AddressPool (h_pool h'), None, None))"

definition IPAddressClaimHandler_EnsureAddress ::
  "('b, 's) netipx \<Rightarrow> 'w kube \<Rightarrow> IPAddressClaimHandler \<Rightarrow> 'w \<Rightarrow> ip_address \<Rightarrow>
     (ip_address \<times> ctrl_result option \<times> error option) exec" where
  "IPAddressClaimHandler_EnsureAddress nx K h w address =
     (case h_pool h of
        None \<Rightarrow> Panicked ''nil pointer dereference''
      | Some pool \<Rightarrow>
        (case ListAddressesInUse K (om_namespace (pool_meta pool)) (ic_pool_ref (h_claim h)) w of
           Inl e \<Rightarrow> Done (address, None, Some (Wrapped ''failed to list addresses'' e))
         | Inr addressesInUse \<Rightarrow>
           let allocated = list_ex (\<lambda>a. om_name (ia_meta a) = om_name (ia_meta address)
                 \<and> om_namespace (ia_meta a) = om_namespace (ia_meta address)) addressesInUse
           in if allocated then Done (address, None, None)
           else let poolSpec = PoolSpec pool in
             (case AddressesToIPSet nx (buildAddressList addressesInUse (Gateway poolSpec)) of
                Inl e \<Rightarrow> Done (address, None, Some (Wrapped ''failed to convert IPAddressList to IPSet'' e))
              | Inr inUseIPSet \<Rightarrow>
                (case PoolSpecToIPSet nx poolSpec of
                   Panic m \<Rightarrow> Panicked m
                 | Err e \<Rightarrow> Done (address, None, Some (Wrapped ''failed to convert pool to range'' e))
                 | Ok poolIPSet \<Rightarrow>
                   (case FindFreeAddress nx poolIPSet inUseIPSet of
                      None \<Rightarrow> Diverges
                    | Some (Inl e) \<Rightarrow>
                        Done (address, None, Some (Wrapped ''failed to find free address'' e))
                    | Some (Inr freeIP) \<Rightarrow>
                        Done (address\<lparr>ia_address := Addr_String freeIP,
                                ia_gateway := Gateway poolSpec,
                                ia_prefix := Some (go_int32 (spec_Prefix poolSpec))\<rparr>, None, None))))))"

definition IPAddressClaimHandler_ReleaseAddress ::
  "'w kube \<Rightarrow> IPAddressClaimHandler \<Rightarrow> 'w \<Rightarrow> ctrl_result option \<times> error option" where
  "IPAddressClaimHandler_ReleaseAddress K h w =
     (case om_deletion (ic_meta (h_claim h)) of
        None \<Rightarrow> (None, None)
      | Some deletionTime \<Rightarrow>
        (case h_pool h of
           None \<Rightarrow> (None, None)
         | Some pool \<Rightarrow>
           if om_deletion (pool_meta pool) \<noteq> None then (None, None)
           else (case AddressReuseGracePeriodSeconds (PoolSpec pool) of
               None \<Rightarrow> (None, None)
             | Some gracePeriodSeconds \<Rightarrow>
                 if gracePeriodSeconds \<le> 0 then (None, None)
                 else let gracePeriod = go_int (gracePeriodSeconds * time_Second);
                          elapsed = time_Since (k_now K w) deletionTime;
                          remaining = go_int (gracePeriod - elapsed)
                      in if remaining > 0
                         then (Some \<lparr>Requeue = False, RequeueAfter = remaining\<rparr>, None)
                         else (None, None))))"

subsection \<open>The handler of prefix pools\<close>

record PrefixIPAddressClaimHandler =
  ph_claim :: ip_claim
  ph_pool :: "generic_prefix_pool option"

definition PrefixIPAddressClaimHandler_FetchPool ::
  "'w kube \<Rightarrow> PrefixIPAddressClaimHandler \<Rightarrow> 'w \<Rightarrow>
     PrefixIPAddressClaimHandler \<times> pool_object option \<times> ctrl_result option \<times> error option" where
  "PrefixIPAddressClaimHandler_FetchPool K h w =
     (let ref = ic_pool_ref (ph_claim h); namespace = om_namespace (ic_meta (ph_claim h));
          fetched =
            (if pr_kind ref = inClusterPrefixPoolKind then
               (case k_get_prefix_pool K (namespace, pr_name ref) w of
                  Inl e \<Rightarrow> Inl (Wrapped ''failed to fetch pool'' e)
                | Inr pool \<Rightarrow> Inr (h\<lparr>ph_pool := Some (NsPrefixPool pool)\<rparr>))
             else if pr_kind ref = globalInClusterPrefixPoolKind then
               (case k_get_global_prefix_pool K ([], pr_name ref) w of
                  Inl e \<Rightarrow> Inl (Wrapped ''failed to fetch pool'' e)
                | Inr pool \<Rightarrow> Inr (h\<lparr>ph_pool := Some (GlobalPrefixPool pool)\<rparr>))
             else Inr h)
      in case fetched of
           Inl e \<Rightarrow> (h, None, None, Some e)
         | Inr h' \<Rightarrow> (h', map_option PrefixPool (ph_pool h'), None, None))"

definition PrefixIPAddressClaimHandler_EnsureAddress ::
  "('b, 's) netipx \<Rightarrow> 'w kube \<Rightarrow> PrefixIPAddressClaimHandler \<Rightarrow> 'w \<Rightarrow> ip_address \<Rightarrow>
     (ip_address \<times> ctrl_result option \<times> error option) exec" where
  "PrefixIPAddressClaimHandler_EnsureAddress nx K h w address =
     (case ph_pool h of
        None \<Rightarrow> Panicked ''nil pointer dereference''
      | Some pool \<Rightarrow>
        (case ListAddressesInUse K (om_namespace (prefix_pool_meta pool)) (ic_pool_ref (ph_claim h)) w of
           Inl e \<Rightarrow> Done (address, None, Some (Wrapped ''failed to list addresses'' e))
         | Inr addressesInUse \<Rightarrow>
           let allocated = list_ex (\<lambda>a. om_name (ia_meta a) = om_name (ia_meta address)
                 \<and> om_namespace (ia_meta a) = om_namespace (ia_meta address)) addressesInUse
           in if allocated then Done (address, None, None)
           else let poolSpec = PrefixPoolSpec pool in
             (case AddressesToAllocationPrefixSet nx addressesInUse of
                Inl e \<Rightarrow> Done (address, None,
                  Some (Wrapped ''failed to convert IPAddressList to allocation prefix set'' e))
              | Inr inUseIPSet \<Rightarrow>
                (case FindFreePrefix nx (Some (NewPrefixPoolConfig poolSpec)) (Some inUseIPSet) of
                   Inl e \<Rightarrow> Done (address, None, Some (Wrapped ''failed to find free prefix'' e))
                 | Inr freePrefix \<Rightarrow>
                     Done (address\<lparr>ia_address := Addr_String (pfx_addr freePrefix),
                             ia_gateway := pp_Gateway poolSpec,
                             ia_prefix := Some (go_int32 (pfx_bits freePrefix))\<rparr>, None, None)))))"

definition PrefixIPAddressClaimHandler_ReleaseAddress ::
  "PrefixIPAddressClaimHandler \<Rightarrow> ctrl_result option \<times> error option" where
  "PrefixIPAddressClaimHandler_ReleaseAddress h = (None, None)"

subsection \<open>The adapter\<close>

text \<open>The interface value \<open>ipamutil.ClaimHandler\<close> with its two implementations.\<close>

datatype in_cluster_handler =
    IPHandler IPAddressClaimHandler
  | PrefixHandler PrefixIPAddressClaimHandler

definition ClaimHandlerFor :: "ip_claim \<Rightarrow> in_cluster_handler" where
  "ClaimHandlerFor claim =
     (if pr_kind (ic_pool_ref claim) \<in> {inClusterPrefixPoolKind, globalInClusterPrefixPoolKind}
      then PrefixHandler \<lparr>ph_claim = claim, ph_pool = None\<rparr>
      else IPHandler \<lparr>h_claim = claim, h_pool = None\<rparr>)"

subsection \<open>Pool events\<close>

fun poolStatus :: "api_object \<Rightarrow> InClusterIPPoolStatusIPAddresses option" where
  "poolStatus (PoolObject (AddressPool (NsPool p))) = ip_status p"
| "poolStatus (PoolObject (AddressPool (GlobalPool p))) = gip_status p"
| "poolStatus _ = None"

text \<open>The \<open>UpdateFunc\<close> of the predicate.\<close>

definition poolNoLongerEmpty :: "api_object \<Rightarrow> api_object \<Rightarrow> bool" where
  "poolNoLongerEmpty objectOld objectNew =
     (case (poolStatus objectOld, poolStatus objectNew) of
        (Some oldStatus, Some newStatus) \<Rightarrow>
          (if Free oldStatus = 0 \<and> Free newStatus > 0 then True else False)
      | _ \<Rightarrow> False)"

fun prefixPoolStatus :: "api_object \<Rightarrow> InClusterPrefixPoolStatusAddresses option" where
  "prefixPoolStatus (PoolObject (PrefixPool (NsPrefixPool p))) = pp_status p"
| "prefixPoolStatus (PoolObject (PrefixPool (GlobalPrefixPool p))) = gpp_status p"
| "prefixPoolStatus _ = None"

definition prefixPoolNoLongerEmpty :: "api_object \<Rightarrow> api_object \<Rightarrow> bool" where
  "prefixPoolNoLongerEmpty objectOld objectNew =
     (case (prefixPoolStatus objectOld, prefixPoolStatus objectNew) of
        (Some oldStatus, Some newStatus) \<Rightarrow>
          (if pp_Free oldStatus = 0 \<and> pp_Free newStatus > 0 then True else False)
      | _ \<Rightarrow> False)"

text \<open>The \<open>UpdateFunc\<close> and the \<open>CreateFunc\<close> of \<open>resourceTransitionedToUnpaused\<close>.\<close>

definition resourceTransitionedToUnpaused_Update :: "'w kube \<Rightarrow> api_object \<Rightarrow> api_object \<Rightarrow> bool" where
  "resourceTransitionedToUnpaused_Update K objectOld objectNew =
     (k_has_paused K (api_meta objectOld) \<and> \<not> k_has_paused K (api_meta objectNew))"

definition resourceTransitionedToUnpaused_Create :: "'w kube \<Rightarrow> api_object \<Rightarrow> bool" where
  "resourceTransitionedToUnpaused_Create K obj = (\<not> k_has_paused K (api_meta obj))"

text \<open>The requests for the claims that reference a pool, in the pool's namespace.\<close>

definition ipPoolToIPClaims :: "'w kube \<Rightarrow> string \<Rightarrow> generic_pool \<Rightarrow> 'w \<Rightarrow> nsname list" where
  "ipPoolToIPClaims K kind pool w =
     (case k_list_claims K IPAddressClaimPoolRefCombinedField
             (IPPoolRefValue \<lparr>pr_group = ipam_group, pr_kind = kind, pr_name = om_name (pool_meta pool)\<rparr>)
             (om_namespace (pool_meta pool)) w of
        Inl e \<Rightarrow> []
      | Inr claims \<Rightarrow> map (\<lambda>claim. (om_namespace (ic_meta claim), om_name (ic_meta claim))) claims)"

definition prefixPoolToIPClaims :: "'w kube \<Rightarrow> string \<Rightarrow> pool_object \<Rightarrow> 'w \<Rightarrow> nsname list" where
  "prefixPoolToIPClaims K kind a w =
     (case a of
        AddressPool _ \<Rightarrow> []
      | PrefixPool pool \<Rightarrow>
        (case k_list_claims K IPAddressClaimPoolRefCombinedField
             (IPPoolRefValue
                \<lparr>pr_group = ipam_group, pr_kind = kind, pr_name = om_name (prefix_pool_meta pool)\<rparr>)
             (om_namespace (prefix_pool_meta pool)) w of
           Inl e \<Rightarrow> []
         | Inr claims \<Rightarrow> map (\<lambda>claim. (om_namespace (ic_meta claim), om_name (ic_meta claim))) claims))"

end
