(* ===== verification/Allocation.thy ===== *)
theory Allocation
  imports ClaimHandler
begin

text \<open>
  What an \<open>IPAddress\<close> takes out of its pool, and the allocation of the two claim handlers:
  the printed address or prefix reads back as the one that was found, so the next search
  sees it in use. The release of an address and its grace period.
\<close>

subsection \<open>What an address takes\<close>

definition is_prefix_kind :: "string \<Rightarrow> bool" where
  "is_prefix_kind kind \<longleftrightarrow> kind \<in> {inClusterPrefixPoolKind, globalInClusterPrefixPoolKind}"

definition alloc_set :: "ip_address \<Rightarrow> addr set" where
  "alloc_set a =
     (if is_prefix_kind (pr_kind (ia_pool_ref a))
      then (case PrefixFromIPAddress a of Inl e \<Rightarrow> {} | Inr p \<Rightarrow> pfx_set p)
      else (case entry_set (ia_address a) of None \<Rightarrow> {} | Some A \<Rightarrow> A))"

text \<open>\<open>PrefixFromIPAddress\<close> reads the address and the prefix length; the rest is in its errors.\<close>

lemma PrefixFromIPAddress_cong:
  assumes "ia_address a = ia_address b" "ia_prefix a = ia_prefix b"
  shows "(case PrefixFromIPAddress a of Inl e \<Rightarrow> {} | Inr p \<Rightarrow> pfx_set p) =
    (case PrefixFromIPAddress b of Inl e \<Rightarrow> {} | Inr p \<Rightarrow> pfx_set p)"
  using assms by (simp add: PrefixFromIPAddress_def split: option.splits sum.splits)

lemma alloc_set_cong:
  assumes "ia_pool_ref a = ia_pool_ref b" "ia_address a = ia_address b" "ia_prefix a = ia_prefix b"
  shows "alloc_set a = alloc_set b"
  using PrefixFromIPAddress_cong [OF assms(2,3)] assms by (simp add: alloc_set_def)

lemma alloc_set_meta [simp]: "alloc_set (a\<lparr>ia_meta := m\<rparr>) = alloc_set a"
  by (rule alloc_set_cong) simp_all

subsection \<open>Printed addresses read back\<close>

lemma entry_set_Addr_String:
  assumes "zoneless a"
  shows "entry_set (Addr_String a) = Some {a}"
  using plain_Addr_String [OF assms] assms
  by (auto simp: entry_set_def ParseAddr_Addr_String)

lemma BitLen_le_128: "BitLen a \<le> 128"
  by (cases a) simp_all

lemma valid_prefix_bits:
  assumes "pfx_wf p" "Prefix_IsValid p"
  shows "go_int32 (pfx_bits p) = pfx_bits p" "0 \<le> pfx_bits p" "pfx_bits p \<le> BitLen (pfx_addr p)"
    "zoneless (pfx_addr p)"
proof -
  show b: "0 \<le> pfx_bits p" "pfx_bits p \<le> BitLen (pfx_addr p)" "zoneless (pfx_addr p)"
    using assms by (auto simp: pfx_wf_def Prefix_IsValid_def)
  with BitLen_le_128 [of "pfx_addr p"] show "go_int32 (pfx_bits p) = pfx_bits p"
    by (intro go_int32_id) simp_all
qed

lemma PrefixFrom_sel:
  assumes "pfx_wf p" "Prefix_IsValid p"
  shows "PrefixFrom (pfx_addr p) (pfx_bits p) = p"
  using valid_prefix_bits [OF assms] zoneless_not_zero by (simp add: PrefixFrom_def)

text \<open>The address object made for a prefix reads back as this prefix.\<close>

lemma PrefixFromIPAddress_printed:
  assumes "pfx_wf p" "Prefix_IsValid p"
    and "ia_address a = Addr_String (pfx_addr p)" "ia_prefix a = Some (go_int32 (pfx_bits p))"
  shows "PrefixFromIPAddress a = Inr (Masked p)"
proof -
  note bits = valid_prefix_bits [OF assms(1,2)]
  have "ParsePrefix (ia_address a @ ''/'' @ itoa (pfx_bits p)) = Inr p"
    using ParsePrefix_Addr_String [OF bits(4,2,3)] assms by (simp add: PrefixFrom_sel)
  then show ?thesis using assms(4) bits by (simp add: PrefixFromIPAddress_def)
qed

subsection \<open>Allocation from address pools\<close>

lemma list_ex_same_key:
  "list_ex (\<lambda>a. om_name (ia_meta a) = om_name (ia_meta b)
     \<and> om_namespace (ia_meta a) = om_namespace (ia_meta b)) as \<longleftrightarrow>
   (\<exists>a \<in> set as. address_key a = address_key b)"
  by (auto simp: list_ex_iff address_key_def)

text \<open>The object \<open>EnsureAddress\<close> makes for an address, and for a prefix.\<close>

definition allocated_address :: "InClusterIPPoolSpec \<Rightarrow> addr \<Rightarrow> ip_address \<Rightarrow> ip_address" where
  "allocated_address spec ip a =
     a\<lparr>ia_address := Addr_String ip, ia_gateway := Gateway spec,
       ia_prefix := Some (go_int32 (spec_Prefix spec))\<rparr>"

definition allocated_prefix :: "InClusterPrefixPoolSpec \<Rightarrow> netprefix \<Rightarrow> ip_address \<Rightarrow> ip_address" where
  "allocated_prefix spec p a =
     a\<lparr>ia_address := Addr_String (pfx_addr p), ia_gateway := pp_Gateway spec,
       ia_prefix := Some (go_int32 (pfx_bits p))\<rparr>"

lemma allocated_sel [simp]:
  "ia_meta (allocated_address spec ip a) = ia_meta a"
  "ia_pool_ref (allocated_address spec ip a) = ia_pool_ref a"
  "ia_claim_ref (allocated_address spec ip a) = ia_claim_ref a"
  "ia_meta (allocated_prefix pspec p a) = ia_meta a"
  "ia_pool_ref (allocated_prefix pspec p a) = ia_pool_ref a"
  "ia_claim_ref (allocated_prefix pspec p a) = ia_claim_ref a"
  by (simp_all add: allocated_address_def allocated_prefix_def)

lemma alloc_set_allocated_address:
  assumes "zoneless ip" "\<not> is_prefix_kind (pr_kind (ia_pool_ref a))"
  shows "alloc_set (allocated_address spec ip a) = {ip}"
  using assms by (simp add: alloc_set_def allocated_address_def entry_set_Addr_String)

lemma alloc_set_allocated_prefix:
  assumes "pfx_wf p" "Prefix_IsValid p" "is_prefix_kind (pr_kind (ia_pool_ref a))"
  shows "alloc_set (allocated_prefix spec p a) = pfx_set p"
  using assms PrefixFromIPAddress_printed [OF assms(1,2), of "allocated_prefix spec p a"]
  by (simp add: alloc_set_def allocated_prefix_def pfx_set_Masked)

context netipx_laws
begin

lemma ensure_ip_result:
  assumes pool: "h_pool h = Some pool"
    and listed: "ListAddressesInUse K (om_namespace (pool_meta pool)) (ic_pool_ref (h_claim h)) w = Inr as"
    and parses: "spec_parses (PoolSpec pool)"
    and in_use: "entries_set (buildAddressList as (Gateway (PoolSpec pool))) = Some U"
  shows "IPAddressClaimHandler_EnsureAddress nx K h w address =
    Done (if \<exists>a \<in> set as. address_key a = address_key address then (address, None, None)
          else if pool_addrs (PoolSpec pool) \<subseteq> U
          then (address, None, Some (Wrapped ''failed to find free address''
                  (ErrorString ''no address available'')))
          else (allocated_address (PoolSpec pool) (Min (pool_addrs (PoolSpec pool) - U)) address,
                None, None))"
proof -
  obtain t where t: "AddressesToIPSet nx (buildAddressList as (Gateway (PoolSpec pool))) = Inr t"
    "ips nx t = U"
    using in_use by (auto intro: AddressesToIPSet_cases [of "buildAddressList as (Gateway (PoolSpec pool))"])
  obtain s where s: "PoolSpecToIPSet nx (PoolSpec pool) = Ok s" "ips nx s = pool_addrs (PoolSpec pool)"
    using parses by (auto intro: PoolSpecToIPSet_cases [of "PoolSpec pool"])
  show ?thesis
    using pool listed t s
    by (simp add: IPAddressClaimHandler_EnsureAddress_def list_ex_same_key FindFreeAddress_least
        allocated_address_def Let_def)
qed

text \<open>Without the assumptions: what is known of each result.\<close>

lemma ensure_ip_cases:
  assumes "IPAddressClaimHandler_EnsureAddress nx K h w address = r" "h_pool h = Some pool"
  obtains (error) e where "r = Done (address, None, Some e)"
    | (panic) m where "r = Panicked m" "\<not> spec_parses (PoolSpec pool)"
    | (known) as where
        "ListAddressesInUse K (om_namespace (pool_meta pool)) (ic_pool_ref (h_claim h)) w = Inr as"
        "\<exists>a \<in> set as. address_key a = address_key address" "r = Done (address, None, None)"
    | (fresh) as ip U where
        "ListAddressesInUse K (om_namespace (pool_meta pool)) (ic_pool_ref (h_claim h)) w = Inr as"
        "\<forall>a \<in> set as. address_key a \<noteq> address_key address"
        "entries_set (buildAddressList as (Gateway (PoolSpec pool))) = Some U"
        "spec_parses (PoolSpec pool)" "ip \<in> pool_addrs (PoolSpec pool) - U" "zoneless ip"
        "r = Done (allocated_address (PoolSpec pool) ip address, None, None)"
proof (cases "ListAddressesInUse K (om_namespace (pool_meta pool)) (ic_pool_ref (h_claim h)) w")
  case (Inl e)
  show ?thesis
    by (rule error, subst assms(1) [symmetric])
      (simp add: IPAddressClaimHandler_EnsureAddress_def assms(2) Inl)
next
  case (Inr as)
  note listed = this
  show ?thesis
  proof (cases "\<exists>a \<in> set as. address_key a = address_key address")
    case True
    with assms listed show ?thesis
      by (intro known) (auto simp: IPAddressClaimHandler_EnsureAddress_def list_ex_same_key Let_def)
  next
    case False
    show ?thesis
    proof (cases rule: AddressesToIPSet_cases [of "buildAddressList as (Gateway (PoolSpec pool))"])
      case e: (error e)
      show ?thesis
        by (rule error, subst assms(1) [symmetric]) (use assms(2) listed False e in
          \<open>simp add: IPAddressClaimHandler_EnsureAddress_def list_ex_same_key Let_def\<close>)
    next
      case used: (ok t U)
      show ?thesis
      proof (cases rule: PoolSpecToIPSet_cases [of "PoolSpec pool"])
        case e: (error e)
        show ?thesis
          by (rule error, subst assms(1) [symmetric]) (use assms(2) listed False used e in
            \<open>simp add: IPAddressClaimHandler_EnsureAddress_def list_ex_same_key Let_def\<close>)
      next
        case p: (panic m)
        with assms listed False used show ?thesis
          by (intro panic) (auto simp: IPAddressClaimHandler_EnsureAddress_def list_ex_same_key Let_def)
      next
        case s: (ok s)
        show ?thesis
        proof (cases "pool_addrs (PoolSpec pool) \<subseteq> U")
          case True
          with ensure_ip_result [OF assms(2) listed s(2) used(2)] assms(1) False show ?thesis
            by (intro error) auto
        next
          case more: False
          define ip where "ip = Min (pool_addrs (PoolSpec pool) - U)"
          have "finite (pool_addrs (PoolSpec pool) - U)" using s(3) finite_ips [of s] by simp
          with more have "ip \<in> pool_addrs (PoolSpec pool) - U" unfolding ip_def by (intro Min_in) auto
          moreover from this have "zoneless ip" using s(3) ips_zoneless by blast
          ultimately show ?thesis
            using ensure_ip_result [OF assms(2) listed s(2) used(2)] assms(1) False more listed used s
            by (intro fresh [of as U ip]) (auto simp: ip_def)
        qed
      qed
    qed
  qed
qed

end

context netipx_laws
begin

text \<open>Evaluating the code tells that texts parse.\<close>

lemma PoolSpecToIPSet_parses:
  "(case PoolSpecToIPSet nx spec of Ok s \<Rightarrow> True | _ \<Rightarrow> False) \<Longrightarrow> spec_parses spec"
  by (rule PoolSpecToIPSet_cases [of spec]) simp_all

lemma PoolSpecToIPSet_contains:
  "(case PoolSpecToIPSet nx spec of Ok s \<Rightarrow> nx_contains nx s a | _ \<Rightarrow> False) \<Longrightarrow> a \<in> pool_addrs spec"
  by (rule PoolSpecToIPSet_cases [of spec]) (auto simp: contains_iff)

lemma AddressesToIPSet_projr:
  "\<not> isl (AddressesToIPSet nx ss) \<Longrightarrow> entries_set ss = Some (ips nx (projr (AddressesToIPSet nx ss)))"
  by (rule AddressesToIPSet_cases [of ss]) simp_all

end

subsection \<open>Allocation from prefix pools\<close>

text \<open>The prefixes of the addresses in use; \<open>None\<close> if one of them does not read as a prefix.\<close>

definition allocations_set :: "ip_address list \<Rightarrow> addr set option" where
  "allocations_set as =
     (if list_all (\<lambda>a. \<exists>p. PrefixFromIPAddress a = Inr p) as
      then Some (\<Union>a \<in> set as. case PrefixFromIPAddress a of Inl e \<Rightarrow> {} | Inr p \<Rightarrow> pfx_set p)
      else None)"

lemma PrefixFromIPAddress_valid:
  assumes "PrefixFromIPAddress a = Inr p"
  shows "Prefix_IsValid p \<and> pfx_wf p \<and> Masked p = p"
proof -
  obtain b q where q: "ParsePrefix (ia_address a @ ''/'' @ itoa b) = Inr q" "p = Masked q"
    using assms by (auto simp: PrefixFromIPAddress_def split: option.splits sum.splits)
  have "Prefix_IsValid q" "pfx_wf q" using ParsePrefix_valid q(1) by blast+
  then obtain f k b where "Masked q = nprefix f k b" "k < 2 ^ b" "b \<le> famlen f"
    by (rule Masked_valid_cases)
  then show ?thesis using q(2) by simp
qed

context netipx_laws
begin

lemma add_allocations_cases:
  obtains (ok) b' A where "add_allocations nx as b = Inr b'" "allocations_set as = Some A"
      "bips b' = bips b \<union> A" "bok b' = bok b"
    | (error) e where "add_allocations nx as b = Inl e" "allocations_set as = None"
proof (induction as arbitrary: b thesis)
  case Nil
  show ?case by (rule Nil.prems(1) [of b "{}"]) (simp_all add: allocations_set_def)
next
  case (Cons a rest)
  show ?case
  proof (cases "PrefixFromIPAddress a")
    case (Inl e)
    then show ?thesis by (intro Cons.prems(2)) (auto simp: allocations_set_def)
  next
    case (Inr p)
    note valid = PrefixFromIPAddress_valid [OF Inr]
    have add: "bips (nx_add_prefix nx p b) = bips b \<union> pfx_set p" "bok (nx_add_prefix nx p b) = bok b"
      using valid by (simp_all add: add_prefix_laws)
    show ?thesis
    proof (rule Cons.IH [of "nx_add_prefix nx p b"], goal_cases)
      case (1 b' B)
      then show ?thesis
        by (intro Cons.prems(1) [of b' "pfx_set p \<union> B"])
           (auto simp: Inr add allocations_set_def split: if_splits)
    next
      case (2 e)
      then show ?thesis
        by (intro Cons.prems(2) [of e]) (auto simp: Inr allocations_set_def split: if_splits)
    qed
  qed
qed

lemma AddressesToAllocationPrefixSet_cases:
  obtains (ok) t A where "AddressesToAllocationPrefixSet nx as = Inr t" "allocations_set as = Some A"
      "ips nx t = A"
    | (error) e where "AddressesToAllocationPrefixSet nx as = Inl e" "allocations_set as = None"
proof (cases rule: add_allocations_cases [of as "nx_new nx"])
  case (ok b' A)
  show ?thesis
    by (rule ipset_cases [of b'])
       (use ok new_laws in \<open>auto intro!: that(1) simp: AddressesToAllocationPrefixSet_def\<close>)
next
  case (error e)
  then show ?thesis by (intro that(2) [of e]) (auto simp: AddressesToAllocationPrefixSet_def)
qed

lemma AddressesToAllocationPrefixSet_projr:
  "\<not> isl (AddressesToAllocationPrefixSet nx as) \<Longrightarrow>
    allocations_set as = Some (ips nx (projr (AddressesToAllocationPrefixSet nx as)))"
  by (rule AddressesToAllocationPrefixSet_cases [of as]) simp_all

lemma FindFreePrefix_projr:
  "\<not> isl (FindFreePrefix nx (Some c) u) \<Longrightarrow>
    projr (FindFreePrefix nx (Some c) u) \<in> pool_prefixes c (in_use_set nx u)"
  using FindFreePrefix_least [of c u] by (cases "FindFreePrefix nx (Some c) u") simp_all

lemma FindFreePrefix_parses: "\<not> isl (FindFreePrefix nx (Some c) u) \<Longrightarrow> cfg_parses c"
  using FindFreePrefix_least [of c u] by (cases "FindFreePrefix nx (Some c) u") simp_all

lemma ensure_prefix_cases:
  assumes "PrefixIPAddressClaimHandler_EnsureAddress nx K h w address = r" "ph_pool h = Some pool"
  obtains (list_error) e where
        "ListAddressesInUse K (om_namespace (prefix_pool_meta pool)) (ic_pool_ref (ph_claim h)) w = Inl e"
        "r = Done (address, None, Some (Wrapped ''failed to list addresses'' e))"
    | (error) as e where
        "ListAddressesInUse K (om_namespace (prefix_pool_meta pool)) (ic_pool_ref (ph_claim h)) w = Inr as"
        "\<forall>a \<in> set as. address_key a \<noteq> address_key address"
        "allocations_set as = None \<or> \<not> cfg_parses (NewPrefixPoolConfig (PrefixPoolSpec pool))
          \<or> pool_prefixes (NewPrefixPoolConfig (PrefixPoolSpec pool)) (the (allocations_set as)) = {}"
        "r = Done (address, None, Some e)"
    | (known) as where
        "ListAddressesInUse K (om_namespace (prefix_pool_meta pool)) (ic_pool_ref (ph_claim h)) w = Inr as"
        "\<exists>a \<in> set as. address_key a = address_key address" "r = Done (address, None, None)"
    | (fresh) as p U where
        "ListAddressesInUse K (om_namespace (prefix_pool_meta pool)) (ic_pool_ref (ph_claim h)) w = Inr as"
        "\<forall>a \<in> set as. address_key a \<noteq> address_key address"
        "allocations_set as = Some U" "cfg_parses (NewPrefixPoolConfig (PrefixPoolSpec pool))"
        "p \<in> pool_prefixes (NewPrefixPoolConfig (PrefixPoolSpec pool)) U"
        "\<forall>q \<in> pool_prefixes (NewPrefixPoolConfig (PrefixPoolSpec pool)) U. pfx_addr p \<le> pfx_addr q"
        "r = Done (allocated_prefix (PrefixPoolSpec pool) p address, None, None)"
proof (cases "ListAddressesInUse K (om_namespace (prefix_pool_meta pool)) (ic_pool_ref (ph_claim h)) w")
  case (Inl e)
  show ?thesis
    by (rule list_error [OF Inl], subst assms(1) [symmetric])
      (simp add: PrefixIPAddressClaimHandler_EnsureAddress_def assms(2) Inl)
next
  case (Inr as)
  note listed = this
  let ?c = "NewPrefixPoolConfig (PrefixPoolSpec pool)"
  show ?thesis
  proof (cases "\<exists>a \<in> set as. address_key a = address_key address")
    case True
    with assms listed show ?thesis
      by (intro known) (auto simp: PrefixIPAddressClaimHandler_EnsureAddress_def list_ex_same_key Let_def)
  next
    case False
    show ?thesis
    proof (cases rule: AddressesToAllocationPrefixSet_cases [of as])
      case e: (error e)
      show ?thesis
        by (rule error [OF listed], use False in simp, use e in simp, subst assms(1) [symmetric])
          (use assms(2) listed False e in
            \<open>simp add: PrefixIPAddressClaimHandler_EnsureAddress_def list_ex_same_key Let_def\<close>)
    next
      case used: (ok t U)
      have U: "in_use_set nx (Some t) = U" using used by (simp add: in_use_set_def)
      show ?thesis
      proof (cases "FindFreePrefix nx (Some ?c) (Some t)")
        case e: (Inl e)
        have none: "\<not> cfg_parses ?c \<or> pool_prefixes ?c U = {}"
          using FindFreePrefix_least [of ?c "Some t"] e U by simp
        show ?thesis
          by (rule error [OF listed], use False in simp, use none used in force,
              subst assms(1) [symmetric])
            (use assms(2) listed False used e in
              \<open>simp add: PrefixIPAddressClaimHandler_EnsureAddress_def list_ex_same_key Let_def\<close>)
      next
        case p: (Inr p)
        have found: "cfg_parses ?c" "p \<in> pool_prefixes ?c U"
          "\<forall>q \<in> pool_prefixes ?c U. pfx_addr p \<le> pfx_addr q"
          using FindFreePrefix_least [of ?c "Some t"] p U by simp_all
        show ?thesis
          by (rule fresh [OF listed _ used(2) found], use False in simp, subst assms(1) [symmetric])
            (use assms(2) listed False used p in
              \<open>simp add: PrefixIPAddressClaimHandler_EnsureAddress_def list_ex_same_key Let_def
                 allocated_prefix_def\<close>)
      qed
    qed
  qed
qed

end

subsection \<open>The grace period\<close>

text \<open>
  The nanoseconds until the address of a deleted claim may be released; 0 without a grace
  period.
\<close>

definition grace_left :: "generic_pool \<Rightarrow> int \<Rightarrow> int \<Rightarrow> int" where
  "grace_left pool deletionTime now =
     (if om_deletion (pool_meta pool) \<noteq> None then 0
      else case AddressReuseGracePeriodSeconds (PoolSpec pool) of
        None \<Rightarrow> 0
      | Some s \<Rightarrow> if s \<le> 0 then 0 else max 0 (deletionTime + s * time_Second - now))"

lemma ReleaseAddress_result:
  assumes pool: "h_pool h = Some pool" and deletion: "om_deletion (ic_meta (h_claim h)) = Some t"
    and int32: "\<And>s. AddressReuseGracePeriodSeconds (PoolSpec pool) = Some s \<Longrightarrow> s < 2 ^ 31"
    and clock: "\<bar>k_now K w - t\<bar> \<le> 2 ^ 62"
  shows "IPAddressClaimHandler_ReleaseAddress K h w =
    (if grace_left pool t (k_now K w) > 0
     then Some \<lparr>Requeue = False, RequeueAfter = grace_left pool t (k_now K w)\<rparr> else None, None)"
proof (cases "AddressReuseGracePeriodSeconds (PoolSpec pool)")
  case None
  with pool deletion show ?thesis
    by (simp add: IPAddressClaimHandler_ReleaseAddress_def grace_left_def)
next
  case (Some s)
  show ?thesis
  proof (cases "s \<le> 0 \<or> om_deletion (pool_meta pool) \<noteq> None")
    case True
    with pool deletion Some show ?thesis
      by (auto simp: IPAddressClaimHandler_ReleaseAddress_def grace_left_def)
  next
    case False
    have s: "0 < s" "s < 2 ^ 31" using False int32 [OF Some] by simp_all
    then have prod: "0 < s * time_Second" "s * time_Second < 2 ^ 62"
      by (simp_all add: time_Second_def)
    have since: "time_Since (k_now K w) t = k_now K w - t"
      using clock by (simp add: time_Since_def max_int_def)
    have "go_int (s * time_Second) = s * time_Second"
      using prod by (intro go_int_id) (simp_all add: max_int_def)
    moreover have "go_int (s * time_Second - (k_now K w - t)) = t + s * time_Second - k_now K w"
      using prod clock by (subst go_int_id) (simp_all add: max_int_def)
    ultimately show ?thesis using pool deletion Some False since
      by (simp add: IPAddressClaimHandler_ReleaseAddress_def grace_left_def Let_def)
  qed
qed

subsection \<open>An example store\<close>

definition demo_meta :: "string \<Rightarrow> object_meta" where
  "demo_meta name = empty_meta\<lparr>om_name := name, om_namespace := ''ns''\<rparr>"

definition demo_ref :: "string \<Rightarrow> string \<Rightarrow> pool_ref" where
  "demo_ref kind name = \<lparr>pr_group = ipam_group, pr_kind = kind, pr_name = name\<rparr>"

definition demo_spec :: InClusterIPPoolSpec where
  "demo_spec = \<lparr>Addresses = [''10.0.0.0/29''], spec_Prefix = 29, Gateway = ''10.0.0.1'',
     AllocateReservedIPAddresses = False, ExcludedAddresses = [''10.0.0.4''],
     AddressReuseGracePeriodSeconds = Some 60\<rparr>"

definition demo_pool :: InClusterIPPool where
  "demo_pool = \<lparr>ip_gvk = pool_kind_gvk ''InClusterIPPool'', ip_meta = demo_meta ''pool'',
     ip_spec = demo_spec, ip_status = None\<rparr>"

definition demo_prefix_spec :: InClusterPrefixPoolSpec where
  "demo_prefix_spec = \<lparr>Prefixes = [''10.1.0.0/24''], AllocationPrefixLength = 26, pp_Gateway = [],
     ExcludedPrefixes = [''10.1.0.0'']\<rparr>"

definition demo_prefix_pool :: InClusterPrefixPool where
  "demo_prefix_pool = \<lparr>pp_gvk = pool_kind_gvk ''InClusterPrefixPool'', pp_meta = demo_meta ''prefixes'',
     pp_spec = demo_prefix_spec, pp_status = None\<rparr>"

definition demo_claim :: "string \<Rightarrow> pool_ref \<Rightarrow> ip_claim" where
  "demo_claim name ref = \<lparr>ic_meta = (demo_meta name)\<lparr>om_finalizers :=
       [''ipam.cluster.x-k8s.io/ReleaseAddress'']\<rparr>, ic_cluster_name = [],
     ic_pool_ref = ref, ic_address_ref = []\<rparr>"

definition demo_address :: "string \<Rightarrow> pool_ref \<Rightarrow> string \<Rightarrow> int \<Rightarrow> ip_address" where
  "demo_address name ref ip bits = \<lparr>ia_meta = demo_meta name, ia_claim_ref = name, ia_pool_ref = ref,
     ia_address = ip, ia_prefix = Some bits, ia_gateway = ''10.0.0.1''\<rparr>"

text \<open>One address and one prefix are in use; the claims \<open>new\<close> and \<open>net\<close> are not served yet.\<close>

definition demo_world :: ref_world where
  "demo_world =
     \<lparr>rw_addresses = [demo_address ''old'' (demo_ref ''InClusterIPPool'' ''pool'') ''10.0.0.2'' 29,
        demo_address ''oldnet'' (demo_ref ''InClusterPrefixPool'' ''prefixes'') ''10.1.0.64'' 26],
      rw_claims = [demo_claim ''old'' (demo_ref ''InClusterIPPool'' ''pool''),
        demo_claim ''new'' (demo_ref ''InClusterIPPool'' ''pool''),
        demo_claim ''net'' (demo_ref ''InClusterPrefixPool'' ''prefixes'')],
      rw_ip_pools = [demo_pool], rw_global_ip_pools = [], rw_prefix_pools = [demo_prefix_pool],
      rw_global_prefix_pools = [], rw_clusters = [], rw_now = 1000\<rparr>"

lemma demo_sel:
  "PoolSpec (NsPool demo_pool) = demo_spec" "om_namespace (pool_meta (NsPool demo_pool)) = ''ns''"
  "PrefixPoolSpec (NsPrefixPool demo_prefix_pool) = demo_prefix_spec"
  "om_namespace (prefix_pool_meta (NsPrefixPool demo_prefix_pool)) = ''ns''"
  "ic_pool_ref (demo_claim name ref) = ref"
  by (simp_all add: demo_pool_def demo_prefix_pool_def demo_meta_def demo_claim_def)

lemma not_isl_projr: "\<not> isl r \<Longrightarrow> r = Inr (projr r)"
  by (cases r) simp_all

subsection \<open>Properties\<close>

text \<open>C35: allocation from an address pool. If the pool spec and the addresses in use parse,
  \<open>EnsureAddress\<close> returns (it neither panics nor runs forever): it leaves the object as it is
  if an address of this name is already allocated; else it fails if no address of the pool
  is free; else it sets the least free address, and the gateway and prefix length of the
  pool.\<close>

theorem EnsureAddress_spec:
  fixes nx :: "('b, 's) netipx" and K :: "'w kube"
  assumes "netipx_laws nx bips bok" "h_pool h = Some pool"
    and "ListAddressesInUse K (om_namespace (pool_meta pool)) (ic_pool_ref (h_claim h)) w = Inr as"
    and "spec_parses (PoolSpec pool)"
    and "entries_set (buildAddressList as (Gateway (PoolSpec pool))) = Some U"
  shows "IPAddressClaimHandler_EnsureAddress nx K h w address =
    Done (if \<exists>a \<in> set as. address_key a = address_key address then (address, None, None)
          else if pool_addrs (PoolSpec pool) \<subseteq> U
          then (address, None, Some (Wrapped ''failed to find free address''
                  (ErrorString ''no address available'')))
          else (allocated_address (PoolSpec pool) (Min (pool_addrs (PoolSpec pool) - U)) address,
                None, None))"
  using assms by (rule netipx_laws.ensure_ip_result)

lemma EnsureAddress_spec_witness:
  "let as = projr (ListAddressesInUse ref_kube ''ns'' (demo_ref ''InClusterIPPool'' ''pool'') demo_world);
       pool = NsPool demo_pool;
       h = \<lparr>h_claim = demo_claim ''new'' (demo_ref ''InClusterIPPool'' ''pool''), h_pool = Some pool\<rparr>;
       U = ips ref_netipx (projr (AddressesToIPSet ref_netipx (buildAddressList as (Gateway demo_spec))));
       address = demo_address ''new'' (demo_ref ''InClusterIPPool'' ''pool'') [] 0;
       r = IPAddressClaimHandler_EnsureAddress ref_netipx ref_kube h demo_world address
   in (case r of
         Done (a, res, err) \<Rightarrow> ia_address a = ''10.0.0.3'' \<and> ia_prefix a = Some 29 \<and> res = None \<and> err = None
       | _ \<Rightarrow> False)
      \<and> r = Done (if \<exists>a \<in> set as. address_key a = address_key address then (address, None, None)
          else if pool_addrs (PoolSpec pool) \<subseteq> U
          then (address, None, Some (Wrapped ''failed to find free address''
                  (ErrorString ''no address available'')))
          else (allocated_address (PoolSpec pool) (Min (pool_addrs (PoolSpec pool) - U)) address,
                None, None))"
  unfolding Let_def
  apply (rule conjI, code_simp)
  apply (rule EnsureAddress_spec [OF ref.netipx_laws_axioms])
     apply simp
    apply (simp only: demo_sel IPAddressClaimHandler.select_convs, rule not_isl_projr, code_simp)
   apply (rule ref.PoolSpecToIPSet_parses, code_simp)
  apply (simp only: demo_sel, rule ref.AddressesToIPSet_projr, code_simp)
  done



text \<open>C37: what is handed out reads back. The text of an allocated address stands for this
  address alone, and an allocated prefix is the prefix \<open>PrefixFromIPAddress\<close> reads.\<close>

theorem allocation_roundtrip:
  fixes nx :: "('b, 's) netipx"
  assumes "netipx_laws nx bips bok" "zoneless ip" "p \<in> pool_prefixes c U"
  shows "(case AddressToIPSet nx (ia_address (allocated_address spec ip a)) of
            Inl e \<Rightarrow> False | Inr s \<Rightarrow> ips nx s = {ip})
    \<and> PrefixFromIPAddress (allocated_prefix pspec p a) = Inr p"
proof
  have ip: "ia_address (allocated_address spec ip a) = Addr_String ip"
    by (simp add: allocated_address_def)
  show "case AddressToIPSet nx (ia_address (allocated_address spec ip a)) of
      Inl e \<Rightarrow> False | Inr s \<Rightarrow> ips nx s = {ip}"
    unfolding ip using entry_set_Addr_String [OF assms(2)]
    by (auto intro: netipx_laws.AddressToIPSet_cases [OF assms(1), of "Addr_String ip"])
  have p: "pfx_wf p" "Prefix_IsValid p" "Masked p = p"
    using assms(3) by (simp_all add: pool_prefixes_def alloc_prefixes_def)
  show "PrefixFromIPAddress (allocated_prefix pspec p a) = Inr p"
    using PrefixFromIPAddress_printed [OF p(1,2), of "allocated_prefix pspec p a"] p(3)
    by (simp add: allocated_prefix_def)
qed

lemma allocation_roundtrip_witness:
  "let a = demo_address ''net'' (demo_ref ''InClusterPrefixPool'' ''prefixes'') [] 0; ip = V4 0x0A000003;
       r = FindFreePrefix ref_netipx (Some (NewPrefixPoolConfig demo_prefix_spec)) None; p = projr r
   in p = \<lparr>pfx_addr = V4 0x0A010040, pfx_bits = 26\<rparr> \<and>
      (case AddressToIPSet ref_netipx (ia_address (allocated_address demo_spec ip a)) of
            Inl e \<Rightarrow> False | Inr s \<Rightarrow> ips ref_netipx s = {ip})
    \<and> PrefixFromIPAddress (allocated_prefix demo_prefix_spec p a) = Inr p"
  unfolding Let_def
  apply (rule conjI, code_simp)
  apply (rule allocation_roundtrip [OF ref.netipx_laws_axioms])
   apply (simp add: zoneless_def)
  apply (rule ref.FindFreePrefix_projr [of _ None], code_simp)
  done

text \<open>C38: the grace period. For a deleted claim \<open>ReleaseAddress\<close> asks to come back exactly
  while the grace period of the pool, counted from the deletion of the claim, has not
  passed, after the time that is left; the product and the differences do not wrap around
  for an \<open>int32\<close> number of seconds and clocks less than 2^62 ns (146 years) apart.\<close>

theorem ReleaseAddress_spec:
  fixes K :: "'w kube"
  assumes "h_pool h = Some pool" "om_deletion (ic_meta (h_claim h)) = Some t"
    and "\<And>s. AddressReuseGracePeriodSeconds (PoolSpec pool) = Some s \<Longrightarrow> s < 2 ^ 31"
    and "\<bar>k_now K w - t\<bar> \<le> 2 ^ 62"
  shows "IPAddressClaimHandler_ReleaseAddress K h w =
    (if grace_left pool t (k_now K w) > 0
     then Some \<lparr>Requeue = False, RequeueAfter = grace_left pool t (k_now K w)\<rparr> else None, None)"
  using assms by (rule ReleaseAddress_result)

lemma ReleaseAddress_spec_witness:
  "let c = demo_claim ''old'' (demo_ref ''InClusterIPPool'' ''pool'');
       pool = NsPool demo_pool;
       h = \<lparr>h_claim = c\<lparr>ic_meta := (ic_meta c)\<lparr>om_deletion := Some 400\<rparr>\<rparr>, h_pool = Some pool\<rparr>;
       r = IPAddressClaimHandler_ReleaseAddress ref_kube h demo_world
   in r = (Some \<lparr>Requeue = False, RequeueAfter = 59999999400\<rparr>, None)
      \<and> r = (if grace_left pool 400 (k_now ref_kube demo_world) > 0
             then Some \<lparr>Requeue = False, RequeueAfter = grace_left pool 400 (k_now ref_kube demo_world)\<rparr>
             else None, None)"
  unfolding Let_def
  apply (rule conjI, code_simp)
  apply (rule ReleaseAddress_spec)
     apply simp
    apply simp
   apply (simp add: demo_pool_def demo_spec_def)
  apply (simp add: ref_kube_def demo_world_def)
  done

end
