(* ===== verification/Reconciler.thy ===== *)
theory Reconciler
  imports RefKube
begin

text \<open>
  \<open>pkg/ipamutil\<close>: the reconciliation of claims (\<open>ClaimReconciler\<close>), generic in the
  provider adapter, and the construction of an \<open>IPAddress\<close>. A method of the interface
  \<open>ClaimHandler\<close> is a field of the record \<open>provider_adapter\<close>; \<open>'h\<close> is the type of handler
  values. Logging is left out.
\<close>

subsection \<open>The provider interface\<close>

record ('h, 'w) provider_adapter =
  ad_ClaimHandlerFor :: "ip_claim \<Rightarrow> 'h"
  ch_FetchPool :: "'h \<Rightarrow> 'w \<Rightarrow> 'h \<times> pool_object option \<times> ctrl_result option \<times> error option"
  ch_EnsureAddress :: "'h \<Rightarrow> 'w \<Rightarrow> ip_address \<Rightarrow>
    (ip_address \<times> ctrl_result option \<times> error option) exec"
  ch_ReleaseAddress :: "'h \<Rightarrow> 'w \<Rightarrow> ctrl_result option \<times> error option"

definition ReleaseAddressFinalizer :: string where
  "ReleaseAddressFinalizer = ''ipam.cluster.x-k8s.io/ReleaseAddress''"

definition ProtectAddressFinalizer :: string where
  "ProtectAddressFinalizer = ''ipam.cluster.x-k8s.io/ProtectAddress''"

definition unwrapResult :: "ctrl_result option \<Rightarrow> ctrl_result" where
  "unwrapResult res = (case res of None \<Rightarrow> no_result | Some r \<Rightarrow> r)"

subsection \<open>The address object\<close>

definition NewIPAddress :: "ip_claim \<Rightarrow> pool_object \<Rightarrow> ip_address" where
  "NewIPAddress claim pool =
     \<lparr>ia_meta = empty_meta\<lparr>om_name := om_name (ic_meta claim), om_namespace := om_namespace (ic_meta claim)\<rparr>,
      ia_claim_ref = om_name (ic_meta claim),
      ia_pool_ref = \<lparr>pr_group = gvk_group (obj_gvk pool), pr_kind = gvk_kind (obj_gvk pool),
        pr_name = om_name (obj_meta pool)\<rparr>,
      ia_address = [], ia_prefix = None, ia_gateway = []\<rparr>"

text \<open>The loop over the owner references: the index of the last one that names the pool.\<close>

fun pool_ref_index :: "'w kube \<Rightarrow> pool_object \<Rightarrow> owner_ref list \<Rightarrow> nat \<Rightarrow> nat \<Rightarrow> nat" where
  "pool_ref_index K pool [] i poolRefIdx = poolRefIdx"
| "pool_ref_index K pool (ownerRef # rest) i poolRefIdx =
     pool_ref_index K pool rest (i + 1)
       (if or_api_version ownerRef = k_gv_string K (obj_gvk pool)
           \<and> or_kind ownerRef = gvk_kind (obj_gvk pool)
           \<and> or_name ownerRef = om_name (obj_meta pool)
        then i else poolRefIdx)"

definition ensureIPAddressOwnerReferences ::
  "'w kube \<Rightarrow> ip_address \<Rightarrow> ip_claim \<Rightarrow> pool_object \<Rightarrow> (error + ip_address) exec" where
  "ensureIPAddressOwnerReferences K address claim pool =
     (case (case k_set_controller_ref K claim (ia_meta address) of
              Inl e \<Rightarrow> if e \<noteq> AlreadyOwned then Inl e else Inr (ia_meta address)
            | Inr m \<Rightarrow> Inr m) of
        Inl e \<Rightarrow> Done (Inl (Wrapped ''Failed to update address's claim owner reference'' e))
      | Inr m1 \<Rightarrow>
        (case k_set_owner_ref K pool m1 of
           Inl e \<Rightarrow> Done (Inl (Wrapped ''Failed to update address's pool owner reference'' e))
         | Inr m2 \<Rightarrow>
             let refs = om_owners m2; i = pool_ref_index K pool refs 0 0
             in if i \<ge> length refs then Panicked ''index out of range''
                else Done (Inr (address\<lparr>ia_meta := m2\<lparr>om_owners :=
                       refs[i := (refs ! i)\<lparr>or_controller := Some False, or_block := Some True\<rparr>]\<rparr>\<rparr>))))"

text \<open>The mutate function of \<open>CreateOrPatch\<close>.\<close>

definition ensure_address ::
  "'w kube \<Rightarrow> ('h, 'w) provider_adapter \<Rightarrow> 'h \<Rightarrow> ip_claim \<Rightarrow> pool_object \<Rightarrow> 'w \<Rightarrow> mutate_fn" where
  "ensure_address K A handler claim pool w address =
     exec_bind (ch_EnsureAddress A handler w address) (\<lambda>(address, res, err).
       case err of
         Some e \<Rightarrow> Done (res, Inl e)
       | None \<Rightarrow>
         exec_bind (ensureIPAddressOwnerReferences K address claim pool) (\<lambda>owned.
           case owned of
             Inl e \<Rightarrow> Done (res, Inl (Wrapped ''failed to ensure owner references on address'' e))
           | Inr address \<Rightarrow>
               let m = ia_meta address;
                   m = (case om_labels (ic_meta claim) ClusterNameLabel of
                          Some v \<Rightarrow> m\<lparr>om_labels := (om_labels m)(ClusterNameLabel \<mapsto> v)\<rparr>
                        | None \<Rightarrow> m)
               in Done (res, Inr (address\<lparr>ia_meta := fst (k_add_finalizer K ProtectAddressFinalizer m)\<rparr>))))"

subsection \<open>Deleting a claim\<close>

definition reconcileDelete ::
  "'w kube \<Rightarrow> ('h, 'w) provider_adapter \<Rightarrow> ip_claim \<Rightarrow> 'h \<Rightarrow> 'w \<Rightarrow>
     'w \<times> ip_claim \<times> ctrl_result \<times> error option" where
  "reconcileDelete K A claim handler w =
     (let (res, err) = ch_ReleaseAddress A handler w;
          finish = (\<lambda>w. (w, claim\<lparr>ic_meta := fst (k_remove_finalizer K ReleaseAddressFinalizer (ic_meta claim))\<rparr>,
                       no_result, None))
      in case err of
        Some e \<Rightarrow> (w, claim, unwrapResult res, Some (Wrapped ''release address'' e))
      | None \<Rightarrow>
        if (case res of None \<Rightarrow> False | Some r \<Rightarrow> Requeue r \<or> RequeueAfter r > 0)
        then (w, claim, the res, None)
        else (case k_get_address K (om_namespace (ic_meta claim), om_name (ic_meta claim)) w of
          Inl e \<Rightarrow>
            if \<not> k_is_notfound K e then (w, claim, no_result, Some (Wrapped ''failed to fetch address'' e))
            else finish w
        | Inr address \<Rightarrow>
            if om_name (ia_meta address) \<noteq> [] then
              (let (m, removed) = k_remove_finalizer K ProtectAddressFinalizer (ia_meta address);
                   address' = address\<lparr>ia_meta := m\<rparr>;
                   (w1, err1) = (if removed then k_patch_address K address address' w else (w, None))
               in case err1 of
                 Some e \<Rightarrow>
                   if \<not> k_is_notfound K e
                   then (w1, claim, no_result, Some (Wrapped ''failed to remove address finalizer'' e))
                   else finish w1
               | None \<Rightarrow>
                   (let (w2, err2) = k_delete_address K address' w1
                    in case err2 of
                      Some e \<Rightarrow> if \<not> k_is_notfound K e then (w2, claim, no_result, Some e) else finish w2
                    | None \<Rightarrow> finish w2))
            else finish w))"

subsection \<open>Reconciling a claim\<close>

definition visible_in_cache :: "'w kube \<Rightarrow> nsname \<Rightarrow> 'w \<Rightarrow> error + bool" where
  "visible_in_cache K key w =
     (case k_get_address K key w of
        Inl e \<Rightarrow> if k_is_notfound K e then Inr False else Inl e
      | Inr a \<Rightarrow> Inr True)"

definition reconcile_allocate ::
  "'w kube \<Rightarrow> ('h, 'w) provider_adapter \<Rightarrow> ip_claim \<Rightarrow> 'h \<Rightarrow> pool_object \<Rightarrow> 'w \<Rightarrow>
     'w \<times> ip_claim \<times> (ctrl_result \<times> error option) exec" where
  "reconcile_allocate K A claim handler pool w =
     (case k_create_or_patch K (NewIPAddress claim pool) (ensure_address K A handler claim pool w) w of
        (w1, Panicked m) \<Rightarrow> (w1, claim, Panicked m)
      | (w1, Diverges) \<Rightarrow> (w1, claim, Diverges)
      | (w1, Done (res, Inl e)) \<Rightarrow>
          (w1, claim, Done (unwrapResult res, Some (Wrapped ''failed to create or patch address'' e)))
      | (w1, Done (res, Inr address)) \<Rightarrow>
          if res \<noteq> None then (w1, claim, Done (unwrapResult res, None))
          else (case k_poll K (visible_in_cache K (address_key address)) w1 of
              Some e \<Rightarrow> (w1, claim, Done (no_result, Some (Wrapped
                (''failed waiting for IPAddress '' @ om_namespace (ia_meta address) @ ''/''
                 @ om_name (ia_meta address) @ '' to be visible in the cache after create'') e)))
            | None \<Rightarrow>
                (w1, claim\<lparr>ic_address_ref := om_name (ia_meta address)\<rparr>, Done (no_result, None))))"

definition deleted :: "'w \<times> ip_claim \<times> ctrl_result \<times> error option \<Rightarrow>
     'w \<times> ip_claim \<times> (ctrl_result \<times> error option) exec" where
  "deleted r = (case r of (w, claim, res, err) \<Rightarrow> (w, claim, Done (res, err)))"

definition reconcile_handle ::
  "'w kube \<Rightarrow> ('h, 'w) provider_adapter \<Rightarrow> ip_claim \<Rightarrow> 'w \<Rightarrow>
     'w \<times> ip_claim \<times> (ctrl_result \<times> error option) exec" where
  "reconcile_handle K A claim w =
     (case ch_FetchPool A (ad_ClaimHandlerFor A claim) w of
        (handler, pool, res, err) \<Rightarrow>
        if err \<noteq> None \<or> res \<noteq> None then
          (case err of
             None \<Rightarrow> (w, claim, Done (no_result, None))
           | Some e \<Rightarrow>
             if k_is_notfound K e then
               (if om_deletion (ic_meta claim) \<noteq> None then deleted (reconcileDelete K A claim handler w)
                else (w, claim, Done (no_result, None)))
             else (w, claim, Done (no_result, Some (Wrapped ''failed to fetch pool'' e))))
        else (case pool of
            None \<Rightarrow> (w, claim, Done (no_result,
              Some (Wrapped ''reconciliation failed'' (ErrorString ''pool is nil''))))
          | Some pool \<Rightarrow>
              if k_has_paused K (obj_meta pool) then (w, claim, Done (no_result, None))
              else if om_deletion (ic_meta claim) \<noteq> None
              then deleted (reconcileDelete K A claim handler w)
              else reconcile_allocate K A claim handler pool w))"

text \<open>From the patch helper on: the deferred patch runs on return and on panic.\<close>

definition reconcile_claim ::
  "'w kube \<Rightarrow> ('h, 'w) provider_adapter \<Rightarrow> ip_claim \<Rightarrow> 'w \<Rightarrow> 'w \<times> (ctrl_result \<times> error option) exec" where
  "reconcile_claim K A claim w =
     (case k_new_claim_helper K claim w of
        Some e \<Rightarrow> (w, Done (no_result, Some e))
      | None \<Rightarrow>
        (let (m, added) = k_add_finalizer K ReleaseAddressFinalizer (ic_meta claim);
             claim1 = claim\<lparr>ic_meta := m\<rparr>;
             (w1, claim2, r) =
               (if added then (w, claim1, Done (no_result, None)) else reconcile_handle K A claim1 w)
         in if r = Diverges then (w1, Diverges)
            else (let (w2, perr) = k_patch_claim K claim claim2 w1
                  in (w2, exec_bind r (\<lambda>(res, reterr).
                        Done (res, (case perr of None \<Rightarrow> reterr
                                    | Some e \<Rightarrow> k_aggregate K [reterr, Some e])))))))"

definition fetch_cluster :: "'w kube \<Rightarrow> ip_claim \<Rightarrow> 'w \<Rightarrow> error + cluster option" where
  "fetch_cluster K claim w =
     (if ic_cluster_name claim \<noteq> [] then
        map_sum id Some (k_cluster_by_name K (om_namespace (ic_meta claim)) (ic_cluster_name claim) w)
      else if om_labels (ic_meta claim) ClusterNameLabel \<noteq> None then
        map_sum id Some (k_cluster_from_metadata K (ic_meta claim) w)
      else Inr None)"

definition Reconcile ::
  "'w kube \<Rightarrow> ('h, 'w) provider_adapter \<Rightarrow> nsname \<Rightarrow> 'w \<Rightarrow> 'w \<times> (ctrl_result \<times> error option) exec" where
  "Reconcile K A req w =
     (case k_get_claim K req w of
        Inl e \<Rightarrow> (w, Done (no_result, if k_is_notfound K e then None else Some e))
      | Inr claim \<Rightarrow>
        (case fetch_cluster K claim w of
           Inl e \<Rightarrow>
             if \<not> k_is_notfound K e then (w, Done (no_result, Some e))
             else if om_deletion (ic_meta claim) \<noteq> None then reconcile_claim K A claim w
             else (w, Done (no_result, None))
         | Inr None \<Rightarrow> reconcile_claim K A claim w
         | Inr (Some cluster) \<Rightarrow>
             if k_is_paused K cluster then (w, Done (no_result, None))
             else reconcile_claim K A claim w))"

subsection \<open>Cluster events\<close>

definition cluster_update_func :: "'w kube \<Rightarrow> cluster \<Rightarrow> cluster \<Rightarrow> bool" where
  "cluster_update_func K oldCluster newCluster =
     (k_is_paused K oldCluster \<and> \<not> k_is_paused K newCluster)"

definition cluster_create_func :: "'w kube \<Rightarrow> cluster \<Rightarrow> bool" where
  "cluster_create_func K cluster = (\<not> k_is_paused K cluster)"

definition cluster_delete_func :: "'w kube \<Rightarrow> cluster \<Rightarrow> bool" where
  "cluster_delete_func K cluster = (\<not> k_is_paused K cluster)"

definition clusterToIPClaims :: "'w kube \<Rightarrow> api_object \<Rightarrow> 'w \<Rightarrow> nsname list" where
  "clusterToIPClaims K a w =
     (case k_list_claims K ''clusterName'' (om_name (api_meta a)) [] w of
        Inl e \<Rightarrow> []
      | Inr claims \<Rightarrow> map (\<lambda>c. (om_namespace (ic_meta c), om_name (ic_meta c))) claims)"

end
