(* ===== verification/ReconcileEffects.thy ===== *)
theory ReconcileEffects
  imports Reconciler
begin

text \<open>
  What a reconciliation does to the stored addresses and claims, for every provider: it
  touches the address and the claim of its own name only, and changes an address in one of
  two ways, releasing it or allocating it. Proved from \<open>kube_laws\<close>.
\<close>

subsection \<open>Objects that differ in metadata\<close>

definition same_content :: "ip_address \<Rightarrow> ip_address \<Rightarrow> bool" where
  "same_content a b \<longleftrightarrow> b = a\<lparr>ia_meta := ia_meta b\<rparr>"

lemma same_content_refl [simp]: "same_content a a"
  by (simp add: same_content_def)

lemma same_content_meta [simp]: "same_content a (a\<lparr>ia_meta := m\<rparr>)"
  by (simp add: same_content_def)

lemma same_content_trans: "same_content a b \<Longrightarrow> same_content b c \<Longrightarrow> same_content a c"
  by (cases a; cases b; cases c) (auto simp: same_content_def)

lemma same_content_settle: "settle_address a = Some b \<Longrightarrow> b = a"
  by (simp add: settle_address_def split: if_splits)

text \<open>The claim a reconciliation works on: its key and pool reference do not change.\<close>

definition same_claim :: "ip_claim \<Rightarrow> ip_claim \<Rightarrow> bool" where
  "same_claim c d \<longleftrightarrow> claim_key d = claim_key c \<and> ic_pool_ref d = ic_pool_ref c
     \<and> om_deletion (ic_meta d) = om_deletion (ic_meta c)"

lemma same_claim_refl [simp]: "same_claim c c"
  by (simp add: same_claim_def)

text \<open>What a release may do to the address \<open>k\<close>.\<close>

definition released :: "nsname \<Rightarrow> (nsname \<Rightarrow> ip_address option) \<Rightarrow> (nsname \<Rightarrow> ip_address option) \<Rightarrow> bool" where
  "released k S S' \<longleftrightarrow>
     (\<forall>j. j \<noteq> k \<longrightarrow> S' j = S j)
     \<and> (\<forall>b. S' k = Some b \<longrightarrow> (\<exists>a. S k = Some a \<and> same_content a b))"

definition gone :: "nsname \<Rightarrow> (nsname \<Rightarrow> ip_address option) \<Rightarrow> bool" where
  "gone k S \<longleftrightarrow> (\<forall>a. S k = Some a \<longrightarrow> om_deletion (ia_meta a) \<noteq> None)"

lemma released_refl [simp]: "released k S S"
  by (simp add: released_def)

lemma released_other: "released k S S' \<Longrightarrow> j \<noteq> k \<Longrightarrow> S' j = S j"
  unfolding released_def by blast

lemma released_trans:
  assumes "released k S T" "released k T U"
  shows "released k S U"
  unfolding released_def
proof (intro conjI allI impI)
  show "U j = S j" if "j \<noteq> k" for j
    using released_other [OF assms(1) that] released_other [OF assms(2) that] by simp
  fix c assume "U k = Some c"
  with assms(2) obtain b where b: "T k = Some b" "same_content b c" unfolding released_def by blast
  with assms(1) obtain a where "S k = Some a" "same_content a b" unfolding released_def by blast
  with b same_content_trans show "\<exists>a. S k = Some a \<and> same_content a c" by blast
qed

lemma released_settle:
  assumes "S k = Some a" "same_content a b"
  shows "released k S (S(k := settle_address b))"
  using assms same_content_settle by (auto simp: released_def)

context kube_laws
begin

subsection \<open>The release\<close>

lemma remove_finalizer_claim:
  "fst (k_remove_finalizer K f (ic_meta c)) =
     (ic_meta c)\<lparr>om_finalizers := filter (\<lambda>g. g \<noteq> f) (om_finalizers (ic_meta c))\<rparr>"
  by (simp add: remove_finalizer)

lemma patch_released:
  assumes "k_patch_address K a b w = (w1, r)" "st_addr w k = Some a" "same_content a b"
    "address_key b = k"
  shows "released k (st_addr w) (st_addr w1)" "st_claim w1 = st_claim w"
proof -
  have "address_key a = k" using assms(2) by (rule stored_keys)
  with patch_address [OF assms(1)] assms(4)
  have "st_addr w1 = (st_addr w)(k := settle_address b) \<or> st_addr w1 = st_addr w" and "st_claim w1 = st_claim w"
    by auto
  then show "released k (st_addr w) (st_addr w1)" "st_claim w1 = st_claim w"
    using released_settle [of "st_addr w" k a b] assms(2,3) by auto
qed

lemma delete_released:
  assumes "k_delete_address K a w = (w1, r)" "address_key a = k"
  shows "released k (st_addr w) (st_addr w1)" "st_claim w1 = st_claim w"
    "r = None \<Longrightarrow> gone k (st_addr w1)"
proof -
  note law = delete_address [OF assms(1), unfolded assms(2)]
  then show "st_claim w1 = st_claim w" by blast
  show "released k (st_addr w) (st_addr w1)"
  proof (cases "st_addr w k")
    case None
    with law show ?thesis by auto
  next
    case (Some b)
    with law obtain t where "st_addr w1 = (st_addr w)(k :=
        settle_address (b\<lparr>ia_meta := (ia_meta b)\<lparr>om_deletion := Some t\<rparr>\<rparr>)) \<or> st_addr w1 = st_addr w" by auto
    then show ?thesis using released_settle [of "st_addr w" k b, OF Some same_content_meta] by auto
  qed
  assume "r = None"
  with law obtain b t where "st_addr w1 = (st_addr w)(k :=
        settle_address (b\<lparr>ia_meta := (ia_meta b)\<lparr>om_deletion := Some t\<rparr>\<rparr>))"
    by (auto split: option.splits)
  then show "gone k (st_addr w1)" by (auto simp: gone_def settle_address_def)
qed

text \<open>
  \<open>reconcileDelete\<close> releases the address, and the claim it returns has lost the finalizer
  only if the address is gone or marked for deletion.
\<close>

lemma reconcileDelete_effect:
  assumes "reconcileDelete K A claim handler w = (w', claim', res, err)" "claim_key claim = k"
  shows "released k (st_addr w) (st_addr w')" "st_claim w' = st_claim w" "same_claim claim claim'"
    and "claim' = claim \<or> err = None \<and> res = no_result \<and>
      claim' = claim\<lparr>ic_meta := (ic_meta claim)\<lparr>om_finalizers :=
        filter (\<lambda>g. g \<noteq> ReleaseAddressFinalizer) (om_finalizers (ic_meta claim))\<rparr>\<rparr>
      \<and> (snd k \<noteq> [] \<longrightarrow> gone k (st_addr w'))"
proof -
  define fin where "fin = claim\<lparr>ic_meta := fst (k_remove_finalizer K ReleaseAddressFinalizer (ic_meta claim))\<rparr>"
  obtain rr re where rel: "ch_ReleaseAddress A handler w = (rr, re)" by force
  have key: "(om_namespace (ic_meta claim), om_name (ic_meta claim)) = k"
    using assms(2) by (simp add: claim_key_def)
  consider (stay) "w' = w" "claim' = claim"
    | (finish) "claim' = fin" "err = None" "res = no_result" "released k (st_addr w) (st_addr w')"
        "st_claim w' = st_claim w" "snd k \<noteq> [] \<longrightarrow> gone k (st_addr w')"
    | (failed) "claim' = claim" "released k (st_addr w) (st_addr w')" "st_claim w' = st_claim w"
  proof (cases "re \<noteq> None \<or> (case rr of None \<Rightarrow> False | Some r \<Rightarrow> Requeue r \<or> 0 < RequeueAfter r)")
    case True
    with assms(1) rel show ?thesis
      by (intro stay) (auto simp: reconcileDelete_def split: option.splits if_splits)
  next
    case go: False
    note simps = reconcileDelete_def Let_def rel key fin_def [symmetric]
    show ?thesis
    proof (cases "k_get_address K k w")
      case (Inl e)
      show ?thesis
      proof (cases "k_is_notfound K e")
        case False
        with assms(1) go Inl show ?thesis by (intro stay) (simp_all add: simps)
      next
        case True
        with assms(1) go Inl get_address(2) [OF Inl] show ?thesis
          by (intro finish) (simp_all add: simps gone_def)
      qed
    next
      case (Inr a)
      have a: "st_addr w k = Some a" "address_key a = k"
        using get_address(1) [OF Inr] by (simp_all add: stored_keys)
      show ?thesis
      proof (cases "om_name (ia_meta a) = []")
        case True
        with assms(1) go Inr a show ?thesis
          by (intro finish) (auto simp: simps address_key_def)
      next
        case named: False
        define m removed b where "m = fst (k_remove_finalizer K ProtectAddressFinalizer (ia_meta a))"
          and "removed = snd (k_remove_finalizer K ProtectAddressFinalizer (ia_meta a))"
          and "b = a\<lparr>ia_meta := m\<rparr>"
        have rem: "k_remove_finalizer K ProtectAddressFinalizer (ia_meta a) = (m, removed)"
          by (simp add: m_def removed_def)
        have b: "address_key b = k" "same_content a b"
          using a(2) by (simp_all add: b_def m_def address_key_def remove_finalizer)
        obtain w1 r1 where p1: "(if removed then k_patch_address K a b w else (w, None)) = (w1, r1)" by force
        have rel1: "released k (st_addr w) (st_addr w1)" "st_claim w1 = st_claim w"
          using p1 patch_released [OF _ a(1) b(2,1)] by (auto split: if_splits)
        obtain w2 r2 where p2: "k_delete_address K b w1 = (w2, r2)" by force
        note rel2 = delete_released [OF p2 b(1)]
        show ?thesis
        proof (cases r1)
          case (Some e)
          have eq: "reconcileDelete K A claim handler w =
              (if \<not> k_is_notfound K e
               then (w1, claim, no_result, Some (Wrapped ''failed to remove address finalizer'' e))
               else (w1, fin, no_result, None))"
            using go by (simp add: simps Inr named rem p1 [unfolded b_def] Some)
          have "st_addr w1 k = None" if "k_is_notfound K e"
            using p1 Some that b(1) patch_address_notfound by (auto split: if_splits)
          then show ?thesis using assms(1) eq rel1
            by (cases "k_is_notfound K e") (auto simp: gone_def intro: finish failed)
        next
          case None
          have eq: "reconcileDelete K A claim handler w =
              (case r2 of Some e \<Rightarrow> if \<not> k_is_notfound K e then (w2, claim, no_result, Some e)
                  else (w2, fin, no_result, None)
               | None \<Rightarrow> (w2, fin, no_result, None))"
            using go by (simp add: simps Inr named rem p1 [unfolded b_def] p2 [unfolded b_def] None)
          have rel12: "released k (st_addr w) (st_addr w2)" "st_claim w2 = st_claim w"
            using rel1 rel2 released_trans by auto
          have "st_addr w2 k = None" if "r2 = Some e" "k_is_notfound K e" for e
            using p2 that b(1) delete_address_notfound by metis
          then show ?thesis using assms(1) eq rel12 rel2(3)
            by (cases r2) (auto simp: gone_def intro: finish failed split: if_splits)
        qed
      qed
    qed
  qed
  note cases = this
  show "released k (st_addr w) (st_addr w')" "st_claim w' = st_claim w"
    by (rule cases, simp_all)+
  have fin: "fin = claim\<lparr>ic_meta := (ic_meta claim)\<lparr>om_finalizers :=
        filter (\<lambda>g. g \<noteq> ReleaseAddressFinalizer) (om_finalizers (ic_meta claim))\<rparr>\<rparr>"
    by (simp only: fin_def remove_finalizer_claim)
  have same: "same_claim claim fin" by (simp add: fin same_claim_def claim_key_def)
  show "same_claim claim claim'" by (rule cases) (simp_all add: same)
  show "claim' = claim \<or> err = None \<and> res = no_result \<and>
      claim' = claim\<lparr>ic_meta := (ic_meta claim)\<lparr>om_finalizers :=
        filter (\<lambda>g. g \<noteq> ReleaseAddressFinalizer) (om_finalizers (ic_meta claim))\<rparr>\<rparr>
      \<and> (snd k \<noteq> [] \<longrightarrow> gone k (st_addr w'))"
    unfolding fin [symmetric] by (rule cases) simp_all
qed

subsection \<open>The allocation\<close>

lemma ensure_owner_refs:
  assumes "ensureIPAddressOwnerReferences K a c p = r"
  shows "(\<exists>e. r = Done (Inl e)) \<or> (\<exists>refs. r = Done (Inr (a\<lparr>ia_meta := (ia_meta a)\<lparr>om_owners := refs\<rparr>\<rparr>)))"
proof -
  have step: "\<exists>refs. m1 = (ia_meta a)\<lparr>om_owners := refs\<rparr>"
    if "(case k_set_controller_ref K c (ia_meta a) of
            Inl e \<Rightarrow> if e \<noteq> AlreadyOwned then Inl e else Inr (ia_meta a) | Inr m \<Rightarrow> Inr m) = Inr m1" for m1
  proof (cases "k_set_controller_ref K c (ia_meta a)")
    case (Inl e)
    with that have "m1 = (ia_meta a)\<lparr>om_owners := om_owners (ia_meta a)\<rparr>" by (simp split: if_splits)
    then show ?thesis by blast
  next
    case (Inr m)
    with that controller_ref show ?thesis by simp
  qed
  have index: "pool_ref_index K p refs i j < n" if "j < n" "i + length refs \<le> n" for refs i j n
    using that by (induction refs arbitrary: i j) auto
  show ?thesis
  proof (cases "(case k_set_controller_ref K c (ia_meta a) of
            Inl e \<Rightarrow> if e \<noteq> AlreadyOwned then Inl e else Inr (ia_meta a) | Inr m \<Rightarrow> Inr m)")
    case (Inl e)
    with assms show ?thesis by (auto simp: ensureIPAddressOwnerReferences_def)
  next
    case (Inr m1)
    note m1 = this
    show ?thesis
    proof (cases "k_set_owner_ref K p m1")
      case (Inl e)
      with assms m1 show ?thesis by (auto simp: ensureIPAddressOwnerReferences_def)
    next
      case (Inr m2)
      obtain refs where refs: "m2 = m1\<lparr>om_owners := refs\<rparr>" "refs \<noteq> []" using owner_ref [OF Inr] by blast
      have "pool_ref_index K p refs 0 0 < length refs" using refs(2) by (intro index) simp_all
      with assms m1 Inr refs step [OF m1] show ?thesis
        by (auto simp: ensureIPAddressOwnerReferences_def Let_def)
    qed
  qed
qed

text \<open>
  The mutate function runs if \<open>EnsureAddress\<close> does, keeps what that call decided, and adds
  the finalizer.
\<close>

lemma ensure_address_cases:
  assumes "ch_EnsureAddress A handler w base = Done (a', res, err)"
  obtains (error) e where "ensure_address K A handler claim pool w base = Done (res, Inl e)"
    | (ok) new where "err = None" "ensure_address K A handler claim pool w base = Done (res, Inr new)"
        "same_content a' new" "address_key new = address_key a'"
        "om_deletion (ia_meta new) = om_deletion (ia_meta a')"
        "ProtectAddressFinalizer \<in> set (om_finalizers (ia_meta new))"
proof (cases err)
  case (Some e)
  with assms show ?thesis by (intro error) (simp add: ensure_address_def)
next
  case None
  consider (err) e where "ensureIPAddressOwnerReferences K a' claim pool = Done (Inl e)"
    | (owned) refs where "ensureIPAddressOwnerReferences K a' claim pool =
        Done (Inr (a'\<lparr>ia_meta := (ia_meta a')\<lparr>om_owners := refs\<rparr>\<rparr>))"
    using ensure_owner_refs by blast
  then show ?thesis
  proof cases
    case err
    with assms None show ?thesis by (intro error) (simp add: ensure_address_def)
  next
    case owned
    define m m' where "m = (ia_meta a')\<lparr>om_owners := refs\<rparr>"
      and "m' = (case om_labels (ic_meta claim) ClusterNameLabel of
        Some v \<Rightarrow> m\<lparr>om_labels := (om_labels m)(ClusterNameLabel \<mapsto> v)\<rparr> | None \<Rightarrow> m)"
    define new where "new = a'\<lparr>ia_meta := fst (k_add_finalizer K ProtectAddressFinalizer m')\<rparr>"
    have m': "om_name m' = om_name (ia_meta a')" "om_namespace m' = om_namespace (ia_meta a')"
      "om_deletion m' = om_deletion (ia_meta a')"
      by (simp_all add: m'_def m_def split: option.splits)
    have "ensure_address K A handler claim pool w base = Done (res, Inr new)"
      using assms None owned
      by (cases "om_labels (ic_meta claim) ClusterNameLabel")
        (simp_all add: ensure_address_def Let_def new_def m'_def m_def)
    then show ?thesis
      by (rule ok [OF None]) (use m' in \<open>auto simp: new_def add_finalizer address_key_def\<close>)
  qed
qed

lemma ensure_address_diverges:
  "(\<forall>v. ch_EnsureAddress A handler w base \<noteq> Done v) \<Longrightarrow>
   \<forall>v. ensure_address K A handler claim pool w base \<noteq> Done v"
  by (cases "ch_EnsureAddress A handler w base") (simp_all add: ensure_address_def)

subsection \<open>A reconciliation\<close>

text \<open>The existing address of a claim, or the new object.\<close>

lemma reconcile_allocate_cases:
  assumes "reconcile_allocate K A claim h pool w = (w', claim', r)" "claim_key claim = k"
  obtains (same) "st_addr w' = st_addr w" "st_claim w' = st_claim w" "same_claim claim claim'"
      "om_finalizers (ic_meta claim') = om_finalizers (ic_meta claim)"
    | (allocate) base res new where
      "base = (case st_addr w k of None \<Rightarrow> NewIPAddress claim pool | Some b \<Rightarrow> b)"
      "ensure_address K A h claim pool w base = Done (res, Inr new)"
      "st_addr w' = (st_addr w)(k := settle_address new)" "address_key new = k"
      "st_claim w' = st_claim w" "same_claim claim claim'"
      "om_finalizers (ic_meta claim') = om_finalizers (ic_meta claim)"
proof -
  obtain w1 x where cp: "k_create_or_patch K (NewIPAddress claim pool)
      (ensure_address K A h claim pool w) w = (w1, x)" by force
  have key: "address_key (NewIPAddress claim pool) = k"
    using assms(2) by (simp add: NewIPAddress_def address_key_def claim_key_def empty_meta_def)
  have out: "w' = w1" "same_claim claim claim'"
    "om_finalizers (ic_meta claim') = om_finalizers (ic_meta claim)"
    using assms(1) cp by (auto simp: reconcile_allocate_def same_claim_def claim_key_def
        split: exec.splits sum.splits if_splits option.splits prod.splits)
  show ?thesis
  proof (cases "\<forall>v. x \<noteq> Done v")
    case True
    from create_or_patch_panic [OF cp this] out show ?thesis by (intro same) simp_all
  next
    case False
    then obtain res o' where x: "x = Done (res, o')" by auto
    from create_or_patch [OF cp [unfolded x], unfolded key]
    consider "st_addr w1 = st_addr w" "st_claim w1 = st_claim w"
      | new where "ensure_address K A h claim pool w
            (case st_addr w k of None \<Rightarrow> NewIPAddress claim pool | Some b \<Rightarrow> b) = Done (res, Inr new)"
          "address_key new = k" "st_addr w1 = (st_addr w)(k := settle_address new)"
          "st_claim w1 = st_claim w"
      by blast
    then show ?thesis
    proof cases
      case 1
      with out show ?thesis by (intro same) simp_all
    next
      case (2 new)
      from out 2 show ?thesis by (intro allocate [OF refl 2(1)]) simp_all
    qed
  qed
qed

lemma reconcile_handle_cases:
  assumes "reconcile_handle K A claim w = (w', claim', r)" "claim_key claim = k"
  obtains (same) "st_addr w' = st_addr w" "st_claim w' = st_claim w" "same_claim claim claim'"
      "om_finalizers (ic_meta claim') = om_finalizers (ic_meta claim)"
    | (release) h res err where "om_deletion (ic_meta claim) \<noteq> None"
      "fst (ch_FetchPool A (ad_ClaimHandlerFor A claim) w) = h"
      "reconcileDelete K A claim h w = (w', claim', res, err)" "r = Done (res, err)"
    | (allocate) h pool base res new where "om_deletion (ic_meta claim) = None"
      "ch_FetchPool A (ad_ClaimHandlerFor A claim) w = (h, Some pool, None, None)"
      "\<not> k_has_paused K (obj_meta pool)"
      "base = (case st_addr w k of None \<Rightarrow> NewIPAddress claim pool | Some b \<Rightarrow> b)"
      "ensure_address K A h claim pool w base = Done (res, Inr new)"
      "st_addr w' = (st_addr w)(k := settle_address new)" "address_key new = k"
      "st_claim w' = st_claim w" "same_claim claim claim'"
      "om_finalizers (ic_meta claim') = om_finalizers (ic_meta claim)"
proof -
  obtain h p res err where fetch: "ch_FetchPool A (ad_ClaimHandlerFor A claim) w = (h, p, res, err)"
    by (cases "ch_FetchPool A (ad_ClaimHandlerFor A claim) w") auto
  have del: ?thesis if "deleted (reconcileDelete K A claim h w) = (w', claim', r)"
    "om_deletion (ic_meta claim) \<noteq> None"
    using that fetch
    by (cases "reconcileDelete K A claim h w") (auto simp: deleted_def intro: release [of h])
  have stay: ?thesis if "w' = w" "claim' = claim" using that by (intro same) simp_all
  show ?thesis
  proof (cases "err \<noteq> None \<or> res \<noteq> None")
    case True
    with assms(1) fetch del stay show ?thesis
      by (auto simp: reconcile_handle_def split: option.splits if_splits)
  next
    case False
    show ?thesis
    proof (cases p)
      case None
      with assms(1) fetch False stay show ?thesis by (auto simp: reconcile_handle_def)
    next
      case (Some pool)
      consider (paused) "w' = w" "claim' = claim"
        | (del) "om_deletion (ic_meta claim) \<noteq> None"
          "deleted (reconcileDelete K A claim h w) = (w', claim', r)"
        | (alloc) "\<not> k_has_paused K (obj_meta pool)" "om_deletion (ic_meta claim) = None"
          "reconcile_allocate K A claim h pool w = (w', claim', r)"
        using assms(1) fetch False Some by (auto simp: reconcile_handle_def split: if_splits)
      then show ?thesis
      proof cases
        case alloc
        have f: "ch_FetchPool A (ad_ClaimHandlerFor A claim) w = (h, Some pool, None, None)"
          using fetch False Some by simp
        from alloc(3) assms(2) show ?thesis
          by (rule reconcile_allocate_cases) (rule same, assumption+, rule allocate [OF alloc(2) f alloc(1)])
      qed (use stay del in blast)+
    qed
  qed
qed

text \<open>
  The whole reconciliation. Everything but the first case needs the finalizer that an
  earlier reconciliation has stored in the claim.
\<close>

lemma reconcile_claim_cases:
  assumes "reconcile_claim K A c w = (w', r)" "st_claim w k = Some c"
  obtains (same) "st_addr w' = st_addr w"
      "st_claim w' = st_claim w \<or> (\<exists>d. same_claim c d \<and> st_claim w' = (st_claim w)(k := settle_claim d)
         \<and> ReleaseAddressFinalizer \<in> set (om_finalizers (ic_meta d)))"
    | (release) h d w1 res err where "ReleaseAddressFinalizer \<in> set (om_finalizers (ic_meta c))"
      "om_deletion (ic_meta c) \<noteq> None" "fst (ch_FetchPool A (ad_ClaimHandlerFor A c) w) = h"
      "reconcileDelete K A c h w = (w1, d, res, err)"
      "st_addr w' = st_addr w1"
      "st_claim w' = st_claim w \<or> st_claim w' = (st_claim w)(k := settle_claim d)"
    | (allocate) h pool base res new where "ReleaseAddressFinalizer \<in> set (om_finalizers (ic_meta c))"
      "om_deletion (ic_meta c) = None"
      "ch_FetchPool A (ad_ClaimHandlerFor A c) w = (h, Some pool, None, None)"
      "\<not> k_has_paused K (obj_meta pool)"
      "base = (case st_addr w k of None \<Rightarrow> NewIPAddress c pool | Some b \<Rightarrow> b)"
      "ensure_address K A h c pool w base = Done (res, Inr new)"
      "st_addr w' = (st_addr w)(k := settle_address new)" "address_key new = k"
      "st_claim w' = st_claim w \<or> (\<exists>d. same_claim c d \<and> st_claim w' = (st_claim w)(k := settle_claim d)
         \<and> ReleaseAddressFinalizer \<in> set (om_finalizers (ic_meta d)))"
proof -
  have key: "claim_key c = k" using assms(2) by (rule stored_keys)
  have patched: "st_addr w2 = st_addr w1
      \<and> (st_claim w2 = st_claim w1 \<or> st_claim w2 = (st_claim w1)(k := settle_claim d))"
    if "k_patch_claim K c d w1 = (w2, x)" "same_claim c d" for w1 w2 d x
    using patch_claim [OF that(1)] that(2) key by (auto simp: same_claim_def)
  show ?thesis
  proof (cases "k_new_claim_helper K c w \<noteq> None")
    case True
    with assms show ?thesis by (intro same) (auto simp: reconcile_claim_def)
  next
    case helper: False
    show ?thesis
    proof (cases "ReleaseAddressFinalizer \<in> set (om_finalizers (ic_meta c))")
      case False
      define d where "d = c\<lparr>ic_meta := (ic_meta c)\<lparr>om_finalizers := om_finalizers (ic_meta c) @ [ReleaseAddressFinalizer]\<rparr>\<rparr>"
      obtain w2 x where p: "k_patch_claim K c d w = (w2, x)" by force
      have "w' = w2" using assms(1) helper False p
        by (simp add: reconcile_claim_def add_finalizer d_def)
      moreover have d: "same_claim c d" by (simp add: same_claim_def d_def claim_key_def)
      moreover have "ReleaseAddressFinalizer \<in> set (om_finalizers (ic_meta d))" by (simp add: d_def)
      ultimately show ?thesis using patched [OF p d] by (intro same) auto
    next
      case fin: True
      obtain w1 d r1 where h: "reconcile_handle K A c w = (w1, d, r1)" by (cases "reconcile_handle K A c w") auto
      consider (div) "w' = w1" | (patch) x where "k_patch_claim K c d w1 = (w', x)"
        using assms(1) helper fin h
        by (cases "r1 = Diverges"; cases "k_patch_claim K c d w1") (auto simp: reconcile_claim_def add_finalizer)
      then have end_state: "st_addr w' = st_addr w1
          \<and> (st_claim w' = st_claim w1 \<or> st_claim w' = (st_claim w1)(k := settle_claim d))"
        if "same_claim c d"
        using patched that by cases auto
      show ?thesis using h key
      proof (cases rule: reconcile_handle_cases)
        case same': same
        with end_state fin show ?thesis by (intro same) auto
      next
        case del: (release h res err)
        from reconcileDelete_effect [OF del(3) key] end_state fin del show ?thesis
          by (intro release [OF fin del(1,2,3)]) auto
      next
        case (allocate h pool base res new)
        with end_state fin show ?thesis
          by (intro that(3) [OF fin allocate(1-5)]) auto
      qed
    qed
  qed
qed

lemma Reconcile_cases:
  assumes "Reconcile K A k w = (w', r)"
  obtains (none) v where "w' = w" "r = Done v"
    | (claim) c where "st_claim w k = Some c" "reconcile_claim K A c w = (w', r)"
  using assms get_claim(1) [of k w]
  by (auto simp: Reconcile_def split: sum.splits option.splits if_splits)

text \<open>
  A reconciliation returns unless \<open>EnsureAddress\<close> panics or diverges; then it does the same.
\<close>

lemma ensure_address_not_Done:
  assumes "ensure_address K A h c p w b = x" "\<forall>v. x \<noteq> Done v"
  shows "\<exists>m. ch_EnsureAddress A h w b = Panicked m \<and> x = Panicked m
    \<or> ch_EnsureAddress A h w b = Diverges \<and> x = Diverges"
proof (cases "ch_EnsureAddress A h w b")
  case (Done v)
  obtain a res err where v: "v = (a, res, err)" by (cases v)
  show ?thesis
    by (rule ensure_address_cases [OF Done [unfolded v], of c p]) (use assms in auto)
qed (use assms in \<open>auto simp: ensure_address_def\<close>)

end

text \<open>A result that is not a return, and the call that caused it.\<close>

definition stuck ::
  "('h, 'w) provider_adapter \<Rightarrow> ip_claim \<Rightarrow> 'w \<Rightarrow> (ctrl_result \<times> error option) exec \<Rightarrow> bool" where
  "stuck A c w r \<longleftrightarrow>
     (\<exists>h p b. ch_FetchPool A (ad_ClaimHandlerFor A c) w = (h, Some p, None, None)
       \<and> ((\<exists>m. ch_EnsureAddress A h w b = Panicked m \<and> r = Panicked m)
          \<or> ch_EnsureAddress A h w b = Diverges \<and> r = Diverges))"

context kube_laws
begin

lemma reconcile_handle_returns:
  assumes "reconcile_handle K A c w = (w', c', r)"
  shows "(\<exists>v. r = Done v) \<or> stuck A c w r"
proof -
  obtain h p res err where fetch: "ch_FetchPool A (ad_ClaimHandlerFor A c) w = (h, p, res, err)"
    by (cases "ch_FetchPool A (ad_ClaimHandlerFor A c) w") auto
  have del: "\<exists>v. r = Done v" if "deleted (reconcileDelete K A c h w) = (w', c', r)"
    using that by (cases "reconcileDelete K A c h w") (auto simp: deleted_def)
  show ?thesis
  proof (cases "p = None \<or> err \<noteq> None \<or> res \<noteq> None")
    case True
    with assms fetch del show ?thesis
      by (auto simp: reconcile_handle_def split: option.splits if_splits)
  next
    case False
    then obtain pool where pool: "ch_FetchPool A (ad_ClaimHandlerFor A c) w = (h, Some pool, None, None)"
      using fetch by auto
    consider "\<exists>v. r = Done v" | "reconcile_allocate K A c h pool w = (w', c', r)"
      using assms pool del by (auto simp: reconcile_handle_def split: if_splits)
    then show ?thesis
    proof cases
      case 2
      obtain w1 x where cp: "k_create_or_patch K (NewIPAddress c pool)
          (ensure_address K A h c pool w) w = (w1, x)" by force
      show ?thesis
      proof (cases "\<forall>v. x \<noteq> Done v")
        case True
        from create_or_patch_panic [OF cp True] obtain b where b: "ensure_address K A h c pool w b = x"
          by blast
        from ensure_address_not_Done [OF this True]
        consider m where "ch_EnsureAddress A h w b = Panicked m" "x = Panicked m"
          | "ch_EnsureAddress A h w b = Diverges" "x = Diverges" by blast
        then have "stuck A c w r"
          unfolding stuck_def using pool 2 cp
          by cases (intro exI conjI, assumption, auto simp: reconcile_allocate_def)+
        then show ?thesis ..
      next
        case False
        with 2 cp show ?thesis
          by (auto simp: reconcile_allocate_def split: sum.splits option.splits if_splits)
      qed
    qed simp
  qed
qed

lemma Reconcile_returns:
  assumes "Reconcile K A k w = (w', r)"
  shows "(\<exists>v. r = Done v) \<or> (\<exists>c. st_claim w k = Some c \<and> stuck A c w r)"
  using assms
proof (cases rule: Reconcile_cases)
  case (claim c)
  show ?thesis
  proof (cases "ReleaseAddressFinalizer \<in> set (om_finalizers (ic_meta c)) \<and> k_new_claim_helper K c w = None")
    case False
    with claim(2) show ?thesis
      by (cases "k_new_claim_helper K c w")
        (auto simp: reconcile_claim_def add_finalizer split: prod.splits)
  next
    case True
    obtain w1 d r1 where h: "reconcile_handle K A c w = (w1, d, r1)"
      by (cases "reconcile_handle K A c w") auto
    from reconcile_handle_returns [OF h] claim True h show ?thesis
      by (cases r1) (auto simp: reconcile_claim_def add_finalizer stuck_def split: prod.splits)
  qed
qed simp

end

end
