(* ===== verification/ClaimLifecycle.thy ===== *)
theory ClaimLifecycle
  imports ReconcileEffects
begin

text \<open>
  The life of claims and addresses under any sequence of reconciliations and steps of
  others (users, the garbage collector, other controllers). The locale \<open>adapter_laws\<close> is
  the contract of the interface \<open>ClaimHandler\<close>; a provider that keeps it never hands out
  the same address twice.
\<close>

declare split_paired_All [simp del] split_paired_Ex [simp del]

subsection \<open>Reachable states\<close>

inductive reachable ::
  "'w kube \<Rightarrow> ('h, 'w) provider_adapter \<Rightarrow> ('w \<Rightarrow> 'w \<Rightarrow> bool) \<Rightarrow> 'w \<Rightarrow> 'w \<Rightarrow> bool"
  for K A env w0 where
  start: "reachable K A env w0 w0"
| reconcile: "reachable K A env w0 w \<Longrightarrow> Reconcile K A req w = (w', r) \<Longrightarrow> reachable K A env w0 w'"
| others: "reachable K A env w0 w \<Longrightarrow> env w w' \<Longrightarrow> reachable K A env w0 w'"

inductive_cases reachable_elim: "reachable K A env w0 w"

text \<open>An invariant that reconciliations and the steps of others preserve.\<close>

lemma reachable_invariant:
  assumes "reachable K A env w0 w" "P w0"
    and "\<And>w w' req r. P w \<Longrightarrow> Reconcile K A req w = (w', r) \<Longrightarrow> P w'"
    and "\<And>w w'. P w \<Longrightarrow> env w w' \<Longrightarrow> P w'"
  shows "P w"
  using assms(1)
proof induction
  case start
  show ?case by (rule assms(2))
next
  case (reconcile w req w' r)
  show ?case by (rule assms(3) [OF reconcile.IH reconcile.hyps(2)])
next
  case (others w w')
  show ?case by (rule assms(4) [OF others.IH others.hyps(2)])
qed

subsection \<open>What others may do\<close>

text \<open>
  Others may remove addresses and change their metadata, but create none and change no
  spec. They keep a finalizer that is not theirs.
\<close>

definition addresses_only_shrink ::
  "(nsname \<Rightarrow> ip_address option) \<Rightarrow> (nsname \<Rightarrow> ip_address option) \<Rightarrow> bool" where
  "addresses_only_shrink S S' \<longleftrightarrow>
     (\<forall>k b. S' k = Some b \<longrightarrow> (\<exists>a. S k = Some a \<and> same_content a b
        \<and> (om_deletion (ia_meta a) \<noteq> None \<longrightarrow> om_deletion (ia_meta b) \<noteq> None)))"

definition finalizers_kept ::
  "(nsname \<Rightarrow> ip_claim option) \<Rightarrow> (nsname \<Rightarrow> ip_claim option) \<Rightarrow> bool" where
  "finalizers_kept C C' \<longleftrightarrow>
     (\<forall>k c. C k = Some c \<and> ReleaseAddressFinalizer \<in> set (om_finalizers (ic_meta c)) \<longrightarrow>
        (\<exists>d. C' k = Some d \<and> ReleaseAddressFinalizer \<in> set (om_finalizers (ic_meta d))))"

subsection \<open>No address leaks\<close>

text \<open>Every address that is not being deleted has a claim that waits for its release.\<close>

definition no_leak ::
  "(nsname \<Rightarrow> ip_address option) \<Rightarrow> (nsname \<Rightarrow> ip_claim option) \<Rightarrow> bool" where
  "no_leak S C \<longleftrightarrow>
     (\<forall>k. snd k \<noteq> [] \<longrightarrow> gone k S \<or>
        (\<exists>c. C k = Some c \<and> ReleaseAddressFinalizer \<in> set (om_finalizers (ic_meta c))))"

lemma no_leak_others:
  assumes "no_leak S C" "addresses_only_shrink S S'" "finalizers_kept C C'"
  shows "no_leak S' C'"
  unfolding no_leak_def
proof (intro allI impI)
  fix k :: nsname assume "snd k \<noteq> []"
  then consider "gone k S"
    | c where "C k = Some c" "ReleaseAddressFinalizer \<in> set (om_finalizers (ic_meta c))"
    using assms(1) unfolding no_leak_def by blast
  then show "gone k S' \<or> (\<exists>c. C' k = Some c \<and> ReleaseAddressFinalizer \<in> set (om_finalizers (ic_meta c)))"
  proof cases
    case 1
    have "gone k S'" unfolding gone_def
    proof (intro allI impI)
      fix b assume "S' k = Some b"
      with assms(2) obtain a where "S k = Some a"
        "om_deletion (ia_meta a) \<noteq> None \<longrightarrow> om_deletion (ia_meta b) \<noteq> None"
        unfolding addresses_only_shrink_def by blast
      with 1 show "om_deletion (ia_meta b) \<noteq> None" by (simp add: gone_def)
    qed
    then show ?thesis ..
  next
    case 2
    with assms(3) show ?thesis unfolding finalizers_kept_def by blast
  qed
qed

lemma settle_claim_finalizer:
  "f \<in> set (om_finalizers (ic_meta d)) \<Longrightarrow> settle_claim d = Some d"
  by (auto simp: settle_claim_def)

context kube_laws
begin

text \<open>A reconciliation writes to the address and the claim of its own name only.\<close>

lemma Reconcile_frame:
  assumes "Reconcile K A k w = (w', r)" "j \<noteq> k"
  shows "st_addr w' j = st_addr w j" "st_claim w' j = st_claim w j"
proof -
  have "st_addr w' j = st_addr w j \<and> st_claim w' j = st_claim w j" using assms(1)
  proof (cases rule: Reconcile_cases)
    case (claim c)
    note key = stored_keys(2) [OF claim(1)]
    show ?thesis using claim(2,1)
    proof (cases rule: reconcile_claim_cases)
      case (release h d w1 res err)
      with assms(2) reconcileDelete_effect(1,2) [OF release(4) key] show ?thesis
        by (auto simp: released_other)
    qed (use assms(2) in auto)
  qed simp
  then show "st_addr w' j = st_addr w j" "st_claim w' j = st_claim w j" by simp_all
qed

text \<open>No address is created, changed or removed before the claim has its finalizer.\<close>

lemma Reconcile_finalizer_first:
  assumes "Reconcile K A k w = (w', r)" "st_addr w' \<noteq> st_addr w"
  obtains c where "st_claim w k = Some c" "ReleaseAddressFinalizer \<in> set (om_finalizers (ic_meta c))"
  using assms(1)
proof (cases rule: Reconcile_cases)
  case none
  with assms(2) show ?thesis by simp
next
  case (claim c)
  from claim(2,1) assms(2) show ?thesis
    by (cases rule: reconcile_claim_cases) (auto intro: that [OF claim(1)])
qed

lemma Reconcile_no_leak:
  assumes "no_leak (st_addr w) (st_claim w)" "Reconcile K A k w = (w', r)"
  shows "no_leak (st_addr w') (st_claim w')"
proof -
  let ?ok = "\<lambda>S C. gone k S \<or> (\<exists>c. C k = Some c
    \<and> ReleaseAddressFinalizer \<in> set (om_finalizers (ic_meta c)))"
  have "?ok (st_addr w') (st_claim w')" if name: "snd k \<noteq> []"
  proof -
    have ok: "?ok (st_addr w) (st_claim w)" using assms(1) name by (simp add: no_leak_def)
    show ?thesis using assms(2)
    proof (cases rule: Reconcile_cases)
      case none
      with ok show ?thesis by simp
    next
      case (claim c)
      note key = stored_keys(2) [OF claim(1)]
      show ?thesis using claim(2,1)
      proof (cases rule: reconcile_claim_cases)
        case same
        with ok show ?thesis by (auto simp: settle_claim_finalizer)
      next
        case (release h d w1 res err)
        from reconcileDelete_effect(4) [OF release(4) key] name
        consider "d = c" | "gone k (st_addr w1)" by blast
        then show ?thesis
          by cases (use release claim(1) in \<open>auto simp: settle_claim_finalizer\<close>)
      next
        case (allocate h pool base res new)
        with claim(1) show ?thesis by (auto simp: settle_claim_finalizer)
      qed
    qed
  qed
  with assms(1) Reconcile_frame [OF assms(2)] show ?thesis
    unfolding no_leak_def gone_def by metis
qed

end

subsection \<open>No address is allocated twice\<close>

definition no_double ::
  "(ip_address \<Rightarrow> 'r set) \<Rightarrow> (ip_address \<Rightarrow> ip_address \<Rightarrow> bool) \<Rightarrow> (nsname \<Rightarrow> ip_address option) \<Rightarrow> bool" where
  "no_double alloc same_pool S \<longleftrightarrow>
     (\<forall>j k a b. S j = Some a \<and> S k = Some b \<and> j \<noteq> k \<and> same_pool a b \<longrightarrow> alloc a \<inter> alloc b = {})"

text \<open>
  \<open>claim_ok\<close> are the claims the provider is meant for, and \<open>serves c a\<close> says that \<open>a\<close> comes
  from the pool \<open>c\<close> names. It has to hold between a claim and an address of its name.
\<close>

definition claims_ok ::
  "(ip_claim \<Rightarrow> bool) \<Rightarrow> (ip_claim \<Rightarrow> ip_address \<Rightarrow> bool) \<Rightarrow> (nsname \<Rightarrow> ip_address option) \<Rightarrow>
     (nsname \<Rightarrow> ip_claim option) \<Rightarrow> bool" where
  "claims_ok claim_ok serves S C \<longleftrightarrow>
     (\<forall>k c. C k = Some c \<longrightarrow> claim_ok c \<and> (\<forall>a. S k = Some a \<longrightarrow> serves c a))"

locale adapter_laws = kube_laws K st_addr st_claim
  for K :: "'w kube"
    and st_addr :: "'w \<Rightarrow> nsname \<Rightarrow> ip_address option"
    and st_claim :: "'w \<Rightarrow> nsname \<Rightarrow> ip_claim option" +
  fixes A :: "('h, 'w) provider_adapter"
    and alloc :: "ip_address \<Rightarrow> 'r set"
    and same_pool :: "ip_address \<Rightarrow> ip_address \<Rightarrow> bool"
    and serves :: "ip_claim \<Rightarrow> ip_address \<Rightarrow> bool"
    and claim_ok :: "ip_claim \<Rightarrow> bool"
  assumes alloc_content: "same_content a b \<Longrightarrow> alloc b = alloc a"
    and same_pool_content: "same_content a b \<Longrightarrow> address_key b = address_key a \<Longrightarrow>
      same_pool b x \<longleftrightarrow> same_pool a x"
    and same_pool_sym: "same_pool a b \<Longrightarrow> same_pool b a"
    and claim_cong: "same_claim c d \<Longrightarrow> claim_ok d \<longleftrightarrow> claim_ok c"
      "same_claim c d \<Longrightarrow> same_content a b \<Longrightarrow> serves d b \<longleftrightarrow> serves c a"
    and ensure_known: "ch_FetchPool A (ad_ClaimHandlerFor A c) w = (h, Some p, None, None) \<Longrightarrow>
      claim_ok c \<Longrightarrow> st_addr w (claim_key c) = Some b \<Longrightarrow> serves c b \<Longrightarrow>
      ch_EnsureAddress A h w b = Done (a, res, None) \<Longrightarrow> a = b"
    and ensure_fresh: "ch_FetchPool A (ad_ClaimHandlerFor A c) w = (h, Some p, None, None) \<Longrightarrow>
      claim_ok c \<Longrightarrow> st_addr w (claim_key c) = None \<Longrightarrow>
      ch_EnsureAddress A h w (NewIPAddress c p) = Done (a, res, None) \<Longrightarrow>
      serves c a \<and> address_key a = claim_key c
        \<and> (\<forall>k b. st_addr w k = Some b \<and> same_pool a b \<longrightarrow> alloc a \<inter> alloc b = {})"
begin

lemma no_double_shrink:
  assumes "no_double alloc same_pool (st_addr w)"
    and "\<And>k b. st_addr w' k = Some b \<Longrightarrow> \<exists>a. st_addr w k = Some a \<and> same_content a b"
  shows "no_double alloc same_pool (st_addr w')"
  unfolding no_double_def
proof (intro allI impI, elim conjE)
  fix j k a b
  assume ab: "st_addr w' j = Some a" "st_addr w' k = Some b" "j \<noteq> k" "same_pool a b"
  obtain a0 b0 where old: "st_addr w j = Some a0" "same_content a0 a" "st_addr w k = Some b0" "same_content b0 b"
    using assms(2) ab by blast
  have keys: "address_key a = address_key a0" "address_key b = address_key b0"
    using ab old stored_keys(1) by metis+
  have "same_pool a0 b0"
    using ab(4) same_pool_content [OF old(2) keys(1)] same_pool_content [OF old(4) keys(2)] same_pool_sym
    by blast
  with assms(1) old ab(3) have "alloc a0 \<inter> alloc b0 = {}" unfolding no_double_def by blast
  then show "alloc a \<inter> alloc b = {}" using old alloc_content by simp
qed

lemma claims_ok_update:
  assumes "claims_ok claim_ok serves S C" "C k = Some c" "same_claim c d"
    and "\<And>j b. S' j = Some b \<Longrightarrow> j \<noteq> k \<or> S j \<noteq> None \<Longrightarrow> \<exists>a. S j = Some a \<and> same_content a b"
    and "\<And>b. S' k = Some b \<Longrightarrow> S k = None \<Longrightarrow> serves c b"
    and "C' = C \<or> C' = C(k := settle_claim d)"
  shows "claims_ok claim_ok serves S' C'"
  unfolding claims_ok_def
proof (intro allI impI)
  fix j e assume e: "C' j = Some e"
  obtain e0 where e0: "C j = Some e0" "same_claim e0 e"
  proof (cases "j = k \<and> C' \<noteq> C")
    case True
    with e assms(6) have "settle_claim d = Some e" by (auto split: if_splits)
    then have "e = d" by (simp add: settle_claim_def split: if_splits)
    with assms(2,3) True that show ?thesis by blast
  next
    case False
    with e assms(6) have "C j = Some e" by (auto split: if_splits)
    with that show ?thesis by simp
  qed
  have old: "claim_ok e0" "\<And>a. S j = Some a \<Longrightarrow> serves e0 a"
    using assms(1) e0(1) unfolding claims_ok_def by blast+
  have "serves e b" if b: "S' j = Some b" for b
  proof (cases "j = k \<and> S j = None")
    case True
    then have "serves c b" "e0 = c" using assms(2,5) b e0(1) by auto
    then show ?thesis using claim_cong(2) [OF e0(2) same_content_refl] by simp
  next
    case False
    then have "j \<noteq> k \<or> S j \<noteq> None" by simp
    from assms(4) [OF b this] obtain a where "S j = Some a" "same_content a b" by blast
    then show ?thesis using old(2) claim_cong(2) [OF e0(2)] by blast
  qed
  then show "claim_ok e \<and> (\<forall>b. S' j = Some b \<longrightarrow> serves e b)"
    using old(1) claim_cong(1) [OF e0(2)] by simp
qed

text \<open>The allocation: an existing address keeps its content, a new one is fresh.\<close>

lemma allocation:
  assumes fetch: "ch_FetchPool A (ad_ClaimHandlerFor A c) w = (h, Some p, None, None)"
    and inv: "no_double alloc same_pool (st_addr w)" "claims_ok claim_ok serves (st_addr w) (st_claim w)"
    and claim: "st_claim w k = Some c"
    and ensure: "ensure_address K A h c p w
      (case st_addr w k of None \<Rightarrow> NewIPAddress c p | Some b \<Rightarrow> b) = Done (res, Inr new)"
    and state: "st_addr w' = (st_addr w)(k := settle_address new)" "address_key new = k"
  shows "no_double alloc same_pool (st_addr w')"
    and "\<And>b. st_addr w' k = Some b \<Longrightarrow> st_addr w k = None \<Longrightarrow> serves c b"
    and "\<And>j b. st_addr w' j = Some b \<Longrightarrow> j \<noteq> k \<or> st_addr w j \<noteq> None \<Longrightarrow>
      \<exists>a. st_addr w j = Some a \<and> same_content a b"
proof -
  have key: "claim_key c = k" using claim by (rule stored_keys)
  have ok: "claim_ok c" "\<And>a. st_addr w k = Some a \<Longrightarrow> serves c a"
    using inv(2) claim unfolding claims_ok_def by blast+
  define base where "base = (case st_addr w k of None \<Rightarrow> NewIPAddress c p | Some b \<Rightarrow> b)"
  obtain a res' err where ch: "ch_EnsureAddress A h w base = Done (a, res', err)"
  proof -
    have "ensure_address K A h c p w base = Done (res, Inr new)" using ensure by (simp add: base_def)
    then show ?thesis
      using that ensure_address_diverges [of A h w base c p]
      by (cases "ch_EnsureAddress A h w base") (auto simp: ensure_address_def)
  qed
  have new: "err = None" "same_content a new" "address_key new = address_key a"
    by (rule ensure_address_cases [OF ch, of c p]; use ensure in \<open>simp add: base_def\<close>)+
  have st': "\<And>b. st_addr w' k = Some b \<Longrightarrow> b = new"
    using state(1) same_content_settle by auto
  have kept: "st_addr w j = Some b" if "st_addr w' j = Some b" "j \<noteq> k" for j b
    using that state(1) by simp
  then have others: "\<exists>a. st_addr w j = Some a \<and> same_content a b"
    if "st_addr w' j = Some b" "j \<noteq> k" for j b
    using that same_content_refl by blast
  have main: "no_double alloc same_pool (st_addr w') \<and> (st_addr w k = None \<longrightarrow> serves c new)
    \<and> (\<forall>b. st_addr w k = Some b \<longrightarrow> same_content b new)"
  proof (cases "st_addr w k")
    case (Some b)
    have "a = b" using ensure_known [OF fetch ok(1) _ ok(2)] Some ch new(1) key by (simp add: base_def)
    then have b: "same_content b new" using new(2) by simp
    have "\<exists>a. st_addr w j = Some a \<and> same_content a x" if "st_addr w' j = Some x" for j x
    proof (cases "j = k")
      case True
      with that st' have "x = new" by simp
      with True Some b show ?thesis by blast
    qed (use that others in blast)
    from no_double_shrink [OF inv(1) this] b Some show ?thesis by simp
  next
    case None
    have fresh: "serves c a \<and> address_key a = claim_key c
        \<and> (\<forall>k b. st_addr w k = Some b \<and> same_pool a b \<longrightarrow> alloc a \<inter> alloc b = {})"
      by (rule ensure_fresh [OF fetch ok(1)]) (use None ch new(1) key in \<open>simp_all add: base_def\<close>)
    have apart: "alloc new \<inter> alloc b = {}" if "st_addr w j = Some b" "same_pool new b" for j b
      using fresh that alloc_content [OF new(2)] same_pool_content [OF new(2,3)] by blast
    have double: "no_double alloc same_pool (st_addr w')"
      unfolding no_double_def
    proof (intro allI impI, elim conjE)
      fix i j x y assume xy: "st_addr w' i = Some x" "st_addr w' j = Some y" "i \<noteq> j" "same_pool x y"
      consider "i = k" | "j = k" | "i \<noteq> k" "j \<noteq> k" by blast
      then show "alloc x \<inter> alloc y = {}"
      proof cases
        case 1
        with xy st' kept have "x = new" "st_addr w j = Some y" by simp_all
        with apart [of j y] xy(4) show ?thesis by simp
      next
        case 2
        with xy st' kept have "y = new" "st_addr w i = Some x" by simp_all
        with apart [of i x] same_pool_sym [OF xy(4)] show ?thesis by (simp add: Int_commute)
      next
        case 3
        with xy kept have "st_addr w i = Some x" "st_addr w j = Some y" by simp_all
        with xy(3,4) inv(1) show ?thesis unfolding no_double_def by blast
      qed
    qed
    have "serves c new" using fresh claim_cong(2) [OF same_claim_refl new(2)] by simp
    with double None show ?thesis by simp
  qed
  from main show "no_double alloc same_pool (st_addr w')" by blast
  show "serves c b" if "st_addr w' k = Some b" "st_addr w k = None" for b
    using main st' [OF that(1)] that(2) by blast
  show "\<exists>a. st_addr w j = Some a \<and> same_content a b"
    if "st_addr w' j = Some b" "j \<noteq> k \<or> st_addr w j \<noteq> None" for j b
  proof (cases "j = k")
    case True
    with that obtain a where "st_addr w k = Some a" by blast
    moreover from True that st' have "b = new" by simp
    ultimately show ?thesis using main True by blast
  qed (use that others in blast)
qed

lemma Reconcile_no_double:
  assumes inv: "no_double alloc same_pool (st_addr w)" "claims_ok claim_ok serves (st_addr w) (st_claim w)"
    and step: "Reconcile K A k w = (w', r)"
  shows "no_double alloc same_pool (st_addr w') \<and> claims_ok claim_ok serves (st_addr w') (st_claim w')"
  using step
proof (cases rule: Reconcile_cases)
  case none
  with inv show ?thesis by simp
next
  case (claim c)
  note key = stored_keys(2) [OF claim(1)]
  show ?thesis using claim(2,1)
  proof (cases rule: reconcile_claim_cases)
    case same
    then obtain d where d: "same_claim c d" "st_claim w' = st_claim w \<or> st_claim w' = (st_claim w)(k := settle_claim d)"
      by (metis same_claim_refl)
    have "claims_ok claim_ok serves (st_addr w') (st_claim w')"
      by (rule claims_ok_update [OF inv(2) claim(1) d(1) _ _ d(2)]) (use same(1) in auto)
    with inv(1) same(1) show ?thesis by simp
  next
    case (release h d w1 res err)
    note eff = reconcileDelete_effect [OF release(4) key]
    have shrink: "\<exists>a. st_addr w j = Some a \<and> same_content a b" if "st_addr w' j = Some b" for j b
      using that eff(1) release(5) by (cases "j = k") (auto simp: released_def)
    have "claims_ok claim_ok serves (st_addr w') (st_claim w')"
      by (rule claims_ok_update [OF inv(2) claim(1) eff(3)]) (use shrink release(6) in fastforce)+
    with no_double_shrink [OF inv(1) shrink] show ?thesis by simp
  next
    case (allocate h pool base res new)
    note al = allocation [OF allocate(3) inv claim(1) allocate(6)[unfolded allocate(5)] allocate(7,8)]
    obtain d where d: "same_claim c d" "st_claim w' = st_claim w \<or> st_claim w' = (st_claim w)(k := settle_claim d)"
      using allocate(9) by (metis same_claim_refl)
    have "claims_ok claim_ok serves (st_addr w') (st_claim w')"
      by (rule claims_ok_update [OF inv(2) claim(1) d(1) al(3,2) d(2)])
    with al(1) show ?thesis by simp
  qed
qed

text \<open>The invariant over all reachable states.\<close>

lemma reachable_no_double:
  assumes "reachable K A env w0 w"
    and "no_double alloc same_pool (st_addr w0)" "claims_ok claim_ok serves (st_addr w0) (st_claim w0)"
    and "\<And>w w'. env w w' \<Longrightarrow> addresses_only_shrink (st_addr w) (st_addr w')
      \<and> claims_ok claim_ok serves (st_addr w') (st_claim w')"
  shows "no_double alloc same_pool (st_addr w) \<and> claims_ok claim_ok serves (st_addr w) (st_claim w)"
proof (rule reachable_invariant [OF assms(1)])
  fix w w' assume "no_double alloc same_pool (st_addr w) \<and> claims_ok claim_ok serves (st_addr w) (st_claim w)"
    and env: "env w w'"
  then have "no_double alloc same_pool (st_addr w')"
    using assms(4) [OF env] unfolding addresses_only_shrink_def
    by (intro no_double_shrink [of w w']) blast+
  with assms(4) [OF env]
  show "no_double alloc same_pool (st_addr w') \<and> claims_ok claim_ok serves (st_addr w') (st_claim w')" by simp
qed (use assms(2,3) Reconcile_no_double in blast)+

end

end
