(* ===== verification/InCluster.thy ===== *)
theory InCluster
  imports Allocation ClaimLifecycle
begin

text \<open>
  The in-cluster provider: the two claim handlers behind the interface of the generic
  reconciler. The locale \<open>in_cluster\<close> puts the documented behaviour of netipx and of
  Kubernetes together; the handlers keep the contract \<open>adapter_laws\<close> under it.
\<close>

subsection \<open>The adapter\<close>

definition in_cluster_FetchPool ::
  "'w kube \<Rightarrow> in_cluster_handler \<Rightarrow> 'w \<Rightarrow>
     in_cluster_handler \<times> pool_object option \<times> ctrl_result option \<times> error option" where
  "in_cluster_FetchPool K handler w =
     (case handler of
        IPHandler h \<Rightarrow> (let (h', r) = IPAddressClaimHandler_FetchPool K h w in (IPHandler h', r))
      | PrefixHandler h \<Rightarrow>
          (let (h', r) = PrefixIPAddressClaimHandler_FetchPool K h w in (PrefixHandler h', r)))"

definition in_cluster_EnsureAddress ::
  "('b, 's) netipx \<Rightarrow> 'w kube \<Rightarrow> in_cluster_handler \<Rightarrow> 'w \<Rightarrow> ip_address \<Rightarrow>
     (ip_address \<times> ctrl_result option \<times> error option) exec" where
  "in_cluster_EnsureAddress nx K handler w =
     (case handler of
        IPHandler h \<Rightarrow> IPAddressClaimHandler_EnsureAddress nx K h w
      | PrefixHandler h \<Rightarrow> PrefixIPAddressClaimHandler_EnsureAddress nx K h w)"

definition in_cluster_ReleaseAddress ::
  "'w kube \<Rightarrow> in_cluster_handler \<Rightarrow> 'w \<Rightarrow> ctrl_result option \<times> error option" where
  "in_cluster_ReleaseAddress K handler w =
     (case handler of
        IPHandler h \<Rightarrow> IPAddressClaimHandler_ReleaseAddress K h w
      | PrefixHandler h \<Rightarrow> PrefixIPAddressClaimHandler_ReleaseAddress h)"

definition in_cluster_adapter ::
  "('b, 's) netipx \<Rightarrow> 'w kube \<Rightarrow> (in_cluster_handler, 'w) provider_adapter" where
  "in_cluster_adapter nx K =
     \<lparr>ad_ClaimHandlerFor = ClaimHandlerFor, ch_FetchPool = in_cluster_FetchPool K,
      ch_EnsureAddress = in_cluster_EnsureAddress nx K,
      ch_ReleaseAddress = in_cluster_ReleaseAddress K\<rparr>"

lemma in_cluster_adapter_sel [simp]:
  "ad_ClaimHandlerFor (in_cluster_adapter nx K) = ClaimHandlerFor"
  "ch_FetchPool (in_cluster_adapter nx K) = in_cluster_FetchPool K"
  "ch_EnsureAddress (in_cluster_adapter nx K) = in_cluster_EnsureAddress nx K"
  "ch_ReleaseAddress (in_cluster_adapter nx K) = in_cluster_ReleaseAddress K"
  by (simp_all add: in_cluster_adapter_def)

subsection \<open>Pools and their addresses\<close>

definition is_global_kind :: "string \<Rightarrow> bool" where
  "is_global_kind kind \<longleftrightarrow> kind \<in> {globalInClusterIPPoolKind, globalInClusterPrefixPoolKind}"

definition same_ref :: "pool_ref \<Rightarrow> pool_ref \<Rightarrow> bool" where
  "same_ref r s \<longleftrightarrow>
     effective_group r = effective_group s \<and> pr_kind r = pr_kind s \<and> pr_name r = pr_name s"

definition same_pool :: "ip_address \<Rightarrow> ip_address \<Rightarrow> bool" where
  "same_pool a b \<longleftrightarrow>
     same_ref (ia_pool_ref a) (ia_pool_ref b)
     \<and> (om_namespace (ia_meta a) = om_namespace (ia_meta b) \<or> is_global_kind (pr_kind (ia_pool_ref a)))"

definition serves :: "ip_claim \<Rightarrow> ip_address \<Rightarrow> bool" where
  "serves c a \<longleftrightarrow> same_ref (ic_pool_ref c) (ia_pool_ref a)"

definition in_group :: "ip_claim \<Rightarrow> bool" where
  "in_group c \<longleftrightarrow> effective_group (ic_pool_ref c) = ipam_group"

lemma same_ref_value: "same_ref r s \<Longrightarrow> IPPoolRefValue r = IPPoolRefValue s"
  by (simp add: same_ref_def IPPoolRefValue_def effective_group_def)

lemmas kind_defs = inClusterIPPoolKind_def globalInClusterIPPoolKind_def
  inClusterPrefixPoolKind_def globalInClusterPrefixPoolKind_def

lemma kinds_distinct:
  "\<not> is_prefix_kind inClusterIPPoolKind" "\<not> is_prefix_kind globalInClusterIPPoolKind"
  "is_prefix_kind inClusterPrefixPoolKind" "is_prefix_kind globalInClusterPrefixPoolKind"
  "\<not> is_global_kind inClusterIPPoolKind" "is_global_kind globalInClusterIPPoolKind"
  "\<not> is_global_kind inClusterPrefixPoolKind" "is_global_kind globalInClusterPrefixPoolKind"
  by (simp_all add: is_prefix_kind_def is_global_kind_def kind_defs)

lemmas kinds_literal = kinds_distinct [unfolded kind_defs] kind_defs

declare split_paired_All [simp del] split_paired_Ex [simp del]

subsection \<open>Fetching the pool\<close>

locale in_cluster = netipx_laws nx bips bok + kube_laws K st_addr st_claim
  for nx :: "('b, 's) netipx" and bips bok
    and K :: "'w kube" and st_addr st_claim
begin

text \<open>The pool a claim is served from, and the namespace its addresses are listed in.\<close>

lemma fetched_pool:
  assumes "in_cluster_FetchPool K (ClaimHandlerFor c) w = (h, Some p, None, None)"
  shows "gvk_group (obj_gvk p) = ipam_group" "gvk_kind (obj_gvk p) = pr_kind (ic_pool_ref c)"
    "om_name (obj_meta p) = pr_name (ic_pool_ref c)"
    "om_namespace (obj_meta p) =
       (if is_global_kind (pr_kind (ic_pool_ref c)) then [] else om_namespace (ic_meta c))"
    "if is_prefix_kind (pr_kind (ic_pool_ref c))
     then \<exists>pool. p = PrefixPool pool \<and> h = PrefixHandler \<lparr>ph_claim = c, ph_pool = Some pool\<rparr>
     else \<exists>pool. p = AddressPool pool \<and> h = IPHandler \<lparr>h_claim = c, h_pool = Some pool\<rparr>"
proof -
  let ?ref = "ic_pool_ref c" and ?ns = "om_namespace (ic_meta c)"
  consider (ns) np where "pr_kind ?ref = inClusterIPPoolKind" "k_get_ip_pool K (?ns, pr_name ?ref) w = Inr np"
      "p = AddressPool (NsPool np)" "h = IPHandler \<lparr>h_claim = c, h_pool = Some (NsPool np)\<rparr>"
    | (gl) gp where "pr_kind ?ref = globalInClusterIPPoolKind"
      "k_get_global_ip_pool K ([], pr_name ?ref) w = Inr gp"
      "p = AddressPool (GlobalPool gp)" "h = IPHandler \<lparr>h_claim = c, h_pool = Some (GlobalPool gp)\<rparr>"
    | (nsp) pp where "pr_kind ?ref = inClusterPrefixPoolKind"
      "k_get_prefix_pool K (?ns, pr_name ?ref) w = Inr pp"
      "p = PrefixPool (NsPrefixPool pp)" "h = PrefixHandler \<lparr>ph_claim = c, ph_pool = Some (NsPrefixPool pp)\<rparr>"
    | (glp) gpp where "pr_kind ?ref = globalInClusterPrefixPoolKind"
      "k_get_global_prefix_pool K ([], pr_name ?ref) w = Inr gpp"
      "p = PrefixPool (GlobalPrefixPool gpp)"
      "h = PrefixHandler \<lparr>ph_claim = c, ph_pool = Some (GlobalPrefixPool gpp)\<rparr>"
    using assms
    by (auto simp: in_cluster_FetchPool_def ClaimHandlerFor_def IPAddressClaimHandler_FetchPool_def
        PrefixIPAddressClaimHandler_FetchPool_def Let_def split: if_splits sum.splits prod.splits)
  then have "gvk_group (obj_gvk p) = ipam_group \<and> gvk_kind (obj_gvk p) = pr_kind (ic_pool_ref c)
    \<and> om_name (obj_meta p) = pr_name (ic_pool_ref c)
    \<and> om_namespace (obj_meta p) =
       (if is_global_kind (pr_kind (ic_pool_ref c)) then [] else om_namespace (ic_meta c))
    \<and> (if is_prefix_kind (pr_kind (ic_pool_ref c))
     then \<exists>pool. p = PrefixPool pool \<and> h = PrefixHandler \<lparr>ph_claim = c, ph_pool = Some pool\<rparr>
     else \<exists>pool. p = AddressPool pool \<and> h = IPHandler \<lparr>h_claim = c, h_pool = Some pool\<rparr>)"
  proof cases
    case ns
    with get_ip_pool [OF ns(2)] show ?thesis by (auto simp: kinds_literal)
  next
    case gl
    with get_global_ip_pool [OF gl(2)] show ?thesis
      by (auto simp: kinds_literal)
  next
    case nsp
    with get_prefix_pool [OF nsp(2)] show ?thesis
      by (auto simp: kinds_literal)
  next
    case glp
    with get_global_prefix_pool [OF glp(2)] show ?thesis
      by (auto simp: kinds_literal)
  qed
  then show "gvk_group (obj_gvk p) = ipam_group" "gvk_kind (obj_gvk p) = pr_kind (ic_pool_ref c)"
    "om_name (obj_meta p) = pr_name (ic_pool_ref c)"
    "om_namespace (obj_meta p) =
       (if is_global_kind (pr_kind (ic_pool_ref c)) then [] else om_namespace (ic_meta c))"
    "if is_prefix_kind (pr_kind (ic_pool_ref c))
     then \<exists>pool. p = PrefixPool pool \<and> h = PrefixHandler \<lparr>ph_claim = c, ph_pool = Some pool\<rparr>
     else \<exists>pool. p = AddressPool pool \<and> h = IPHandler \<lparr>h_claim = c, h_pool = Some pool\<rparr>"
    by blast+
qed

text \<open>The listed addresses are those of the pool of the claim.\<close>

lemma listed_addresses:
  assumes "ListAddressesInUse K ns (ic_pool_ref c) w = Inr as"
    and "ns = (if is_global_kind (pr_kind (ic_pool_ref c)) then [] else om_namespace (ic_meta c))"
    and "st_addr w k = Some b" "same_ref (ic_pool_ref c) (ia_pool_ref b)"
    and "om_namespace (ia_meta b) = om_namespace (ic_meta c) \<or> is_global_kind (pr_kind (ic_pool_ref c))"
  shows "b \<in> set as"
proof -
  have "fst k = om_namespace (ia_meta b)" using stored_keys(1) [OF assms(3)] by (auto simp: address_key_def)
  moreover have "IPPoolRefValue (ic_pool_ref c) = IPPoolRefValue (ia_pool_ref b)"
    using assms(4) by (rule same_ref_value)
  ultimately show ?thesis
    using list_addresses [OF assms(1)[unfolded ListAddressesInUse_def]] assms(2-5)
    by (auto intro!: exI [of _ k])
qed

lemma NewIPAddress_ref:
  assumes "in_cluster_FetchPool K (ClaimHandlerFor c) w = (h, Some p, None, None)" "in_group c"
  shows "same_ref (ic_pool_ref c) (ia_pool_ref (NewIPAddress c p))"
    "pr_kind (ia_pool_ref (NewIPAddress c p)) = pr_kind (ic_pool_ref c)"
    "address_key (NewIPAddress c p) = claim_key c"
  using fetched_pool [OF assms(1)] assms(2)
  by (auto simp: NewIPAddress_def same_ref_def in_group_def effective_group_def address_key_def
      claim_key_def empty_meta_def ipam_group_def split: if_splits)

subsection \<open>The handlers keep the contract\<close>

lemma in_cluster_known:
  assumes fetch: "in_cluster_FetchPool K (ClaimHandlerFor c) w = (h, Some p, None, None)"
    and b: "st_addr w (claim_key c) = Some b" "serves c b"
    and ensure: "in_cluster_EnsureAddress nx K h w b = Done (a, res, None)"
  shows "a = b"
proof -
  note pool = fetched_pool [OF fetch]
  have ns: "om_namespace (ia_meta b) = om_namespace (ic_meta c)"
    using stored_keys(1) [OF b(1)] by (simp add: address_key_def claim_key_def)
  have known: "\<exists>x \<in> set as. address_key x = address_key b"
    if "ListAddressesInUse K (om_namespace (obj_meta p)) (ic_pool_ref c) w = Inr as" for as
    using listed_addresses [OF that pool(4) b(1)] b(2) ns by (auto simp: serves_def)
  show ?thesis
  proof (cases "is_prefix_kind (pr_kind (ic_pool_ref c))")
    case True
    with pool(5) obtain q where q: "p = PrefixPool q" "h = PrefixHandler \<lparr>ph_claim = c, ph_pool = Some q\<rparr>"
      by auto
    show ?thesis
      by (rule ensure_prefix_cases [OF refl, of "\<lparr>ph_claim = c, ph_pool = Some q\<rparr>" q K w b])
        (use ensure q known in \<open>auto simp: in_cluster_EnsureAddress_def\<close>)
  next
    case False
    with pool(5) obtain q where q: "p = AddressPool q" "h = IPHandler \<lparr>h_claim = c, h_pool = Some q\<rparr>"
      by auto
    show ?thesis
      by (rule ensure_ip_cases [OF refl, of "\<lparr>h_claim = c, h_pool = Some q\<rparr>" q K w b])
        (use ensure q known in \<open>auto simp: in_cluster_EnsureAddress_def\<close>)
  qed
qed

text \<open>The addresses in use that are listed cover what each of them takes.\<close>

lemma in_use_covers:
  assumes "entries_set (buildAddressList as gw) = Some U" "b \<in> set as"
    and "\<not> is_prefix_kind (pr_kind (ia_pool_ref b))"
  shows "alloc_set b \<subseteq> U"
  using assms
  by (fastforce simp: entries_set_def buildAddressList_def Let_def alloc_set_def list_all_iff
      split: if_splits option.splits)

lemma allocations_cover:
  assumes "allocations_set as = Some U" "b \<in> set as" "is_prefix_kind (pr_kind (ia_pool_ref b))"
  shows "alloc_set b \<subseteq> U"
  using assms by (auto simp: allocations_set_def alloc_set_def split: if_splits)

lemma in_cluster_fresh:
  assumes fetch: "in_cluster_FetchPool K (ClaimHandlerFor c) w = (h, Some p, None, None)"
    and "in_group c" "st_addr w (claim_key c) = None"
    and ensure: "in_cluster_EnsureAddress nx K h w (NewIPAddress c p) = Done (a, res, None)"
  shows "serves c a \<and> address_key a = claim_key c \<and> alloc_set a \<noteq> {}
    \<and> (\<forall>k b. st_addr w k = Some b \<and> same_pool a b \<longrightarrow> alloc_set a \<inter> alloc_set b = {})"
proof -
  note pool = fetched_pool [OF fetch]
  let ?new = "NewIPAddress c p"
  note new = NewIPAddress_ref [OF fetch assms(2)]
  have unknown: "\<not> (\<exists>x \<in> set as. address_key x = address_key ?new)"
    if listing: "ListAddressesInUse K (om_namespace (obj_meta p)) (ic_pool_ref c) w = Inr as" for as
  proof
    assume "\<exists>x \<in> set as. address_key x = address_key ?new"
    then obtain x k where x: "address_key x = claim_key c" "st_addr w k = Some x"
      using list_addresses [OF listing[unfolded ListAddressesInUse_def]] new(3) by auto
    with stored_keys(1) [OF x(2)] assms(3) show False by simp
  qed
  have listed: "b \<in> set as" "pr_kind (ia_pool_ref b) = pr_kind (ic_pool_ref c)"
    if "ListAddressesInUse K (om_namespace (obj_meta p)) (ic_pool_ref c) w = Inr as"
      "st_addr w k = Some b" "same_pool x b" "ia_meta x = ia_meta ?new" "ia_pool_ref x = ia_pool_ref ?new"
    for as k b x
  proof -
    have ref: "same_ref (ic_pool_ref c) (ia_pool_ref b)"
      using new(1) that(3,5) by (simp add: same_ref_def same_pool_def)
    then show "pr_kind (ia_pool_ref b) = pr_kind (ic_pool_ref c)" by (simp add: same_ref_def)
    have "om_namespace (ia_meta ?new) = om_namespace (ic_meta c)"
      using new(3) by (simp add: address_key_def claim_key_def)
    with that(3,4,5) new(2) show "b \<in> set as"
      by (intro listed_addresses [OF that(1) pool(4) that(2) ref]) (auto simp: same_pool_def)
  qed
  show ?thesis
  proof (cases "is_prefix_kind (pr_kind (ic_pool_ref c))")
    case True
    with pool(5) obtain q where q: "p = PrefixPool q" "h = PrefixHandler \<lparr>ph_claim = c, ph_pool = Some q\<rparr>"
      by auto
    have "PrefixIPAddressClaimHandler_EnsureAddress nx K \<lparr>ph_claim = c, ph_pool = Some q\<rparr> w ?new
        = Done (a, res, None)" "ph_pool \<lparr>ph_claim = c, ph_pool = Some q\<rparr> = Some q"
      using ensure q by (simp_all add: in_cluster_EnsureAddress_def)
    then show ?thesis
    proof (cases rule: ensure_prefix_cases)
      case (fresh as pf U)
      have pf: "pfx_wf pf" "Prefix_IsValid pf" "pfx_set pf \<inter> U = {}"
        using fresh(5) by (auto simp: pool_prefixes_def alloc_prefixes_def)
      have a: "a = allocated_prefix (PrefixPoolSpec q) pf ?new" using fresh(7) by simp
      have set: "alloc_set a = pfx_set pf"
        using alloc_set_allocated_prefix [OF pf(1,2)] True new(2) by (simp add: a)
      have nonempty: "alloc_set a \<noteq> {}"
        using set valid_pfx_set_nonempty [OF pf(2,1)] by simp
      have "alloc_set a \<inter> alloc_set b = {}" if "st_addr w k = Some b" "same_pool a b" for k b
      proof -
        have "b \<in> set as" "pr_kind (ia_pool_ref b) = pr_kind (ic_pool_ref c)"
          using listed [of as k b a] fresh(1) that q a by simp_all
        with allocations_cover [OF fresh(3), of b] True pf(3) set show ?thesis by auto
      qed
      with new nonempty show ?thesis by (auto simp: a serves_def address_key_def)
    qed (use unknown q in auto)
  next
    case False
    with pool(5) obtain q where q: "p = AddressPool q" "h = IPHandler \<lparr>h_claim = c, h_pool = Some q\<rparr>"
      by auto
    have "IPAddressClaimHandler_EnsureAddress nx K \<lparr>h_claim = c, h_pool = Some q\<rparr> w ?new
        = Done (a, res, None)" "h_pool \<lparr>h_claim = c, h_pool = Some q\<rparr> = Some q"
      using ensure q by (simp_all add: in_cluster_EnsureAddress_def)
    then show ?thesis
    proof (cases rule: ensure_ip_cases)
      case (fresh as ip U)
      have a: "a = allocated_address (PoolSpec q) ip ?new" using fresh(7) by simp
      have set: "alloc_set a = {ip}"
        using alloc_set_allocated_address [OF fresh(6)] False new(2) by (simp add: a)
      have "alloc_set a \<inter> alloc_set b = {}" if "st_addr w k = Some b" "same_pool a b" for k b
      proof -
        have "b \<in> set as" "pr_kind (ia_pool_ref b) = pr_kind (ic_pool_ref c)"
          using listed [of as k b a] fresh(1) that q a by simp_all
        with in_use_covers [OF fresh(3), of b] False fresh(5) set show ?thesis by auto
      qed
      with new set show ?thesis by (auto simp: a serves_def address_key_def)
    qed (use unknown q in auto)
  qed
qed

text \<open>The handlers return, except on a pool whose spec does not parse.\<close>

lemma in_cluster_stuck:
  assumes "stuck (in_cluster_adapter nx K) c w r"
  obtains pool m where "in_cluster_FetchPool K (ClaimHandlerFor c) w =
      (IPHandler \<lparr>h_claim = c, h_pool = Some pool\<rparr>, Some (AddressPool pool), None, None)"
    "\<not> spec_parses (PoolSpec pool)" "r = Panicked m"
proof -
  obtain h p b where fetch: "in_cluster_FetchPool K (ClaimHandlerFor c) w = (h, Some p, None, None)"
    and r: "(\<exists>m. in_cluster_EnsureAddress nx K h w b = Panicked m \<and> r = Panicked m)
      \<or> in_cluster_EnsureAddress nx K h w b = Diverges \<and> r = Diverges"
    using assms by (auto simp: stuck_def)
  note pool = fetched_pool [OF fetch]
  show ?thesis
  proof (cases "is_prefix_kind (pr_kind (ic_pool_ref c))")
    case True
    with pool(5) obtain q where q: "p = PrefixPool q" "h = PrefixHandler \<lparr>ph_claim = c, ph_pool = Some q\<rparr>"
      by auto
    show ?thesis
      by (rule ensure_prefix_cases [OF refl, of "\<lparr>ph_claim = c, ph_pool = Some q\<rparr>" q K w b])
        (use r q in \<open>auto simp: in_cluster_EnsureAddress_def\<close>)
  next
    case False
    with pool(5) obtain q where q: "p = AddressPool q" "h = IPHandler \<lparr>h_claim = c, h_pool = Some q\<rparr>"
      by auto
    show ?thesis
      by (rule ensure_ip_cases [OF refl, of "\<lparr>h_claim = c, h_pool = Some q\<rparr>" q K w b])
        (use r q fetch in \<open>auto simp: in_cluster_EnsureAddress_def intro: that\<close>)
  qed
qed

lemma reconcile_returns:
  assumes "Reconcile K (in_cluster_adapter nx K) k w = (w', r)"
  shows "(\<exists>res err. r = Done (res, err))
    \<or> (\<exists>m c h pool. r = Panicked m \<and> st_claim w k = Some c
         \<and> in_cluster_FetchPool K (ClaimHandlerFor c) w = (h, Some (AddressPool pool), None, None)
         \<and> \<not> spec_parses (PoolSpec pool))"
proof -
  consider v where "r = Done v"
    | c where "st_claim w k = Some c" "stuck (in_cluster_adapter nx K) c w r"
    using Reconcile_returns [OF assms] by blast
  then show ?thesis
  proof cases
    case (1 v)
    then show ?thesis by (cases v) simp
  next
    case (2 c)
    show ?thesis by (rule in_cluster_stuck [OF 2(2)]) (use 2(1) in blast)
  qed
qed

text \<open>While the grace period of its pool runs, a deleted claim keeps its address.\<close>

lemma grace_holds:
  assumes claim: "st_claim w k = Some c" "om_deletion (ic_meta c) = Some t"
    and fetch: "in_cluster_FetchPool K (ClaimHandlerFor c) w = (h, Some (AddressPool pool), None, None)"
    and int32: "\<And>s. AddressReuseGracePeriodSeconds (PoolSpec pool) = Some s \<Longrightarrow> s < 2 ^ 31"
    and clock: "\<bar>k_now K w - t\<bar> \<le> 2 ^ 62" and left: "grace_left pool t (k_now K w) > 0"
    and step: "Reconcile K (in_cluster_adapter nx K) k w = (w', r)"
  shows "st_addr w' = st_addr w \<and> (ReleaseAddressFinalizer \<in> set (om_finalizers (ic_meta c)) \<longrightarrow>
    (\<exists>d. st_claim w' k = Some d \<and> ReleaseAddressFinalizer \<in> set (om_finalizers (ic_meta d))))"
proof -
  have h: "h = IPHandler \<lparr>h_claim = c, h_pool = Some pool\<rparr>"
    using fetched_pool(5) [OF fetch] by (auto split: if_splits)
  have rel: "ch_ReleaseAddress (in_cluster_adapter nx K) h w =
      (Some \<lparr>Requeue = False, RequeueAfter = grace_left pool t (k_now K w)\<rparr>, None)"
    using ReleaseAddress_result [of "\<lparr>h_claim = c, h_pool = Some pool\<rparr>" pool t K w] int32 clock left claim(2)
    by (simp add: h in_cluster_ReleaseAddress_def)
  show ?thesis using step
  proof (cases rule: Reconcile_cases)
    case (none v)
    with claim(1) show ?thesis by auto
  next
    case (claim c')
    with assms(1) have c: "c' = c" by simp
    from claim(2,1) show ?thesis unfolding c
    proof (cases rule: reconcile_claim_cases)
      case same
      with assms(1) show ?thesis by (auto simp: settle_claim_finalizer)
    next
      case (release h' d w1 res err)
      have "reconcileDelete K (in_cluster_adapter nx K) c h w =
          (w, c, \<lparr>Requeue = False, RequeueAfter = grace_left pool t (k_now K w)\<rparr>, None)"
        using rel left by (simp add: reconcileDelete_def)
      moreover have "h' = h" using release(3) fetch by simp
      ultimately have "w1 = w" "d = c" using release(4) by simp_all
      with release assms(1) show ?thesis by (auto simp: settle_claim_finalizer)
    next
      case (allocate h' p base res new)
      with assms(2) show ?thesis by simp
    qed
  qed
qed

end

sublocale in_cluster \<subseteq>
  adapter_laws K st_addr st_claim "in_cluster_adapter nx K" alloc_set same_pool serves in_group
proof (unfold_locales, goal_cases)
  case (1 a b) then show ?case by (metis alloc_set_meta same_content_def)
next
  case (2 a b x)
  then have "ia_pool_ref b = ia_pool_ref a" by (metis same_content_def ip_address.select_convs(3) ip_address.surjective ip_address.update_convs(1))
  with 2 show ?case by (simp add: same_pool_def address_key_def)
next
  case (3 a b) then show ?case by (auto simp: same_pool_def same_ref_def)
next
  case (4 c d) then show ?case by (simp add: same_claim_def in_group_def)
next
  case (5 c d a b)
  then have "ia_pool_ref b = ia_pool_ref a" by (metis same_content_def ip_address.select_convs(3) ip_address.surjective ip_address.update_convs(1))
  with 5 show ?case by (simp add: same_claim_def serves_def)
next
  case (6 c w h p b a res) then show ?case by (simp add: in_cluster_known)
next
  case (7 c w h p a res) then show ?case
    using in_cluster_fresh unfolding in_cluster_adapter_sel by blast
qed

context in_cluster
begin

lemmas in_cluster_no_double = reachable_no_double

end

subsection \<open>A claim is served\<close>

locale in_cluster_up = in_cluster nx bips bok K st_addr st_claim + kube_up K st_addr st_claim
  for nx :: "('b, 's) netipx" and bips bok
    and K :: "'w kube" and st_addr st_claim
begin

lemma owner_references_set:
  "\<exists>refs. ensureIPAddressOwnerReferences K a c p = Done (Inr (a\<lparr>ia_meta := (ia_meta a)\<lparr>om_owners := refs\<rparr>\<rparr>))"
proof -
  have "\<nexists>e. ensureIPAddressOwnerReferences K a c p = Done (Inl e)"
  proof (cases "k_set_controller_ref K c (ia_meta a)")
    case (Inl e)
    then have e: "e = AlreadyOwned" by (rule up_controller_ref)
    obtain m where "k_set_owner_ref K p (ia_meta a) = Inr m" using up_owner_ref by blast
    then show ?thesis by (simp add: ensureIPAddressOwnerReferences_def Inl e Let_def)
  next
    case (Inr m1)
    obtain m where "k_set_owner_ref K p m1 = Inr m" using up_owner_ref by blast
    then show ?thesis by (simp add: ensureIPAddressOwnerReferences_def Inr Let_def)
  qed
  with ensure_owner_refs show ?thesis by blast
qed

lemma ensure_address_done:
  assumes "ch_EnsureAddress A h w base = Done (a, None, None)"
  obtains new where "ensure_address K A h c p w base = Done (None, Inr new)"
    "same_content a new" "address_key new = address_key a"
    "om_deletion (ia_meta new) = om_deletion (ia_meta a)"
    "ProtectAddressFinalizer \<in> set (om_finalizers (ia_meta new))"
proof (rule ensure_address_cases [OF assms, of c p])
  fix e assume "ensure_address K A h c p w base = Done (None, Inl e)"
  moreover obtain refs where "ensureIPAddressOwnerReferences K a c p =
      Done (Inr (a\<lparr>ia_meta := (ia_meta a)\<lparr>om_owners := refs\<rparr>\<rparr>))"
    using owner_references_set by blast
  ultimately show thesis using assms by (simp add: ensure_address_def Let_def)
qed (rule that)

lemma served:
  assumes claim: "st_claim w k = Some c" "om_deletion (ic_meta c) = None"
      "ReleaseAddressFinalizer \<in> set (om_finalizers (ic_meta c))" "in_group c"
    and cluster: "fetch_cluster K c w = Inr None"
    and fetch: "in_cluster_FetchPool K (ClaimHandlerFor c) w = (h, Some (AddressPool pool), None, None)"
    and pool: "\<not> k_has_paused K (pool_meta pool)" "spec_parses (PoolSpec pool)"
    and listed: "ListAddressesInUse K (om_namespace (pool_meta pool)) (ic_pool_ref c) w = Inr as"
    and in_use: "entries_set (buildAddressList as (Gateway (PoolSpec pool))) = Some U"
    and free: "\<not> pool_addrs (PoolSpec pool) \<subseteq> U" and new: "st_addr w k = None"
    and step: "Reconcile K (in_cluster_adapter nx K) k w = (w', r)"
  shows "r = Done (no_result, None)
    \<and> (\<exists>a. st_addr w' k = Some a \<and> alloc_set a = {Min (pool_addrs (PoolSpec pool) - U)}
         \<and> ProtectAddressFinalizer \<in> set (om_finalizers (ia_meta a)))
    \<and> (\<exists>d. st_claim w' k = Some d \<and> ic_address_ref d = snd k)"
proof -
  let ?A = "in_cluster_adapter nx K" and ?new = "NewIPAddress c (AddressPool pool)"
  let ?ip = "Min (pool_addrs (PoolSpec pool) - U)"
  have key: "claim_key c = k" using claim(1) by (rule stored_keys)
  note ref = NewIPAddress_ref [OF fetch claim(4)]
  have h: "h = IPHandler \<lparr>h_claim = c, h_pool = Some pool\<rparr>"
    and kind: "\<not> is_prefix_kind (pr_kind (ic_pool_ref c))"
    using fetched_pool(5) [OF fetch] by (auto split: if_splits)
  have unknown: "\<not> (\<exists>x \<in> set as. address_key x = address_key ?new)"
  proof
    assume "\<exists>x \<in> set as. address_key x = address_key ?new"
    then obtain x j where x: "address_key x = k" "st_addr w j = Some x"
      using list_addresses [OF listed[unfolded ListAddressesInUse_def]] ref(3) key by auto
    with stored_keys(1) [OF x(2)] new show False by simp
  qed
  define a where "a = allocated_address (PoolSpec pool) ?ip ?new"
  have ens: "ch_EnsureAddress ?A h w ?new = Done (a, None, None)"
    using ensure_ip_result [OF _ _ pool(2) in_use, of "\<lparr>h_claim = c, h_pool = Some pool\<rparr>" K w ?new]
      listed unknown free by (simp add: h in_cluster_EnsureAddress_def a_def)
  obtain n where n: "ensure_address K ?A h c (AddressPool pool) w ?new = Done (None, Inr n)"
    "same_content a n" "address_key n = address_key a" "om_deletion (ia_meta n) = om_deletion (ia_meta a)"
    "ProtectAddressFinalizer \<in> set (om_finalizers (ia_meta n))"
    using ensure_address_done [OF ens] by blast
  have nkey: "address_key n = k" using n(3) ref(3) key by (simp add: a_def address_key_def)
  have "om_deletion (ia_meta n) = None"
    using n(4) by (simp add: a_def NewIPAddress_def empty_meta_def)
  then have settled: "settle_address n = Some n" by (simp add: settle_address_def)
  obtain w1 where w1: "k_create_or_patch K ?new (ensure_address K ?A h c (AddressPool pool) w) w =
      (w1, Done (None, Inr n))" "st_addr w1 = (st_addr w)(k := Some n)"
    using up_create_or_patch [of w ?new "ensure_address K ?A h c (AddressPool pool) w" None n]
      new n(1) nkey ref(3) key settled by auto
  have claims: "st_claim w1 = st_claim w" using create_or_patch [OF w1(1)] by blast
  have "k_poll K (visible_in_cache K (address_key n)) w1 = None"
    using w1(2) up_get_address [of w1 k n] by (intro poll_ready) (simp add: visible_in_cache_def nkey)
  then have alloc: "reconcile_allocate K ?A c h (AddressPool pool) w =
      (w1, c\<lparr>ic_address_ref := om_name (ia_meta n)\<rparr>, Done (no_result, None))"
    by (simp add: reconcile_allocate_def w1(1))
  define d where "d = c\<lparr>ic_address_ref := om_name (ia_meta n)\<rparr>"
  have handle: "reconcile_handle K ?A c w = (w1, d, Done (no_result, None))"
    using fetch pool(1) claim(2) alloc by (simp add: reconcile_handle_def d_def)
  have dkey: "claim_key d = claim_key c" by (simp add: d_def claim_key_def)
  obtain w2 where w2: "k_patch_claim K c d w1 = (w2, None)"
    using up_patch_claim [of w1 c d] dkey claims claim(1) key by (cases "k_patch_claim K c d w1") auto
  have settle: "settle_claim d = Some d"
    using claim(3) by (intro settle_claim_finalizer [of ReleaseAddressFinalizer]) (simp add: d_def)
  have st: "st_addr w2 = st_addr w1" "st_claim w2 = (st_claim w1)(k := Some d)"
    using patch_claim [OF w2 dkey] key settle by simp_all
  have "Reconcile K ?A k w = (w2, Done (no_result, None))"
    using up_get_claim [OF claim(1)] cluster up_claim_helper claim(3) handle w2
    by (simp add: Reconcile_def reconcile_claim_def add_finalizer)
  with step have out: "w' = w2" "r = Done (no_result, None)" by simp_all
  have "zoneless ?ip"
  proof -
    obtain s where "ips nx s = pool_addrs (PoolSpec pool)"
      using pool(2) by (auto intro: PoolSpecToIPSet_cases [of "PoolSpec pool"])
    then have "finite (pool_addrs (PoolSpec pool) - U)" "\<And>x. x \<in> pool_addrs (PoolSpec pool) \<Longrightarrow> zoneless x"
      using finite_ips [of s] ips_zoneless [of _ s] by simp_all
    then show ?thesis using free Min_in [of "pool_addrs (PoolSpec pool) - U"] by blast
  qed
  then have "alloc_set n = {?ip}"
    using alloc_content [OF n(2)] kind ref(2) by (simp add: a_def alloc_set_allocated_address)
  moreover have "om_name (ia_meta n) = snd k" using nkey by (auto simp: address_key_def)
  ultimately show ?thesis using out st w1(2) n(5) by (simp add: d_def)
qed

end

interpretation ref_in_cluster: in_cluster ref_netipx ref_bips ref_bok ref_kube ref_addr ref_claim
  by unfold_locales

interpretation ref_in_cluster_up: in_cluster_up ref_netipx ref_bips ref_bok ref_kube ref_addr ref_claim
  by unfold_locales

end
