(* ===== verification/AllocationTable.thy ===== *)
theory AllocationTable
  imports InCluster
begin

text \<open>
  The abstract specification of the provider: a table of what is allocated to whom. The
  entry of a claim names its pool and the set of addresses taken. A claim that is alive may
  take a set that is disjoint from all others of its pool, a claim that is being deleted may
  drop its entry, and others may only drop entries. Every run of the reconciler with the
  in-cluster provider is a run of this table.
\<close>

declare split_paired_All [simp del] split_paired_Ex [simp del]

subsection \<open>The table\<close>

text \<open>Group, kind and name of a pool, and its namespace unless it is global.\<close>

type_synonym pool_id = "string \<times> string \<times> string \<times> string"

type_synonym table = "nsname \<Rightarrow> (pool_id \<times> addr set) option"

definition ref_id :: "pool_ref \<Rightarrow> string \<Rightarrow> pool_id" where
  "ref_id r namespace =
     (effective_group r, pr_kind r, pr_name r, if is_global_kind (pr_kind r) then [] else namespace)"

text \<open>\<open>table_step k c\<close>: what the reconciliation of the claim \<open>c\<close> with the key \<open>k\<close> may do.\<close>

inductive table_step :: "nsname \<Rightarrow> ip_claim option \<Rightarrow> table \<Rightarrow> table \<Rightarrow> bool" where
  keep: "table_step k c T T"
| take: "c = Some claim \<Longrightarrow> om_deletion (ic_meta claim) = None \<Longrightarrow>
    ReleaseAddressFinalizer \<in> set (om_finalizers (ic_meta claim)) \<Longrightarrow>
    p = ref_id (ic_pool_ref claim) (om_namespace (ic_meta claim)) \<Longrightarrow>
    T k = None \<Longrightarrow> A \<noteq> {} \<Longrightarrow> (\<forall>j B. T j = Some (p, B) \<longrightarrow> A \<inter> B = {}) \<Longrightarrow>
    table_step k c T (T(k \<mapsto> (p, A)))"
| drop: "c = Some claim \<Longrightarrow> om_deletion (ic_meta claim) \<noteq> None \<Longrightarrow>
    table_step k c T (T(k := None))"

inductive_cases table_step_elim: "table_step k c T T'"

inductive table_run :: "table \<Rightarrow> table \<Rightarrow> bool" for T where
  start: "table_run T T"
| step: "table_run T U \<Longrightarrow> table_step k c U V \<Longrightarrow> table_run T V"
| others: "table_run T U \<Longrightarrow> V \<subseteq>\<^sub>m U \<Longrightarrow> table_run T V"

text \<open>The invariant of the specification, over its steps.\<close>

definition exclusive :: "table \<Rightarrow> bool" where
  "exclusive T \<longleftrightarrow> (\<forall>j k p A B. T j = Some (p, A) \<and> T k = Some (p, B) \<and> j \<noteq> k \<longrightarrow> A \<inter> B = {})"

lemma exclusive_mono: "exclusive T \<Longrightarrow> U \<subseteq>\<^sub>m T \<Longrightarrow> exclusive U"
  unfolding exclusive_def map_le_def by (metis domI)

lemma table_step_exclusive:
  assumes "table_step k c T T'" "exclusive T"
  shows "exclusive T'"
  using assms
proof cases
  case (take claim p A)
  show ?thesis
    unfolding exclusive_def
  proof (intro allI impI, elim conjE)
    fix i j q B C assume ij: "T' i = Some (q, B)" "T' j = Some (q, C)" "i \<noteq> j"
    consider "i = k" | "j = k" | "i \<noteq> k" "j \<noteq> k" by blast
    then show "B \<inter> C = {}"
    proof cases
      case 1
      with ij take have "q = p" "B = A" "T j = Some (p, C)" by auto
      with take(8) show ?thesis by blast
    next
      case 2
      with ij take have "q = p" "C = A" "T i = Some (p, B)" by auto
      with take(8) show ?thesis by (metis Int_commute)
    next
      case 3
      with ij take have "T i = Some (q, B)" "T j = Some (q, C)" by simp_all
      with assms(2) ij(3) show ?thesis unfolding exclusive_def by blast
    qed
  qed
next
  case (drop claim)
  then have "T' \<subseteq>\<^sub>m T" by (simp add: map_le_def)
  with assms(2) show ?thesis by (rule exclusive_mono)
qed simp

lemma table_run_exclusive: "table_run T U \<Longrightarrow> exclusive T \<Longrightarrow> exclusive U"
  by (induction rule: table_run.induct) (auto intro: table_step_exclusive exclusive_mono)

subsection \<open>The abstraction of a store\<close>

definition entry :: "ip_address \<Rightarrow> pool_id \<times> addr set" where
  "entry a = (ref_id (ia_pool_ref a) (om_namespace (ia_meta a)), alloc_set a)"

definition table_of :: "(nsname \<Rightarrow> ip_address option) \<Rightarrow> table" where
  "table_of S k = map_option entry (S k)"

lemma same_pool_id:
  "same_pool a b \<longleftrightarrow> ref_id (ia_pool_ref a) (om_namespace (ia_meta a))
     = ref_id (ia_pool_ref b) (om_namespace (ia_meta b))"
  by (auto simp: same_pool_def same_ref_def ref_id_def)

lemma same_ref_id: "same_ref r s \<Longrightarrow> ref_id r ns = ref_id s ns"
  by (simp add: same_ref_def ref_id_def)

lemma no_double_exclusive:
  "no_double alloc_set same_pool S \<longleftrightarrow> exclusive (table_of S)"
  unfolding no_double_def exclusive_def
proof (intro iffI allI impI; elim conjE)
  fix j k p A B
  assume all: "\<forall>j k a b. S j = Some a \<and> S k = Some b \<and> j \<noteq> k \<and> same_pool a b \<longrightarrow> alloc_set a \<inter> alloc_set b = {}"
    and AB: "table_of S j = Some (p, A)" "table_of S k = Some (p, B)" and "j \<noteq> k"
  from AB obtain a b where ab: "S j = Some a" "S k = Some b" "entry a = (p, A)" "entry b = (p, B)"
    by (auto simp: table_of_def)
  then have "same_pool a b" "A = alloc_set a" "B = alloc_set b" by (simp_all add: same_pool_id entry_def)
  with all ab(1,2) \<open>j \<noteq> k\<close> show "A \<inter> B = {}" by blast
next
  fix j k a b
  assume all: "\<forall>j k p A B. table_of S j = Some (p, A) \<and> table_of S k = Some (p, B) \<and> j \<noteq> k \<longrightarrow> A \<inter> B = {}"
    and ab: "S j = Some a" "S k = Some b" "j \<noteq> k" "same_pool a b"
  define p where "p = ref_id (ia_pool_ref a) (om_namespace (ia_meta a))"
  have "table_of S j = Some (p, alloc_set a)" "table_of S k = Some (p, alloc_set b)"
    using ab by (simp_all add: table_of_def entry_def p_def same_pool_id)
  with all ab(3) show "alloc_set a \<inter> alloc_set b = {}" by blast
qed

lemma entry_content:
  assumes "same_content a b" "address_key b = address_key a"
  shows "entry b = entry a"
proof -
  have "ia_pool_ref b = ia_pool_ref a"
    using assms(1) by (cases a; cases b) (simp add: same_content_def)
  moreover have "alloc_set b = alloc_set a"
    using assms(1) by (metis alloc_set_meta same_content_def)
  ultimately show ?thesis using assms(2) by (simp add: entry_def address_key_def)
qed

lemma table_of_cong:
  assumes "\<And>j b. S' j = Some b \<Longrightarrow> \<exists>a. S j = Some a \<and> same_content a b \<and> address_key b = address_key a"
  shows "table_of S' \<subseteq>\<^sub>m table_of S"
  unfolding map_le_def
proof
  fix j assume "j \<in> dom (table_of S')"
  then obtain b where "S' j = Some b" by (auto simp: table_of_def)
  moreover obtain a where "S j = Some a" "same_content a b" "address_key b = address_key a"
    using assms [OF calculation] by blast
  ultimately show "table_of S' j = table_of S j" by (simp add: table_of_def entry_content)
qed

subsection \<open>The refinement\<close>

context in_cluster
begin

lemma allocate_step:
  assumes claim: "st_claim w k = Some c" "om_deletion (ic_meta c) = None"
      "ReleaseAddressFinalizer \<in> set (om_finalizers (ic_meta c))"
    and ok: "in_group c" "\<And>a. st_addr w k = Some a \<Longrightarrow> serves c a"
    and fetch: "in_cluster_FetchPool K (ClaimHandlerFor c) w = (h, Some p, None, None)"
    and ensure: "ensure_address K (in_cluster_adapter nx K) h c p w base = Done (res, Inr new)"
      "base = (case st_addr w k of None \<Rightarrow> NewIPAddress c p | Some b \<Rightarrow> b)"
    and state: "st_addr w' = (st_addr w)(k := settle_address new)"
  shows "table_step k (st_claim w k) (table_of (st_addr w)) (table_of (st_addr w'))"
proof -
  have key: "claim_key c = k" using claim(1) by (rule stored_keys)
  obtain a res' err where ch: "in_cluster_EnsureAddress nx K h w base = Done (a, res', err)"
    using ensure(1) by (cases "in_cluster_EnsureAddress nx K h w base") (auto simp: ensure_address_def)
  have new: "err = None" "same_content a new" "address_key new = address_key a"
      "ProtectAddressFinalizer \<in> set (om_finalizers (ia_meta new))"
    by (rule ensure_address_cases [of "in_cluster_adapter nx K" h w base a res' err c p];
        use ch ensure(1) in simp)+
  then have st': "st_addr w' = (st_addr w)(k \<mapsto> new)"
    using state by (auto simp: settle_address_def)
  show ?thesis
  proof (cases "st_addr w k")
    case (Some b)
    have "a = b" using in_cluster_known [OF fetch _ ok(2)] Some ch new(1) key by (simp add: ensure(2))
    then have "entry new = entry b" using entry_content new(2,3) by simp
    with Some st' have "table_of (st_addr w') = table_of (st_addr w)" by (auto simp: table_of_def)
    then show ?thesis by (simp add: table_step.keep)
  next
    case None
    have fresh: "serves c a \<and> address_key a = claim_key c \<and> alloc_set a \<noteq> {}
        \<and> (\<forall>k b. st_addr w k = Some b \<and> same_pool a b \<longrightarrow> alloc_set a \<inter> alloc_set b = {})"
      by (rule in_cluster_fresh [OF fetch ok(1)]) (use None ch new(1) key in \<open>simp_all add: ensure(2)\<close>)
    then have id: "ref_id (ic_pool_ref c) (om_namespace (ic_meta c))
        = ref_id (ia_pool_ref a) (om_namespace (ia_meta a))"
      using same_ref_id by (auto simp: serves_def address_key_def claim_key_def)
    have "alloc_set a \<inter> B = {}"
      if taken: "table_of (st_addr w) j = Some (ref_id (ic_pool_ref c) (om_namespace (ic_meta c)), B)" for j B
    proof -
      obtain b where b: "st_addr w j = Some b"
          "entry b = (ref_id (ic_pool_ref c) (om_namespace (ic_meta c)), B)"
        using taken by (auto simp: table_of_def)
      then have "same_pool a b" "B = alloc_set b" by (simp_all add: entry_def id same_pool_id)
      with fresh b(1) show ?thesis by blast
    qed
    moreover have "table_of (st_addr w') =
        (table_of (st_addr w))(k \<mapsto> (ref_id (ic_pool_ref c) (om_namespace (ic_meta c)), alloc_set a))"
      using st' entry_content [OF new(2,3)] by (auto simp: table_of_def entry_def id)
    moreover have "table_of (st_addr w) k = None" using None by (simp add: table_of_def)
    ultimately show ?thesis
      using table_step.take [OF claim(1,2,3) refl, where T = "table_of (st_addr w)" and A = "alloc_set a" and k = k] fresh
      by simp
  qed
qed

lemma Reconcile_table_step:
  assumes ok: "claims_ok in_group serves (st_addr w) (st_claim w)"
    and step: "Reconcile K (in_cluster_adapter nx K) k w = (w', r)"
  shows "table_step k (st_claim w k) (table_of (st_addr w)) (table_of (st_addr w'))"
  using step
proof (cases rule: Reconcile_cases)
  case none
  then show ?thesis by (simp add: table_step.keep)
next
  case (claim c)
  note key = stored_keys(2) [OF claim(1)]
  have c: "in_group c" "\<And>a. st_addr w k = Some a \<Longrightarrow> serves c a"
    using ok claim(1) unfolding claims_ok_def by blast+
  show ?thesis using claim(2,1)
  proof (cases rule: reconcile_claim_cases)
    case same
    then show ?thesis by (simp add: table_step.keep)
  next
    case (release h d w1 res err)
    have rel: "released k (st_addr w) (st_addr w')"
      using reconcileDelete_effect(1) [OF release(4) key] release(5) by simp
    have others: "table_of (st_addr w') j = table_of (st_addr w) j" if "j \<noteq> k" for j
      using released_other [OF rel that] by (simp add: table_of_def)
    show ?thesis
    proof (cases "st_addr w' k")
      case None
      with others have "table_of (st_addr w') = (table_of (st_addr w))(k := None)"
        by (intro ext) (simp add: table_of_def)
      with claim(1) release(2) show ?thesis by (simp add: table_step.drop)
    next
      case (Some b)
      then obtain a where a: "st_addr w k = Some a" "same_content a b"
        using rel unfolding released_def by blast
      have "address_key b = address_key a" using stored_keys(1) Some a(1) by metis
      then have "table_of (st_addr w') = table_of (st_addr w)"
        using others Some a entry_content by (intro ext) (metis table_of_def option.map(2))
      then show ?thesis by (simp add: table_step.keep)
    qed
  next
    case (allocate h pool base res new)
    show ?thesis
      by (rule allocate_step [OF claim(1) allocate(2,1) c(1) c(2)
            allocate(3) [unfolded in_cluster_adapter_sel] allocate(6,5,7)])
  qed
qed

text \<open>Whole runs.\<close>

lemma reachable_table_run:
  assumes "reachable K (in_cluster_adapter nx K) env w0 w"
    and "claims_ok in_group serves (st_addr w0) (st_claim w0)"
    and "no_double alloc_set same_pool (st_addr w0)"
    and "\<And>w w'. env w w' \<Longrightarrow> addresses_only_shrink (st_addr w) (st_addr w')
      \<and> claims_ok in_group serves (st_addr w') (st_claim w')"
  shows "table_run (table_of (st_addr w0)) (table_of (st_addr w))"
proof -
  have "table_run (table_of (st_addr w0)) (table_of (st_addr w))
    \<and> no_double alloc_set same_pool (st_addr w) \<and> claims_ok in_group serves (st_addr w) (st_claim w)"
  proof (rule reachable_invariant [OF assms(1)], goal_cases)
    case 1
    show ?case using assms(2,3) table_run.start by blast
  next
    case (2 w w' req r)
    then show ?case
      using Reconcile_table_step [of w req w' r] Reconcile_no_double [of w req w' r] table_run.step by blast
  next
    case (3 w w')
    have shrink: "table_of (st_addr w') \<subseteq>\<^sub>m table_of (st_addr w)"
    proof (rule table_of_cong)
      fix j b assume b: "st_addr w' j = Some b"
      then obtain a where "st_addr w j = Some a" "same_content a b"
        using assms(4) [OF 3(2)] unfolding addresses_only_shrink_def by blast
      with b stored_keys(1) show "\<exists>a. st_addr w j = Some a \<and> same_content a b \<and> address_key b = address_key a"
        by metis
    qed
    then have "exclusive (table_of (st_addr w'))"
      using 3(1) no_double_exclusive exclusive_mono by blast
    then show ?case
      using 3 assms(4) [OF 3(2)] shrink table_run.others no_double_exclusive by blast
  qed
  then show ?thesis by blast
qed

end

end
