(* ===== verification/PoolController.thy ===== *)
theory PoolController
  imports ClaimHandler
begin

text \<open>
  \<open>internal/controllers/inclusterippool.go\<close> and \<open>inclusterprefixpool.go\<close>: the controllers
  of the pools. They protect a pool with a finalizer while it has addresses, and keep the
  usage counts of its status. The body of a reconciliation changes the pool object only;
  the deferred patch writes it.
\<close>

definition ProtectPoolFinalizer :: string where
  "ProtectPoolFinalizer = ''ipam.cluster.x-k8s.io/ProtectPool''"

subsection \<open>Address events\<close>

definition address_to_pool :: "string \<Rightarrow> api_object \<Rightarrow> nsname list" where
  "address_to_pool kind obj =
     (case obj of
        AddressObject a \<Rightarrow>
          if pr_group (ia_pool_ref a) = ipam_group \<and> pr_kind (ia_pool_ref a) = kind
          then [(om_namespace (ia_meta a), pr_name (ia_pool_ref a))] else []
      | _ \<Rightarrow> [])"

definition ipAddressToInClusterIPPool :: "api_object \<Rightarrow> nsname list" where
  "ipAddressToInClusterIPPool = address_to_pool inClusterIPPoolKind"

definition ipAddressToGlobalInClusterIPPool :: "api_object \<Rightarrow> nsname list" where
  "ipAddressToGlobalInClusterIPPool = address_to_pool globalInClusterIPPoolKind"

definition ipAddressToInClusterPrefixPool :: "api_object \<Rightarrow> nsname list" where
  "ipAddressToInClusterPrefixPool = address_to_pool inClusterPrefixPoolKind"

definition ipAddressToGlobalInClusterPrefixPool :: "api_object \<Rightarrow> nsname list" where
  "ipAddressToGlobalInClusterPrefixPool = address_to_pool globalInClusterPrefixPoolKind"

subsection \<open>Address pools\<close>

definition protect_meta :: "'w kube \<Rightarrow> object_meta \<Rightarrow> object_meta" where
  "protect_meta K m =
     (if \<not> k_contains_finalizer K ProtectPoolFinalizer m
      then fst (k_add_finalizer K ProtectPoolFinalizer m) else m)"

definition release_meta :: "'w kube \<Rightarrow> nat \<Rightarrow> object_meta \<Rightarrow> object_meta" where
  "release_meta K inUseCount m =
     (if inUseCount = 0 then fst (k_remove_finalizer K ProtectPoolFinalizer m) else m)"

text \<open>The counts: \<open>Inl\<close> an error, \<open>Panicked\<close> where \<open>PoolSpecToIPSet\<close> panics.\<close>

definition pool_status_of ::
  "('b, 's) netipx \<Rightarrow> InClusterIPPoolSpec \<Rightarrow> ip_address list \<Rightarrow>
     (error + InClusterIPPoolStatusIPAddresses) exec" where
  "pool_status_of nx spec addressesInUse =
     (let inUseCount = int (length addressesInUse) in
      case PoolSpecToIPSet nx spec of
        Panic m \<Rightarrow> Panicked m
      | Err e \<Rightarrow> Done (Inl (Wrapped ''failed to build ip set from pool spec'' e))
      | Ok poolIPSet \<Rightarrow>
          let poolCount = IPSetCount nx (Some poolIPSet) in
          (case (if Gateway spec \<noteq> [] then
                   (case ParseAddr (Gateway spec) of
                      Inl e \<Rightarrow> Inl (Wrapped ''failed to parse pool gateway'' e)
                    | Inr gatewayAddr \<Rightarrow>
                        Inr (if nx_contains nx poolIPSet gatewayAddr then go_int (poolCount - 1)
                             else poolCount))
                 else Inr poolCount) of
             Inl e \<Rightarrow> Done (Inl e)
           | Inr poolCount \<Rightarrow>
               let free = go_int (poolCount - inUseCount) in
               (case AddressesOutOfRangeIPSet nx addressesInUse poolIPSet of
                  Inl e \<Rightarrow> Done (Inl (Wrapped ''failed to build out of range ip set'' e))
                | Inr outOfRangeIPSet \<Rightarrow>
                    Done (Inr \<lparr>Total = poolCount, Free = free, Used = inUseCount,
                       OutOfRange = IPSetCount nx (Some outOfRangeIPSet)\<rparr>))))"

definition generic_body ::
  "('b, 's) netipx \<Rightarrow> 'w kube \<Rightarrow> generic_pool \<Rightarrow> 'w \<Rightarrow> generic_pool \<times> (ctrl_result \<times> error option) exec" where
  "generic_body nx K pool w =
     (let poolTypeRef = \<lparr>pr_group = ipam_group, pr_kind = gvk_kind (pool_gvk pool),
            pr_name = om_name (pool_meta pool)\<rparr>
      in case ListAddressesInUse K (om_namespace (pool_meta pool)) poolTypeRef w of
        Inl e \<Rightarrow> (pool, Done (no_result, Some (Wrapped ''failed to list addresses'' e)))
      | Inr addressesInUse \<Rightarrow>
          let pool1 = set_pool_meta (protect_meta K) pool in
          if om_deletion (pool_meta pool1) \<noteq> None
          then (set_pool_meta (release_meta K (length addressesInUse)) pool1, Done (no_result, None))
          else (case pool_status_of nx (PoolSpec pool1) addressesInUse of
              Panicked m \<Rightarrow> (pool1, Panicked m)
            | Diverges \<Rightarrow> (pool1, Diverges)
            | Done (Inl e) \<Rightarrow> (pool1, Done (no_result, Some e))
            | Done (Inr status) \<Rightarrow> (set_pool_status status pool1, Done (no_result, None))))"

text \<open>The deferred patch, with the error it adds.\<close>

definition patched ::
  "'w kube \<Rightarrow> pool_object \<Rightarrow> pool_object \<times> (ctrl_result \<times> error option) exec \<Rightarrow> 'w \<Rightarrow>
     'w \<times> (ctrl_result \<times> error option) exec" where
  "patched K old r w =
     (let (w1, perr) = k_patch_pool K old (fst r) w
      in (w1, exec_bind (snd r) (\<lambda>(res, reterr).
            Done (res, (case perr of None \<Rightarrow> reterr | Some e \<Rightarrow> k_aggregate K [reterr, Some e])))))"

definition genericReconcile ::
  "('b, 's) netipx \<Rightarrow> 'w kube \<Rightarrow> generic_pool \<Rightarrow> 'w \<Rightarrow> 'w \<times> (ctrl_result \<times> error option) exec" where
  "genericReconcile nx K pool w =
     (case k_new_pool_helper K (AddressPool pool) w of
        Some e \<Rightarrow> (w, Done (no_result, Some e))
      | None \<Rightarrow> patched K (AddressPool pool) (map_prod AddressPool id (generic_body nx K pool w)) w)"

definition InClusterIPPoolReconciler_Reconcile ::
  "('b, 's) netipx \<Rightarrow> 'w kube \<Rightarrow> nsname \<Rightarrow> 'w \<Rightarrow> 'w \<times> (ctrl_result \<times> error option) exec" where
  "InClusterIPPoolReconciler_Reconcile nx K req w =
     (case k_get_ip_pool K req w of
        Inl e \<Rightarrow> (w, Done (no_result,
          if \<not> k_is_notfound K e then Some (Wrapped ''failed to fetch InClusterIPPool'' e) else None))
      | Inr pool \<Rightarrow> genericReconcile nx K (NsPool pool) w)"

definition GlobalInClusterIPPoolReconciler_Reconcile ::
  "('b, 's) netipx \<Rightarrow> 'w kube \<Rightarrow> nsname \<Rightarrow> 'w \<Rightarrow> 'w \<times> (ctrl_result \<times> error option) exec" where
  "GlobalInClusterIPPoolReconciler_Reconcile nx K req w =
     (case k_get_global_ip_pool K req w of
        Inl e \<Rightarrow> (w, Done (no_result,
          if \<not> k_is_notfound K e then Some (Wrapped ''failed to fetch GlobalInClusterIPPool'' e) else None))
      | Inr pool \<Rightarrow> genericReconcile nx K (GlobalPool pool) w)"

subsection \<open>Prefix pools\<close>

fun count_out_of_range ::
  "('b, 's) netipx \<Rightarrow> PrefixPoolConfig \<Rightarrow> ip_address list \<Rightarrow> int \<Rightarrow> int" where
  "count_out_of_range nx config [] outOfRange = outOfRange"
| "count_out_of_range nx config (inUse # rest) outOfRange =
     count_out_of_range nx config rest
       (case PrefixFromIPAddress inUse of
          Inl e \<Rightarrow> outOfRange + 1
        | Inr p \<Rightarrow> if \<not> PrefixIsAllocatable nx p (Some config) then outOfRange + 1 else outOfRange)"

definition prefix_status_of ::
  "('b, 's) netipx \<Rightarrow> InClusterPrefixPoolSpec \<Rightarrow> ip_address list \<Rightarrow>
     error + InClusterPrefixPoolStatusAddresses" where
  "prefix_status_of nx spec addressesInUse =
     (let config = NewPrefixPoolConfig spec; inUseCount = int (length addressesInUse)
      in case PrefixCandidateCount nx (Some config) of
        Inl e \<Rightarrow> Inl (Wrapped ''failed to count allocatable prefixes'' e)
      | Inr candidates \<Rightarrow>
          let outOfRange = count_out_of_range nx config addressesInUse 0;
              free = max 0 (go_int (go_int (candidates - inUseCount) + outOfRange))
          in Inr \<lparr>pp_Total = candidates, pp_Free = free, pp_Used = inUseCount, pp_OutOfRange = outOfRange\<rparr>)"

definition prefix_body ::
  "('b, 's) netipx \<Rightarrow> 'w kube \<Rightarrow> generic_prefix_pool \<Rightarrow> 'w \<Rightarrow>
     generic_prefix_pool \<times> (ctrl_result \<times> error option) exec" where
  "prefix_body nx K pool w =
     (let poolTypeRef = \<lparr>pr_group = ipam_group, pr_kind = gvk_kind (prefix_pool_gvk pool),
            pr_name = om_name (prefix_pool_meta pool)\<rparr>
      in case ListAddressesInUse K (om_namespace (prefix_pool_meta pool)) poolTypeRef w of
        Inl e \<Rightarrow> (pool, Done (no_result, Some (Wrapped ''failed to list addresses'' e)))
      | Inr addressesInUse \<Rightarrow>
          let pool1 = set_prefix_pool_meta (protect_meta K) pool in
          if om_deletion (prefix_pool_meta pool1) \<noteq> None
          then (set_prefix_pool_meta (release_meta K (length addressesInUse)) pool1, Done (no_result, None))
          else (case prefix_status_of nx (PrefixPoolSpec pool1) addressesInUse of
              Inl e \<Rightarrow> (pool1, Done (no_result, Some e))
            | Inr status \<Rightarrow> (set_prefix_pool_status status pool1, Done (no_result, None))))"

definition genericPrefixReconcile ::
  "('b, 's) netipx \<Rightarrow> 'w kube \<Rightarrow> generic_prefix_pool \<Rightarrow> 'w \<Rightarrow> 'w \<times> (ctrl_result \<times> error option) exec" where
  "genericPrefixReconcile nx K pool w =
     (case k_new_pool_helper K (PrefixPool pool) w of
        Some e \<Rightarrow> (w, Done (no_result, Some e))
      | None \<Rightarrow> patched K (PrefixPool pool) (map_prod PrefixPool id (prefix_body nx K pool w)) w)"

definition InClusterPrefixPoolReconciler_Reconcile ::
  "('b, 's) netipx \<Rightarrow> 'w kube \<Rightarrow> nsname \<Rightarrow> 'w \<Rightarrow> 'w \<times> (ctrl_result \<times> error option) exec" where
  "InClusterPrefixPoolReconciler_Reconcile nx K req w =
     (case k_get_prefix_pool K req w of
        Inl e \<Rightarrow> (w, Done (no_result,
          if \<not> k_is_notfound K e then Some (Wrapped ''failed to fetch InClusterPrefixPool'' e) else None))
      | Inr pool \<Rightarrow> genericPrefixReconcile nx K (NsPrefixPool pool) w)"

definition GlobalInClusterPrefixPoolReconciler_Reconcile ::
  "('b, 's) netipx \<Rightarrow> 'w kube \<Rightarrow> nsname \<Rightarrow> 'w \<Rightarrow> 'w \<times> (ctrl_result \<times> error option) exec" where
  "GlobalInClusterPrefixPoolReconciler_Reconcile nx K req w =
     (case k_get_global_prefix_pool K req w of
        Inl e \<Rightarrow> (w, Done (no_result,
          if \<not> k_is_notfound K e then Some (Wrapped ''failed to fetch GlobalInClusterPrefixPool'' e) else None))
      | Inr pool \<Rightarrow> genericPrefixReconcile nx K (GlobalPrefixPool pool) w)"

end
