(* ===== verification/Webhooks.thy ===== *)
theory Webhooks
  imports ClaimHandler
begin

text \<open>
  \<open>internal/webhooks\<close>: the admission webhooks of the pools. A response is the list of
  warnings and the error that denies the request, if any. An index into the ranges of an
  empty set panics.
\<close>

type_synonym admission = "string list \<times> error option"

definition SkipValidateDeleteWebhookAnnotation :: string where
  "SkipValidateDeleteWebhookAnnotation = ''ipam.cluster.x-k8s.io/skip-validate-delete-webhook''"

definition invalid_entry :: string where
  "invalid_entry = ''provided address is not a valid IP, range, nor CIDR''"

text \<open>\<open>ipSet.Ranges()[0]\<close>\<close>

definition first_range :: "('b, 's) netipx \<Rightarrow> 's \<Rightarrow> iprange outcome" where
  "first_range nx ipSet =
     (case nx_ranges nx ipSet of [] \<Rightarrow> Panic ''index out of range'' | r # _ \<Rightarrow> Ok r)"

text \<open>What the deferred function makes of the collected errors.\<close>

definition invalid_object :: "string \<Rightarrow> string \<Rightarrow> field_error list \<Rightarrow> error option" where
  "invalid_object kind name allErrs =
     (if length allErrs > 0 then Some (Invalid ipam_group kind name allErrs) else None)"

subsection \<open>Validation of address pools\<close>

text \<open>
  The loop over the entries of a field: whether there are IPv4 and IPv6 addresses, and the
  errors so far.
\<close>

fun scan_entries ::
  "('b, 's) netipx \<Rightarrow> string \<Rightarrow> string list \<Rightarrow> bool \<times> bool \<times> field_error list \<Rightarrow>
     (bool \<times> bool \<times> field_error list) outcome" where
  "scan_entries nx path [] acc = Ok acc"
| "scan_entries nx path (address # rest) (has4, has6, allErrs) =
     (case AddressToIPSet nx address of
        Inl e \<Rightarrow> scan_entries nx path rest
          (has4, has6, allErrs @ [field_Invalid path (FString address) invalid_entry])
      | Inr ipSet \<Rightarrow>
          outcome_bind (first_range nx ipSet) (\<lambda>r.
            scan_entries nx path rest
              (has4 \<or> Is4 (rng_from r), has6 \<or> Is6 (rng_from r), allErrs)))"

definition validatePrefix ::
  "('b, 's) netipx \<Rightarrow> InClusterIPPoolSpec \<Rightarrow> (field_error list + 's) outcome" where
  "validatePrefix nx spec =
     (case AddressesToIPSet nx (Addresses spec) of
        Inl e \<Rightarrow> Ok (Inl [(''spec.addresses'', FStrings (Addresses spec), e)])
      | Inr addressesIPSet \<Rightarrow>
          outcome_bind (first_range nx addressesIPSet) (\<lambda>r.
          case ParsePrefix (Addr_String (rng_from r) @ ''/'' @ itoa (spec_Prefix spec)) of
            Inl e \<Rightarrow> Ok (Inl [field_Invalid ''spec.prefix'' (FInt (spec_Prefix spec))
                                ''provided prefix is not valid''])
          | Inr prefix \<Rightarrow>
              (case nx_ipset nx (nx_add_prefix nx prefix (nx_new nx)) of
                 Inl e \<Rightarrow> Ok (Inl [(''spec.prefix'', FInt (spec_Prefix spec), e)])
               | Inr prefixIPSet \<Rightarrow> Ok (Inr prefixIPSet))))"

fun check_within ::
  "('b, 's) netipx \<Rightarrow> 's \<Rightarrow> string list \<Rightarrow> field_error list \<Rightarrow> field_error list outcome" where
  "check_within nx prefixIPSet [] errs = Ok errs"
| "check_within nx prefixIPSet (addressStr # rest) errs =
     (case AddressToIPSet nx addressStr of
        Inl e \<Rightarrow> check_within nx prefixIPSet rest
          (errs @ [field_Invalid ''spec.addresses'' (FString addressStr) invalid_entry])
      | Inr addressIPSet \<Rightarrow>
          outcome_bind (first_range nx addressIPSet) (\<lambda>r.
            if \<not> nx_contains_range nx prefixIPSet r
            then check_within nx prefixIPSet rest
              (errs @ [field_Invalid ''spec.addresses'' (FString addressStr)
                 ''provided address belongs to a different subnet than others''])
            else check_within nx prefixIPSet rest errs))"

definition validateAddressesAreWithinPrefix ::
  "('b, 's) netipx \<Rightarrow> InClusterIPPoolSpec \<Rightarrow> field_error list outcome" where
  "validateAddressesAreWithinPrefix nx spec =
     outcome_bind (validatePrefix nx spec) (\<lambda>r.
       case r of
         Inl prefixErrs \<Rightarrow> Ok prefixErrs
       | Inr prefixIPSet \<Rightarrow> check_within nx prefixIPSet (Addresses spec) [])"

text \<open>The check of the gateway.\<close>

definition gateway_errors :: "InClusterIPPoolSpec \<Rightarrow> bool \<Rightarrow> bool \<Rightarrow> field_error list" where
  "gateway_errors spec has4 has6 =
     (if Gateway spec \<noteq> [] then
        (case ParseAddr (Gateway spec) of
           Inl e \<Rightarrow> [(''spec.gateway'', FString (Gateway spec), e)]
         | Inr gateway \<Rightarrow>
             if Is6 gateway \<and> has4 \<or> Is4 gateway \<and> has6
             then [field_Invalid ''spec.gateway'' (FString (Gateway spec))
                     ''provided gateway and addresses are of mixed IP families'']
             else [])
      else [])"

definition collect_errors ::
  "('b, 's) netipx \<Rightarrow> InClusterIPPoolSpec \<Rightarrow> field_error list outcome" where
  "collect_errors nx spec =
     (let errs0 = (if length (Addresses spec) = 0
            then [field_Invalid ''spec.addresses'' (FStrings (Addresses spec)) ''addresses is required'']
            else []);
          errs1 = errs0 @ (if spec_Prefix spec < 0
            then [field_Invalid ''spec.prefix'' (FStrings (Addresses spec)) ''a valid prefix is required'']
            else [])
      in outcome_bind (scan_entries nx ''spec.addresses'' (Addresses spec) (False, False, errs1))
        (\<lambda>(has4, has6, errs2).
          let errs3 = errs2 @ (if has4 \<and> has6
                then [field_Invalid ''spec.addresses'' (FStrings (Addresses spec))
                        ''provided addresses are of mixed IP families'']
                else []);
              errs4 = errs3 @ gateway_errors spec has4 has6
          in outcome_bind
            (scan_entries nx ''spec.excludedAddresses'' (ExcludedAddresses spec) (False, False, errs4))
            (\<lambda>(ex4, ex6, errs5).
              let errs6 = errs5 @ (if ex4 \<and> ex6
                    then [field_Invalid ''spec.excludedAddresses'' (FStrings (ExcludedAddresses spec))
                            ''provided addresses are of mixed IP families'']
                    else []);
                  errs7 = errs6 @ (if has4 \<and> ex6 \<or> has6 \<and> ex4
                    then [field_Invalid ''spec.excludedAddresses'' (FStrings (ExcludedAddresses spec))
                            ''addresses and excluded addresses are of mixed IP families'']
                    else []);
                  errs8 = errs7 @ (case AddressReuseGracePeriodSeconds spec of
                      None \<Rightarrow> []
                    | Some s \<Rightarrow> if s < 0
                        then [field_Invalid ''spec.addressReuseGracePeriodSeconds'' (FInt s)
                                ''addressReuseGracePeriodSeconds must not be negative'']
                        else [])
              in if length errs8 = 0 then validateAddressesAreWithinPrefix nx spec
                 else Ok errs8)))"

definition InClusterIPPool_validate ::
  "('b, 's) netipx \<Rightarrow> generic_pool \<Rightarrow> error option outcome" where
  "InClusterIPPool_validate nx newPool =
     outcome_bind (collect_errors nx (PoolSpec newPool)) (\<lambda>allErrs.
       Ok (invalid_object (gvk_kind (pool_gvk newPool)) (om_name (pool_meta newPool)) allErrs))"

subsection \<open>The webhook of address pools\<close>

definition InClusterIPPool_Default :: "generic_pool \<Rightarrow> generic_pool \<times> error option" where
  "InClusterIPPool_Default pool = (pool, None)"

definition InClusterIPPool_ValidateCreate ::
  "('b, 's) netipx \<Rightarrow> generic_pool \<Rightarrow> admission outcome" where
  "InClusterIPPool_ValidateCreate nx pool =
     outcome_bind (InClusterIPPool_validate nx pool) (\<lambda>err. Ok ([], err))"

definition InClusterIPPool_ValidateUpdate ::
  "('b, 's) netipx \<Rightarrow> 'w kube \<Rightarrow> generic_pool \<Rightarrow> generic_pool \<Rightarrow> 'w \<Rightarrow> admission outcome" where
  "InClusterIPPool_ValidateUpdate nx K oldPool newPool w =
     outcome_bind (InClusterIPPool_validate nx newPool) (\<lambda>err.
     case err of
       Some e \<Rightarrow> Ok ([], Some e)
     | None \<Rightarrow>
       (case ListAddressesInUse K (om_namespace (pool_meta oldPool))
               \<lparr>pr_group = ipam_group, pr_kind = gvk_kind (pool_gvk oldPool),
                pr_name = om_name (pool_meta oldPool)\<rparr> w of
          Inl e \<Rightarrow> Ok ([], Some (InternalError e))
        | Inr inUseAddresses \<Rightarrow>
          let inUseBuilder = add_parsable nx inUseAddresses (nx_new nx) in
          (case PoolSpecToIPSet nx (PoolSpec newPool) of
             Panic m \<Rightarrow> Panic m
           | Err e \<Rightarrow> Ok ([], Some (InternalError e))
           | Ok newPoolIPSet \<Rightarrow>
             (case nx_ipset nx (nx_remove_set nx newPoolIPSet inUseBuilder) of
                Inl e \<Rightarrow> Ok ([], Some (InternalError e))
              | Inr outOfRangeIPSet \<Rightarrow>
                  let outOfRange = nx_ranges nx outOfRangeIPSet in
                  if length outOfRange > 0
                  then Ok ([], Some (BadRequest ''pool addresses do not contain allocated addresses''
                               (map (nx_range_string nx) outOfRange)))
                  else Ok ([], None)))))"

definition InClusterIPPool_ValidateDelete ::
  "'w kube \<Rightarrow> generic_pool \<Rightarrow> 'w \<Rightarrow> admission" where
  "InClusterIPPool_ValidateDelete K pool w =
     (if om_annotations (pool_meta pool) SkipValidateDeleteWebhookAnnotation \<noteq> None then ([], None)
      else case ListAddressesInUse K (om_namespace (pool_meta pool))
               \<lparr>pr_group = gvk_group (pool_gvk pool), pr_kind = gvk_kind (pool_gvk pool),
                pr_name = om_name (pool_meta pool)\<rparr> w of
          Inl e \<Rightarrow> ([], Some (InternalError e))
        | Inr inUseAddresses \<Rightarrow>
            if length inUseAddresses > 0
            then ([], Some (BadRequest
              ''Pool has IPAddresses allocated. Cannot delete Pool until all IPAddresses have been removed.'' []))
            else ([], None))"

text \<open>The two adapters bind the webhook to the Go types of the pools.\<close>

definition inClusterIPPoolAdapter_Default :: "InClusterIPPool \<Rightarrow> generic_pool \<times> error option" where
  "inClusterIPPoolAdapter_Default obj = InClusterIPPool_Default (NsPool obj)"

definition inClusterIPPoolAdapter_ValidateCreate ::
  "('b, 's) netipx \<Rightarrow> InClusterIPPool \<Rightarrow> admission outcome" where
  "inClusterIPPoolAdapter_ValidateCreate nx obj = InClusterIPPool_ValidateCreate nx (NsPool obj)"

definition inClusterIPPoolAdapter_ValidateUpdate ::
  "('b, 's) netipx \<Rightarrow> 'w kube \<Rightarrow> InClusterIPPool \<Rightarrow> InClusterIPPool \<Rightarrow> 'w \<Rightarrow> admission outcome" where
  "inClusterIPPoolAdapter_ValidateUpdate nx K oldObj newObj =
     InClusterIPPool_ValidateUpdate nx K (NsPool oldObj) (NsPool newObj)"

definition inClusterIPPoolAdapter_ValidateDelete ::
  "'w kube \<Rightarrow> InClusterIPPool \<Rightarrow> 'w \<Rightarrow> admission" where
  "inClusterIPPoolAdapter_ValidateDelete K obj = InClusterIPPool_ValidateDelete K (NsPool obj)"

definition globalInClusterIPPoolAdapter_Default ::
  "GlobalInClusterIPPool \<Rightarrow> generic_pool \<times> error option" where
  "globalInClusterIPPoolAdapter_Default obj = InClusterIPPool_Default (GlobalPool obj)"

definition globalInClusterIPPoolAdapter_ValidateCreate ::
  "('b, 's) netipx \<Rightarrow> GlobalInClusterIPPool \<Rightarrow> admission outcome" where
  "globalInClusterIPPoolAdapter_ValidateCreate nx obj =
     InClusterIPPool_ValidateCreate nx (GlobalPool obj)"

definition globalInClusterIPPoolAdapter_ValidateUpdate ::
  "('b, 's) netipx \<Rightarrow> 'w kube \<Rightarrow> GlobalInClusterIPPool \<Rightarrow> GlobalInClusterIPPool \<Rightarrow> 'w \<Rightarrow>
     admission outcome" where
  "globalInClusterIPPoolAdapter_ValidateUpdate nx K oldObj newObj =
     InClusterIPPool_ValidateUpdate nx K (GlobalPool oldObj) (GlobalPool newObj)"

definition globalInClusterIPPoolAdapter_ValidateDelete ::
  "'w kube \<Rightarrow> GlobalInClusterIPPool \<Rightarrow> 'w \<Rightarrow> admission" where
  "globalInClusterIPPoolAdapter_ValidateDelete K obj = InClusterIPPool_ValidateDelete K (GlobalPool obj)"

end
