(* ===== verification/PrefixWebhooks.thy ===== *)
theory PrefixWebhooks
  imports Webhooks
begin

text \<open>
  \<open>internal/webhooks/inclusterprefixpool.go\<close>: the admission webhook of the prefix pools. Its
  methods take a \<open>runtime.Object\<close> and reject every object that is not a prefix pool.
\<close>

subsection \<open>Constants and the type switch\<close>

definition errNonAllocatableAllocations :: string where
  "errNonAllocatableAllocations = ''existing allocations become non-allocatable''"

definition warnPrefixLength :: string where
  "warnPrefixLength = ''spec.allocationPrefixLength=128 behaves like host-address allocation; consider InClusterIPPool for single-address semantics''"

definition warnGatewayCollision :: string where
  "warnGatewayCollision = ''spec.gateway is within spec.prefixes and is not reserved; with /128 allocationPrefixLength it may also be allocated to claims''"

fun as_prefix_pool :: "api_object \<Rightarrow> generic_prefix_pool option" where
  "as_prefix_pool (PoolObject (PrefixPool p)) = Some p"
| "as_prefix_pool _ = None"

text \<open>The format verb \<open>%T\<close>.\<close>

fun go_type :: "api_object \<Rightarrow> string" where
  "go_type (AddressObject _) = ''*v1beta2.IPAddress''"
| "go_type (ClaimObject _) = ''*v1beta2.IPAddressClaim''"
| "go_type (PoolObject (AddressPool (NsPool _))) = ''*v1alpha2.InClusterIPPool''"
| "go_type (PoolObject (AddressPool (GlobalPool _))) = ''*v1alpha2.GlobalInClusterIPPool''"
| "go_type (PoolObject (PrefixPool (NsPrefixPool _))) = ''*v1alpha2.InClusterPrefixPool''"
| "go_type (PoolObject (PrefixPool (GlobalPrefixPool _))) = ''*v1alpha2.GlobalInClusterPrefixPool''"
| "go_type (ClusterObject _) = ''*v1beta2.Cluster''"

definition wrong_type :: "api_object \<Rightarrow> error" where
  "wrong_type obj = BadRequest
     (''expected an InClusterPrefixPool or GlobalInClusterPrefixPool but got a '' @ go_type obj) []"

fun prefixPoolKind :: "generic_prefix_pool \<Rightarrow> string" where
  "prefixPoolKind (NsPrefixPool _) = inClusterPrefixPoolKind"
| "prefixPoolKind (GlobalPrefixPool _) = globalInClusterPrefixPoolKind"

subsection \<open>Validation\<close>

definition prefix_entry_errors :: "int \<Rightarrow> string \<Rightarrow> field_error list" where
  "prefix_entry_errors allocLen address =
     (case ParsePrefix address of
        Inl e \<Rightarrow> [field_Invalid ''spec.prefixes'' (FString address)
                    ''provided entry is not a valid IPv6 CIDR'']
      | Inr prefix \<Rightarrow>
          if Is4 (pfx_addr prefix)
          then [field_Invalid ''spec.prefixes'' (FString address) ''only IPv6 prefixes are supported'']
          else (if prefix \<noteq> Masked prefix
                then [field_Invalid ''spec.prefixes'' (FString address) ''CIDR must be network-aligned'']
                else [])
            @ (if pfx_bits prefix > allocLen
               then [field_Invalid ''spec.prefixes'' (FString address)
                      (''CIDR prefix length must be <= allocationPrefixLength ('' @ itoa allocLen @ '')'')]
               else []))"

definition prefix_gateway_errors :: "InClusterPrefixPoolSpec \<Rightarrow> field_error list" where
  "prefix_gateway_errors spec =
     (if pp_Gateway spec \<noteq> [] then
        (case ParseAddr (pp_Gateway spec) of
           Inl e \<Rightarrow> [(''spec.gateway'', FString (pp_Gateway spec), e)]
         | Inr gateway \<Rightarrow>
             if \<not> Is6 gateway
             then [field_Invalid ''spec.gateway'' (FString (pp_Gateway spec))
                     ''provided gateway must be IPv6'']
             else [])
      else [])"

fun scan_excluded ::
  "('b, 's) netipx \<Rightarrow> string list \<Rightarrow> field_error list \<Rightarrow> field_error list outcome" where
  "scan_excluded nx [] allErrs = Ok allErrs"
| "scan_excluded nx (excluded # rest) allErrs =
     (case AddressToIPSet nx excluded of
        Inl e \<Rightarrow> scan_excluded nx rest
          (allErrs @ [field_Invalid ''spec.excludedPrefixes'' (FString excluded)
             ''provided entry is not a valid IP, range, nor CIDR''])
      | Inr ipSet \<Rightarrow>
          outcome_bind (first_range nx ipSet) (\<lambda>r.
            scan_excluded nx rest
              (allErrs @ (if Is4 (rng_from r)
                 then [field_Invalid ''spec.excludedPrefixes'' (FString excluded)
                         ''only IPv6 excluded prefixes are supported'']
                 else []))))"

definition collect_prefix_errors ::
  "('b, 's) netipx \<Rightarrow> InClusterPrefixPoolSpec \<Rightarrow> field_error list outcome" where
  "collect_prefix_errors nx spec =
     (if length (Prefixes spec) = 0
      then Ok [field_Invalid ''spec.prefixes'' (FStrings (Prefixes spec)) ''prefixes is required'']
      else let allocLen = EffectiveAllocationPrefixLength (AllocationPrefixLength spec) in
        if allocLen < 1 \<or> allocLen > 128
        then Ok [field_Invalid ''spec.allocationPrefixLength'' (FInt allocLen)
                   ''allocationPrefixLength must be between 1 and 128'']
        else scan_excluded nx (ExcludedPrefixes spec)
          (concat (map (prefix_entry_errors allocLen) (Prefixes spec)) @ prefix_gateway_errors spec))"

definition InClusterPrefixPool_validate ::
  "('b, 's) netipx \<Rightarrow> generic_prefix_pool \<Rightarrow> error option outcome" where
  "InClusterPrefixPool_validate nx pool =
     outcome_bind (collect_prefix_errors nx (PrefixPoolSpec pool)) (\<lambda>allErrs.
       Ok (invalid_object (prefixPoolKind pool) (om_name (prefix_pool_meta pool)) allErrs))"

definition prefixPoolWarnings ::
  "('b, 's) netipx \<Rightarrow> InClusterPrefixPoolSpec option \<Rightarrow> string list" where
  "prefixPoolWarnings nx spec_ptr =
     (case spec_ptr of
        None \<Rightarrow> []
      | Some spec \<Rightarrow>
          if EffectiveAllocationPrefixLength (AllocationPrefixLength spec) \<noteq> 128 then []
          else if pp_Gateway spec = [] then [warnPrefixLength]
          else (case ParseAddr (pp_Gateway spec) of
              Inl e \<Rightarrow> [warnPrefixLength]
            | Inr gateway \<Rightarrow>
                if \<not> Is6 gateway then [warnPrefixLength]
                else (case PrefixesToIPSet nx (Prefixes spec) of
                    Inl e \<Rightarrow> [warnPrefixLength]
                  | Inr poolIPSet \<Rightarrow>
                      if \<not> nx_contains nx poolIPSet gateway then [warnPrefixLength]
                      else [warnPrefixLength, warnGatewayCollision])))"

subsection \<open>The webhook\<close>

definition InClusterPrefixPool_Default :: "api_object \<Rightarrow> api_object \<times> error option" where
  "InClusterPrefixPool_Default obj =
     (case as_prefix_pool obj of
        None \<Rightarrow> (obj, Some (wrong_type obj))
      | Some pool \<Rightarrow>
          (PoolObject (PrefixPool (set_prefix_pool_spec
             (\<lambda>spec. spec\<lparr>AllocationPrefixLength :=
                EffectiveAllocationPrefixLength (AllocationPrefixLength spec)\<rparr>) pool)), None))"

definition InClusterPrefixPool_ValidateCreate ::
  "('b, 's) netipx \<Rightarrow> api_object \<Rightarrow> admission outcome" where
  "InClusterPrefixPool_ValidateCreate nx obj =
     (case as_prefix_pool obj of
        None \<Rightarrow> Ok ([], Some (wrong_type obj))
      | Some pool \<Rightarrow>
          outcome_bind (InClusterPrefixPool_validate nx pool) (\<lambda>err.
            case err of
              Some e \<Rightarrow> Ok ([], Some e)
            | None \<Rightarrow> Ok (prefixPoolWarnings nx (Some (PrefixPoolSpec pool)), None)))"

text \<open>The texts of the allocations that the new spec does not allow.\<close>

definition out_of_range_prefixes ::
  "('b, 's) netipx \<Rightarrow> PrefixPoolConfig \<Rightarrow> ip_address list \<Rightarrow> string list" where
  "out_of_range_prefixes nx newConfig inUseAddresses =
     map ia_address (filter (\<lambda>address.
       case PrefixFromIPAddress address of
         Inl e \<Rightarrow> True
       | Inr prefix \<Rightarrow> \<not> PrefixIsAllocatable nx prefix (Some newConfig)) inUseAddresses)"

definition InClusterPrefixPool_ValidateUpdate ::
  "('b, 's) netipx \<Rightarrow> 'w kube \<Rightarrow> api_object \<Rightarrow> api_object \<Rightarrow> 'w \<Rightarrow> admission outcome" where
  "InClusterPrefixPool_ValidateUpdate nx K oldObj newObj w =
     (case as_prefix_pool newObj of
        None \<Rightarrow> Ok ([], Some (wrong_type newObj))
      | Some newPool \<Rightarrow>
     (case as_prefix_pool oldObj of
        None \<Rightarrow> Ok ([], Some (wrong_type oldObj))
      | Some oldPool \<Rightarrow>
     outcome_bind (InClusterPrefixPool_validate nx newPool) (\<lambda>err.
     case err of
       Some e \<Rightarrow> Ok ([], Some e)
     | None \<Rightarrow>
       if EffectiveAllocationPrefixLength (AllocationPrefixLength (PrefixPoolSpec oldPool))
          \<noteq> EffectiveAllocationPrefixLength (AllocationPrefixLength (PrefixPoolSpec newPool))
       then Ok ([], Some (BadRequest ''spec.allocationPrefixLength is immutable'' []))
       else (case ListAddressesInUse K (om_namespace (prefix_pool_meta oldPool))
               \<lparr>pr_group = ipam_group, pr_kind = prefixPoolKind oldPool,
                pr_name = om_name (prefix_pool_meta oldPool)\<rparr> w of
          Inl e \<Rightarrow> Ok ([], Some (InternalError e))
        | Inr inUseAddresses \<Rightarrow>
            let outOfRangePrefixes = out_of_range_prefixes nx
                  (NewPrefixPoolConfig (PrefixPoolSpec newPool)) inUseAddresses
            in if length outOfRangePrefixes > 0
               then Ok ([], Some (BadRequest errNonAllocatableAllocations (sort outOfRangePrefixes)))
               else Ok (prefixPoolWarnings nx (Some (PrefixPoolSpec newPool)), None)))))"

definition InClusterPrefixPool_ValidateDelete ::
  "'w kube \<Rightarrow> api_object \<Rightarrow> 'w \<Rightarrow> admission" where
  "InClusterPrefixPool_ValidateDelete K obj w =
     (case as_prefix_pool obj of
        None \<Rightarrow> ([], Some (wrong_type obj))
      | Some pool \<Rightarrow>
          if om_annotations (prefix_pool_meta pool) SkipValidateDeleteWebhookAnnotation \<noteq> None
          then ([], None)
          else (case ListAddressesInUse K (om_namespace (prefix_pool_meta pool))
               \<lparr>pr_group = ipam_group, pr_kind = prefixPoolKind pool,
                pr_name = om_name (prefix_pool_meta pool)\<rparr> w of
              Inl e \<Rightarrow> ([], Some (InternalError e))
            | Inr inUseAddresses \<Rightarrow>
                if length inUseAddresses > 0
                then ([], Some (BadRequest
                  ''Pool has IPAddresses allocated. Cannot delete Pool until all IPAddresses have been removed.'' []))
                else ([], None)))"

definition inClusterPrefixPoolAdapter_Default ::
  "InClusterPrefixPool \<Rightarrow> api_object \<times> error option" where
  "inClusterPrefixPoolAdapter_Default obj =
     InClusterPrefixPool_Default (PoolObject (PrefixPool (NsPrefixPool obj)))"

definition inClusterPrefixPoolAdapter_ValidateCreate ::
  "('b, 's) netipx \<Rightarrow> InClusterPrefixPool \<Rightarrow> admission outcome" where
  "inClusterPrefixPoolAdapter_ValidateCreate nx obj =
     InClusterPrefixPool_ValidateCreate nx (PoolObject (PrefixPool (NsPrefixPool obj)))"

definition inClusterPrefixPoolAdapter_ValidateUpdate ::
  "('b, 's) netipx \<Rightarrow> 'w kube \<Rightarrow> InClusterPrefixPool \<Rightarrow> InClusterPrefixPool \<Rightarrow> 'w \<Rightarrow>
     admission outcome" where
  "inClusterPrefixPoolAdapter_ValidateUpdate nx K oldObj newObj =
     InClusterPrefixPool_ValidateUpdate nx K (PoolObject (PrefixPool (NsPrefixPool oldObj)))
       (PoolObject (PrefixPool (NsPrefixPool newObj)))"

definition inClusterPrefixPoolAdapter_ValidateDelete ::
  "'w kube \<Rightarrow> InClusterPrefixPool \<Rightarrow> 'w \<Rightarrow> admission" where
  "inClusterPrefixPoolAdapter_ValidateDelete K obj =
     InClusterPrefixPool_ValidateDelete K (PoolObject (PrefixPool (NsPrefixPool obj)))"

definition globalInClusterPrefixPoolAdapter_Default ::
  "GlobalInClusterPrefixPool \<Rightarrow> api_object \<times> error option" where
  "globalInClusterPrefixPoolAdapter_Default obj =
     InClusterPrefixPool_Default (PoolObject (PrefixPool (GlobalPrefixPool obj)))"

definition globalInClusterPrefixPoolAdapter_ValidateCreate ::
  "('b, 's) netipx \<Rightarrow> GlobalInClusterPrefixPool \<Rightarrow> admission outcome" where
  "globalInClusterPrefixPoolAdapter_ValidateCreate nx obj =
     InClusterPrefixPool_ValidateCreate nx (PoolObject (PrefixPool (GlobalPrefixPool obj)))"

definition globalInClusterPrefixPoolAdapter_ValidateUpdate ::
  "('b, 's) netipx \<Rightarrow> 'w kube \<Rightarrow> GlobalInClusterPrefixPool \<Rightarrow> GlobalInClusterPrefixPool \<Rightarrow> 'w \<Rightarrow>
     admission outcome" where
  "globalInClusterPrefixPoolAdapter_ValidateUpdate nx K oldObj newObj =
     InClusterPrefixPool_ValidateUpdate nx K (PoolObject (PrefixPool (GlobalPrefixPool oldObj)))
       (PoolObject (PrefixPool (GlobalPrefixPool newObj)))"

definition globalInClusterPrefixPoolAdapter_ValidateDelete ::
  "'w kube \<Rightarrow> GlobalInClusterPrefixPool \<Rightarrow> 'w \<Rightarrow> admission" where
  "globalInClusterPrefixPoolAdapter_ValidateDelete K obj =
     InClusterPrefixPool_ValidateDelete K (PoolObject (PrefixPool (GlobalPrefixPool obj)))"

end
