(* ===== verification/Admission.thy ===== *)
theory Admission
  imports Webhooks Allocation
begin

text \<open>
  What the webhook of address pools admits. \<open>admissible\<close> is the contract of a spec, and the
  webhook decides it: its collected errors are empty exactly for admissible specs, and the
  unchecked index expressions of the code never fail. An admitted spec is one that the
  allocation and the controllers can work with.
\<close>

subsection \<open>The contract\<close>

text \<open>The addresses of the entries that parse.\<close>

definition parsed_addrs :: "string list \<Rightarrow> addr set" where
  "parsed_addrs ss = \<Union> {A. \<exists>s \<in> set ss. entry_set s = Some A}"

definition one_family :: "addr set \<Rightarrow> bool" where
  "one_family A \<longleftrightarrow> (\<forall>a \<in> A. \<forall>b \<in> A. Is4 a = Is4 b)"

definition admissible :: "InClusterIPPoolSpec \<Rightarrow> bool" where
  "admissible spec \<longleftrightarrow> (\<exists>A E.
     entries_set (Addresses spec) = Some A \<and> Addresses spec \<noteq> []
     \<and> entries_set (ExcludedAddresses spec) = Some E
     \<and> (Gateway spec = [] \<or> (\<exists>a. ParseAddr (Gateway spec) = Inr a))
     \<and> one_family (A \<union> E \<union> gateway_addrs spec)
     \<and> Prefix_IsValid (spec_subnet spec) \<and> A \<subseteq> pfx_set (spec_subnet spec)
     \<and> (\<forall>s. AddressReuseGracePeriodSeconds spec = Some s \<longrightarrow> 0 \<le> s))"

text \<open>The addresses in use whose text parses.\<close>

definition in_use_addrs :: "ip_address list \<Rightarrow> addr set" where
  "in_use_addrs as = {WithZone a [] |a. \<exists>x \<in> set as. ParseAddr (ia_address x) = Inr a}"

lemma admissible_parses: "admissible spec \<Longrightarrow> spec_parses spec"
  by (auto simp: admissible_def spec_parses_def)

lemma admissible_pool_addrs:
  assumes "admissible spec"
  shows "pool_addrs spec \<subseteq> pfx_set (spec_subnet spec)" "one_family (pool_addrs spec)"
proof -
  obtain A E where A: "entries_set (Addresses spec) = Some A" "A \<subseteq> pfx_set (spec_subnet spec)"
    "one_family (A \<union> E \<union> gateway_addrs spec)"
    using assms unfolding admissible_def by blast
  then have "pool_addrs spec \<subseteq> A" by (auto simp: pool_addrs_def)
  with A show "pool_addrs spec \<subseteq> pfx_set (spec_subnet spec)" "one_family (pool_addrs spec)"
    unfolding one_family_def by blast+
qed

lemma parsed_addrs_simps [simp]:
  "parsed_addrs [] = {}"
  "entry_set s = None \<Longrightarrow> parsed_addrs (s # ss) = parsed_addrs ss"
  "entry_set s = Some A \<Longrightarrow> parsed_addrs (s # ss) = A \<union> parsed_addrs ss"
  by (auto simp: parsed_addrs_def)

lemma parsed_addrs_entries: "entries_set ss = Some A \<Longrightarrow> parsed_addrs ss = A"
  by (force simp: parsed_addrs_def entries_set_def list_all_iff split: if_splits)

lemma entries_set_None_iff: "entries_set ss = None \<longleftrightarrow> (\<exists>s \<in> set ss. entry_set s = None)"
  by (auto simp: entries_set_def list_all_iff)

lemma entries_set_nonempty: "entries_set ss = Some A \<Longrightarrow> ss \<noteq> [] \<Longrightarrow> A \<noteq> {}"
  using entries_set_empty_iff [of ss] by auto

lemma zoneless_Is6: "zoneless a \<Longrightarrow> Is6 a \<longleftrightarrow> \<not> Is4 a"
  by (cases a) (simp_all add: zoneless_def)

lemma valid_Is6: "IsValid a \<Longrightarrow> Is6 a \<longleftrightarrow> \<not> Is4 a"
  by (cases a) simp_all

lemma Is4_WithZone [simp]: "Is4 (WithZone a z) \<longleftrightarrow> Is4 a"
  by (cases a) simp_all

lemma rng_set_family:
  assumes "rng_valid r" "a \<in> rng_set r"
  shows "Is4 a \<longleftrightarrow> Is4 (rng_from r)"
proof -
  obtain f x y where "r = nrange f x y" "x \<le> y" "y < 2 ^ famlen f"
    using assms(1) by (rule valid_range_cases)
  with assms(2) show ?thesis by (auto simp: rng_set_nrange)
qed

subsection \<open>Scanning the entries\<close>

context netipx_laws
begin

lemma entry_range:
  assumes "entry_set s = Some A"
  obtains r where "rng_valid r" "A = rng_set r"
proof -
  consider "\<exists>r. parse_range_spec s = Some r \<and> A = rng_set r" | "\<exists>p. ParsePrefix s = Inr p \<and> A = pfx_set p"
    | "\<exists>a. ParseAddr s = Inr a \<and> A = {WithZone a []}"
    using assms by (auto simp: entry_set_def split: if_splits sum.splits)
  then show thesis
  proof cases
    case 1
    then show ?thesis using parse_range_spec_valid that by blast
  next
    case 2
    then show ?thesis using ParsePrefix_valid range_of_prefix that by metis
  next
    case 3
    then obtain a where a: "ParseAddr s = Inr a" "A = {WithZone a []}" by blast
    then have "zoneless (WithZone a [])" by (simp add: ParseAddr_valid zoneless_WithZone)
    with a that [of "\<lparr>rng_from = WithZone a [], rng_to = WithZone a []\<rparr>"] show ?thesis
      by (simp add: rng_valid_single rng_set_single)
  qed
qed

text \<open>The set of a single entry has exactly one range.\<close>

lemma entry_ranges:
  assumes "ips nx t = A" "entry_set s = Some A"
  obtains r where "nx_ranges nx t = [r]" "rng_valid r" "rng_set r = A"
proof -
  obtain q where q: "rng_valid q" "A = rng_set q" using assms(2) by (rule entry_range)
  then obtain r where r: "r \<in> set (nx_ranges nx t)" "A \<subseteq> rng_set r"
    using ranges_minimal [of q t] assms(1) by auto
  have eq: "rng_set p \<subseteq> rng_set r" if "p \<in> set (nx_ranges nx t)" for p
    using that r assms(1) ranges_cover [of t] by auto
  have apart: "rng_set p \<inter> rng_set p' = {}" if "rng_to p < rng_from p'" for p p'
    using that by (auto simp: rng_set_def addr_interval_def)
  have "nx_ranges nx t = [r]"
  proof (cases "nx_ranges nx t")
    case Nil
    with r show ?thesis by simp
  next
    case (Cons p ps)
    have "ps = []"
    proof (cases ps)
      case (Cons p' ps')
      with \<open>nx_ranges nx t = p # ps\<close> have "rng_to p < rng_from p'"
        and mem: "p \<in> set (nx_ranges nx t)" "p' \<in> set (nx_ranges nx t)"
        and sep: "\<And>x. x \<in> set ps \<Longrightarrow> rng_to p < rng_from x"
          "\<And>x. x \<in> set ps' \<Longrightarrow> rng_to p' < rng_from x"
        using ranges_sorted [of t] by auto
      have ne: "rng_set p \<noteq> {}" "rng_set p' \<noteq> {}"
        using mem ranges_valid rng_set_nonempty by fastforce+
      show ?thesis
      proof (cases "r = p")
        case True
        then show ?thesis using eq [OF mem(2)] apart [OF \<open>rng_to p < rng_from p'\<close>] ne by blast
      next
        case False
        then have "r \<in> set ps" using r \<open>nx_ranges nx t = p # ps\<close> by auto
        then show ?thesis using eq [OF mem(1)] apart [OF sep(1)] ne by blast
      qed
    qed
    with Cons r show ?thesis by simp
  qed
  moreover have "rng_set r = A" using r assms(1) ranges_cover [of t] by auto
  ultimately show thesis using that r ranges_valid by blast
qed

lemma first_range_entry:
  assumes "ips nx t = A" "entry_set s = Some A"
  obtains r where "first_range nx t = Ok r" "rng_valid r" "rng_set r = A"
  by (rule entry_ranges [OF assms]) (simp add: first_range_def that)

lemma entry_family:
  assumes "rng_valid r" "rng_set r = A"
  shows "Is4 (rng_from r) \<longleftrightarrow> (\<exists>a \<in> A. Is4 a)" "Is6 (rng_from r) \<longleftrightarrow> (\<exists>a \<in> A. \<not> Is4 a)"
proof -
  have lo: "rng_from r \<in> A" using assms rng_set_nonempty by blast
  moreover have "Is4 a \<longleftrightarrow> Is4 (rng_from r)" if "a \<in> A" for a
    using rng_set_family [OF assms(1), of a] that assms(2) by simp
  moreover have "zoneless (rng_from r)" using lo assms(2) by (blast dest: rng_set_zoneless)
  ultimately show "Is4 (rng_from r) \<longleftrightarrow> (\<exists>a \<in> A. Is4 a)" "Is6 (rng_from r) \<longleftrightarrow> (\<exists>a \<in> A. \<not> Is4 a)"
    by (blast, metis zoneless_Is6)
qed

lemma scan_entries_eq:
  "scan_entries nx path ss (has4, has6, errs) =
     Ok (has4 \<or> (\<exists>a \<in> parsed_addrs ss. Is4 a), has6 \<or> (\<exists>a \<in> parsed_addrs ss. \<not> Is4 a),
         errs @ map (\<lambda>s. field_Invalid path (FString s) invalid_entry)
           (filter (\<lambda>s. entry_set s = None) ss))"
proof (induction ss arbitrary: has4 has6 errs)
  case (Cons s ss)
  show ?case
  proof (cases rule: AddressToIPSet_cases [of s])
    case (ok t A)
    obtain r where r: "first_range nx t = Ok r" "rng_valid r" "rng_set r = A"
      by (rule first_range_entry [OF ok(3,2)])
    with ok show ?thesis
      by (simp add: Cons.IH entry_family [OF r(2,3)] bex_Un disj_assoc)
  next
    case (error e)
    then show ?thesis by (simp add: Cons.IH)
  qed
qed simp

subsection \<open>The subnet check\<close>

lemma check_within_eq:
  assumes "entries_set ss = Some A"
  shows "\<exists>errs'. check_within nx P ss errs = Ok (errs @ errs') \<and> (errs' = [] \<longleftrightarrow> A \<subseteq> ips nx P)"
  using assms
proof (induction ss arbitrary: errs A)
  case (Cons s ss)
  then obtain B C where B: "entry_set s = Some B" and C: "entries_set ss = Some C" and A: "A = B \<union> C"
    by (auto simp: entries_set_def split: if_splits)
  obtain t where t: "AddressToIPSet nx s = Inr t" "ips nx t = B"
    using B by (cases rule: AddressToIPSet_cases [of s]) auto
  obtain r where r: "first_range nx t = Ok r" "rng_valid r" "rng_set r = B"
    by (rule first_range_entry [OF t(2) B])
  show ?case
  proof (cases "B \<subseteq> ips nx P")
    case True
    with Cons.IH [OF C, of errs] r t A show ?thesis by (auto simp: contains_range_iff)
  next
    case False
    let ?e = "field_Invalid ''spec.addresses'' (FString s)
      ''provided address belongs to a different subnet than others''"
    obtain errs' where "check_within nx P ss (errs @ [?e]) = Ok ((errs @ [?e]) @ errs')"
      using Cons.IH [OF C] by blast
    with False r t A show ?thesis
      by (intro exI [of _ "?e # errs'"]) (auto simp: contains_range_iff)
  qed
qed simp

lemma validatePrefix_cases:
  assumes "entries_set (Addresses spec) = Some A" "Addresses spec \<noteq> []" "0 \<le> spec_Prefix spec"
  obtains (ok) P where "validatePrefix nx spec = Ok (Inr P)" "Prefix_IsValid (spec_subnet spec)"
      "ips nx P = pfx_set (spec_subnet spec)"
    | (error) e where "validatePrefix nx spec = Ok (Inl [e])" "\<not> Prefix_IsValid (spec_subnet spec)"
proof -
  obtain t where t: "AddressesToIPSet nx (Addresses spec) = Inr t" "ips nx t = A"
    using assms by (cases rule: AddressesToIPSet_cases [of "Addresses spec"]) auto
  have "A \<noteq> {}" using assms entries_set_nonempty by blast
  then obtain r rs where rs: "nx_ranges nx t = r # rs"
    using t ranges_Nil_iff [of t] by (cases "nx_ranges nx t") auto
  note first = first_range_Min [OF rs]
  have subnet: "spec_subnet spec = PrefixFrom (rng_from r) (spec_Prefix spec)"
    using first t assms by (simp add: spec_subnet_def)
  have not_zero: "rng_from r \<noteq> ZeroAddr" using first(3) by (auto simp: zoneless_def)
  show thesis
  proof (cases "spec_Prefix spec \<le> BitLen (rng_from r)")
    case True
    then have parse: "ParsePrefix (Addr_String (rng_from r) @ ''/'' @ itoa (spec_Prefix spec)) =
        Inr (spec_subnet spec)"
      unfolding subnet using first assms by (intro ParsePrefix_Addr_String) auto
    have valid: "Prefix_IsValid (spec_subnet spec)"
      using True assms not_zero by (simp add: subnet PrefixFrom_def Prefix_IsValid_def)
    obtain P where "nx_ipset nx (nx_add_prefix nx (spec_subnet spec) (nx_new nx)) = Inr P"
      "ips nx P = pfx_set (spec_subnet spec)"
      using ipset_ok [of "nx_add_prefix nx (spec_subnet spec) (nx_new nx)"] valid
      by (auto simp: builder_laws subnet)
    with t rs parse valid show thesis
      by (intro ok [of P]) (simp_all add: validatePrefix_def first_range_def)
  next
    case False
    then obtain e where parse: "ParsePrefix (Addr_String (rng_from r) @ ''/'' @ itoa (spec_Prefix spec)) = Inl e"
      using ParsePrefix_too_long [of "rng_from r" "spec_Prefix spec"] first by auto
    have "\<not> Prefix_IsValid (spec_subnet spec)"
      using False by (simp add: subnet PrefixFrom_def Prefix_IsValid_def)
    with t rs parse show thesis
      by (intro error) (simp_all add: validatePrefix_def first_range_def)
  qed
qed

lemma within_prefix_eq:
  assumes "entries_set (Addresses spec) = Some A" "Addresses spec \<noteq> []" "0 \<le> spec_Prefix spec"
  shows "\<exists>errs. validateAddressesAreWithinPrefix nx spec = Ok errs
    \<and> (errs = [] \<longleftrightarrow> Prefix_IsValid (spec_subnet spec) \<and> A \<subseteq> pfx_set (spec_subnet spec))"
proof (cases rule: validatePrefix_cases [OF assms])
  case (1 P)
  then show ?thesis
    using check_within_eq [OF assms(1), of P "[]"] by (auto simp: validateAddressesAreWithinPrefix_def)
next
  case (2 e)
  then show ?thesis by (simp add: validateAddressesAreWithinPrefix_def)
qed

subsection \<open>The decision\<close>

lemma gateway_errors_iff:
  "gateway_errors spec has4 has6 = [] \<longleftrightarrow>
     (Gateway spec = [] \<or> (\<exists>a. ParseAddr (Gateway spec) = Inr a))
     \<and> (\<forall>g \<in> gateway_addrs spec. \<not> (has4 \<and> \<not> Is4 g) \<and> \<not> (has6 \<and> Is4 g))"
proof (cases "ParseAddr (Gateway spec)")
  case (Inl e)
  then show ?thesis by (simp add: gateway_errors_def gateway_addrs_def)
next
  case (Inr g)
  then have "Is6 g \<longleftrightarrow> \<not> Is4 g" by (intro valid_Is6 ParseAddr_valid)
  with Inr show ?thesis by (auto simp: gateway_errors_def gateway_addrs_def)
qed

lemma one_family_iff:
  assumes "A \<noteq> {}" "G = {} \<or> (\<exists>g. G = {g})"
  shows "one_family (A \<union> E \<union> G) \<longleftrightarrow>
    \<not> ((\<exists>a \<in> A. Is4 a) \<and> (\<exists>a \<in> A. \<not> Is4 a)) \<and> \<not> ((\<exists>a \<in> E. Is4 a) \<and> (\<exists>a \<in> E. \<not> Is4 a))
    \<and> \<not> ((\<exists>a \<in> A. Is4 a) \<and> (\<exists>a \<in> E. \<not> Is4 a) \<or> (\<exists>a \<in> A. \<not> Is4 a) \<and> (\<exists>a \<in> E. Is4 a))
    \<and> (\<forall>g \<in> G. \<not> ((\<exists>a \<in> A. Is4 a) \<and> \<not> Is4 g) \<and> \<not> ((\<exists>a \<in> A. \<not> Is4 a) \<and> Is4 g))"
proof -
  have mixed: "one_family X \<longleftrightarrow> \<not> ((\<exists>a \<in> X. Is4 a) \<and> (\<exists>a \<in> X. \<not> Is4 a))" for X
    by (auto simp: one_family_def)
  have "(\<exists>a \<in> A. Is4 a) \<or> (\<exists>a \<in> A. \<not> Is4 a)" using assms(1) by blast
  then show ?thesis
    using assms(2) unfolding mixed bex_Un by (elim disjE exE; simp; blast)
qed

lemma no_bad_entries: "filter (\<lambda>s. entry_set s = None) ss = [] \<longleftrightarrow> entries_set ss = Some (parsed_addrs ss)"
proof -
  have "filter (\<lambda>s. entry_set s = None) ss = [] \<longleftrightarrow> entries_set ss \<noteq> None"
    unfolding entries_set_None_iff filter_empty_conv by simp
  then show ?thesis using parsed_addrs_entries [of ss] by (cases "entries_set ss") simp_all
qed

lemma collect_errors_decides:
  "\<exists>errs. collect_errors nx spec = Ok errs \<and> (errs = [] \<longleftrightarrow> admissible spec)"
proof -
  define A E where "A = parsed_addrs (Addresses spec)" and "E = parsed_addrs (ExcludedAddresses spec)"
  define a4 a6 where "a4 = (\<exists>a \<in> A. Is4 a)" and "a6 = (\<exists>a \<in> A. \<not> Is4 a)"
  define x4 x6 where "x4 = (\<exists>a \<in> E. Is4 a)" and "x6 = (\<exists>a \<in> E. \<not> Is4 a)"
  let ?grace = "\<forall>s. AddressReuseGracePeriodSeconds spec = Some s \<longrightarrow> 0 \<le> s"
  let ?gateway = "Gateway spec = [] \<or> (\<exists>a. ParseAddr (Gateway spec) = Inr a)"
  have "\<exists>e8. collect_errors nx spec =
        (if length e8 = 0 then validateAddressesAreWithinPrefix nx spec else Ok e8)
      \<and> (e8 = [] \<longleftrightarrow> Addresses spec \<noteq> [] \<and> 0 \<le> spec_Prefix spec
        \<and> filter (\<lambda>s. entry_set s = None) (Addresses spec) = [] \<and> \<not> (a4 \<and> a6)
        \<and> gateway_errors spec a4 a6 = []
        \<and> filter (\<lambda>s. entry_set s = None) (ExcludedAddresses spec) = [] \<and> \<not> (x4 \<and> x6)
        \<and> \<not> (a4 \<and> x6 \<or> a6 \<and> x4) \<and> ?grace)"
    unfolding collect_errors_def Let_def scan_entries_eq outcome_bind.simps prod.case
      A_def [symmetric] E_def [symmetric] simp_thms(31,32)
      a4_def [symmetric] a6_def [symmetric] x4_def [symmetric] x6_def [symmetric]
    by (rule exI, rule conjI, rule refl) (auto split: option.splits)
  then obtain e8 where e8: "collect_errors nx spec =
      (if length e8 = 0 then validateAddressesAreWithinPrefix nx spec else Ok e8)"
    and e8_iff: "e8 = [] \<longleftrightarrow> Addresses spec \<noteq> [] \<and> 0 \<le> spec_Prefix spec
      \<and> entries_set (Addresses spec) = Some A \<and> \<not> (a4 \<and> a6) \<and> gateway_errors spec a4 a6 = []
      \<and> entries_set (ExcludedAddresses spec) = Some E \<and> \<not> (x4 \<and> x6)
      \<and> \<not> (a4 \<and> x6 \<or> a6 \<and> x4) \<and> ?grace"
    unfolding no_bad_entries A_def [symmetric] E_def [symmetric] by blast
  have G: "gateway_addrs spec = {} \<or> (\<exists>g. gateway_addrs spec = {g})"
    by (auto simp: gateway_addrs_def split: sum.splits)
  show ?thesis
  proof (cases "Addresses spec \<noteq> [] \<and> entries_set (Addresses spec) = Some A \<and> 0 \<le> spec_Prefix spec")
    case True
    then have fam: "one_family (A \<union> E \<union> gateway_addrs spec) \<longleftrightarrow>
        \<not> (a4 \<and> a6) \<and> \<not> (x4 \<and> x6) \<and> \<not> (a4 \<and> x6 \<or> a6 \<and> x4)
        \<and> (\<forall>g \<in> gateway_addrs spec. \<not> (a4 \<and> \<not> Is4 g) \<and> \<not> (a6 \<and> Is4 g))"
      unfolding a4_def a6_def x4_def x6_def
      using entries_set_nonempty by (intro one_family_iff [OF _ G]) blast
    obtain errs where errs: "validateAddressesAreWithinPrefix nx spec = Ok errs"
      "errs = [] \<longleftrightarrow> Prefix_IsValid (spec_subnet spec) \<and> A \<subseteq> pfx_set (spec_subnet spec)"
      using within_prefix_eq [of spec A] True by blast
    have "admissible spec \<longleftrightarrow> entries_set (ExcludedAddresses spec) = Some E \<and> ?gateway
        \<and> one_family (A \<union> E \<union> gateway_addrs spec) \<and> errs = [] \<and> ?grace"
      unfolding errs(2) admissible_def
      using True parsed_addrs_entries [of "ExcludedAddresses spec", folded E_def] by auto
    then have "admissible spec \<longleftrightarrow> e8 = [] \<and> errs = []"
      unfolding e8_iff fam gateway_errors_iff using True by blast
    with e8 errs(1) show ?thesis by (cases "e8 = []") auto
  next
    case False
    then have "e8 \<noteq> []" using e8_iff by blast
    moreover have "0 \<le> spec_Prefix spec" if "Prefix_IsValid (spec_subnet spec)"
      using that by (auto simp: spec_subnet_def PrefixFrom_def Prefix_IsValid_def split: if_splits)
    then have "\<not> admissible spec"
      using False parsed_addrs_entries [of "Addresses spec", folded A_def] by (auto simp: admissible_def)
    ultimately show ?thesis using e8 by auto
  qed
qed

lemma validate_decides:
  "\<exists>errs. InClusterIPPool_validate nx pool =
     Ok (if admissible (PoolSpec pool) then None
         else Some (Invalid ipam_group (gvk_kind (pool_gvk pool)) (om_name (pool_meta pool)) errs))"
  using collect_errors_decides [of "PoolSpec pool"]
  by (auto simp: InClusterIPPool_validate_def invalid_object_def)

lemma admitted_admissible:
  "InClusterIPPool_ValidateCreate nx pool = Ok ([], None) \<Longrightarrow> admissible (PoolSpec pool)"
  using validate_decides [of pool] by (auto simp: InClusterIPPool_ValidateCreate_def split: if_splits)

lemma ValidateUpdate_decides:
  "\<exists>e. InClusterIPPool_ValidateUpdate nx K oldPool newPool w = Ok ([], e)
     \<and> (e = None \<longleftrightarrow> admissible (PoolSpec newPool)
         \<and> (\<exists>as. ListAddressesInUse K (om_namespace (pool_meta oldPool))
               \<lparr>pr_group = ipam_group, pr_kind = gvk_kind (pool_gvk oldPool),
                pr_name = om_name (pool_meta oldPool)\<rparr> w = Inr as
             \<and> in_use_addrs as \<subseteq> pool_addrs (PoolSpec newPool)))"
  (is "\<exists>e. ?r = _ \<and> (_ \<longleftrightarrow> _ \<and> (\<exists>as. ?list = _ \<and> _))")
proof (cases "admissible (PoolSpec newPool)")
  case False
  then show ?thesis
    using validate_decides [of newPool] by (auto simp: InClusterIPPool_ValidateUpdate_def)
next
  case True
  then have valid: "InClusterIPPool_validate nx newPool = Ok None"
    using validate_decides [of newPool] by simp
  show ?thesis
  proof (cases ?list)
    case (Inl e)
    with valid show ?thesis by (simp add: InClusterIPPool_ValidateUpdate_def)
  next
    case (Inr as)
    obtain s where s: "PoolSpecToIPSet nx (PoolSpec newPool) = Ok s" "ips nx s = pool_addrs (PoolSpec newPool)"
      using admissible_parses [OF True] by (cases rule: PoolSpecToIPSet_cases [of "PoolSpec newPool"]) auto
    obtain u where u: "nx_ipset nx (nx_remove_set nx s (add_parsable nx as (nx_new nx))) = Inr u"
      "ips nx u = in_use_addrs as - pool_addrs (PoolSpec newPool)"
      using AddressesOutOfRangeIPSet_ips [of as s] s
      by (auto simp: AddressesOutOfRangeIPSet_def in_use_addrs_def)
    have "nx_ranges nx u = [] \<longleftrightarrow> in_use_addrs as \<subseteq> pool_addrs (PoolSpec newPool)"
      using ranges_Nil_iff [of u] u(2) by auto
    with True valid Inr s u show ?thesis
      by (simp add: InClusterIPPool_ValidateUpdate_def Let_def)
  qed
qed

end

subsection \<open>Properties\<close>

text \<open>C12: admission of address pools. Validation never panics, although it indexes into range
  lists without a check; it admits exactly the specs with parsable, non-empty addresses and
  exclusions of one IP family, the gateway's included, that lie within one subnet of the
  given prefix length and have no negative grace period; any other object is refused as
  invalid, under its kind and name.\<close>

theorem InClusterIPPool_validate_spec:
  fixes nx :: "('b, 's) netipx"
  assumes "netipx_laws nx bips bok"
  shows "\<exists>errs. InClusterIPPool_ValidateCreate nx pool = Ok ([],
     if admissible (PoolSpec pool) then None
     else Some (Invalid ipam_group (gvk_kind (pool_gvk pool)) (om_name (pool_meta pool)) errs))"
  using netipx_laws.validate_decides [OF assms, of pool]
  by (auto simp: InClusterIPPool_ValidateCreate_def)

lemma InClusterIPPool_validate_spec_witness:
  "InClusterIPPool_ValidateCreate ref_netipx (NsPool demo_pool) = Ok ([], None)
   \<and> (\<exists>errs. InClusterIPPool_ValidateCreate ref_netipx (NsPool demo_pool) = Ok ([],
     if admissible (PoolSpec (NsPool demo_pool)) then None
     else Some (Invalid ipam_group (gvk_kind (pool_gvk (NsPool demo_pool)))
       (om_name (pool_meta (NsPool demo_pool))) errs)))"
  by (rule conjI, code_simp) (rule InClusterIPPool_validate_spec [OF ref.netipx_laws_axioms])

text \<open>C17: what is admitted can be allocated from. For a pool that passes validation
  \<open>PoolSpecToIPSet\<close> succeeds, with the addresses the spec promises, and they all lie in the
  subnet of the pool and are of one family.\<close>

theorem admitted_pool_works:
  fixes nx :: "('b, 's) netipx"
  assumes "netipx_laws nx bips bok" "InClusterIPPool_ValidateCreate nx pool = Ok ([], None)"
  shows "\<exists>s. PoolSpecToIPSet nx (PoolSpec pool) = Ok s \<and> ips nx s = pool_addrs (PoolSpec pool)
    \<and> ips nx s \<subseteq> pfx_set (spec_subnet (PoolSpec pool)) \<and> one_family (ips nx s)"
proof -
  have ok: "admissible (PoolSpec pool)"
    using assms by (rule netipx_laws.admitted_admissible)
  note good = admissible_parses [OF ok] admissible_pool_addrs [OF ok]
  show ?thesis
    by (rule netipx_laws.PoolSpecToIPSet_cases [OF assms(1), of "PoolSpec pool"]) (use good in simp_all)
qed

lemma admitted_pool_works_witness:
  "\<exists>s. PoolSpecToIPSet ref_netipx (PoolSpec (NsPool demo_pool)) = Ok s
    \<and> ips ref_netipx s = pool_addrs (PoolSpec (NsPool demo_pool))
    \<and> ips ref_netipx s \<subseteq> pfx_set (spec_subnet (PoolSpec (NsPool demo_pool)))
    \<and> one_family (ips ref_netipx s)"
  by (rule admitted_pool_works [OF ref.netipx_laws_axioms]) code_simp

text \<open>C13: an update strands no address. It never panics and is admitted exactly if the new
  spec is admissible, the addresses in use can be listed, and each of them that parses is
  one the new spec hands out.\<close>

theorem InClusterIPPool_ValidateUpdate_spec:
  fixes nx :: "('b, 's) netipx"
  assumes "netipx_laws nx bips bok"
  shows "\<exists>e. InClusterIPPool_ValidateUpdate nx K oldPool newPool w = Ok ([], e)
     \<and> (e = None \<longleftrightarrow> admissible (PoolSpec newPool)
         \<and> (\<exists>as. ListAddressesInUse K (om_namespace (pool_meta oldPool))
               \<lparr>pr_group = ipam_group, pr_kind = gvk_kind (pool_gvk oldPool),
                pr_name = om_name (pool_meta oldPool)\<rparr> w = Inr as
             \<and> in_use_addrs as \<subseteq> pool_addrs (PoolSpec newPool)))"
  using assms by (rule netipx_laws.ValidateUpdate_decides)

lemma InClusterIPPool_ValidateUpdate_spec_witness:
  "let new = NsPool (demo_pool\<lparr>ip_spec := demo_spec\<lparr>ExcludedAddresses := [''10.0.0.2'']\<rparr>\<rparr>)
   in (case InClusterIPPool_ValidateUpdate ref_netipx ref_kube (NsPool demo_pool) new demo_world of
         Ok (_, Some (BadRequest _ rs)) \<Rightarrow> rs = [''10.0.0.2-10.0.0.2''] | _ \<Rightarrow> False)
     \<and> (\<exists>e. InClusterIPPool_ValidateUpdate ref_netipx ref_kube (NsPool demo_pool) new demo_world = Ok ([], e)
     \<and> (e = None \<longleftrightarrow> admissible (PoolSpec new)
         \<and> (\<exists>as. ListAddressesInUse ref_kube (om_namespace (pool_meta (NsPool demo_pool)))
               \<lparr>pr_group = ipam_group, pr_kind = gvk_kind (pool_gvk (NsPool demo_pool)),
                pr_name = om_name (pool_meta (NsPool demo_pool))\<rparr> demo_world = Inr as
             \<and> in_use_addrs as \<subseteq> pool_addrs (PoolSpec new))))"
  unfolding Let_def
  by (rule conjI, code_simp) (rule InClusterIPPool_ValidateUpdate_spec [OF ref.netipx_laws_axioms])

end
