(* ===== verification/PrefixAdmission.thy ===== *)
theory PrefixAdmission
  imports PrefixWebhooks Admission
begin

text \<open>
  What the webhook of prefix pools admits: \<open>prefix_admissible\<close> is the contract of a spec, and
  the webhook decides it without a panic. The configuration of an admitted spec is one on
  which search, count and membership test of the allocation never fail. The delete checks
  of both webhooks are here as well.
\<close>

subsection \<open>The contract\<close>

definition prefix_entry_ok :: "int \<Rightarrow> string \<Rightarrow> bool" where
  "prefix_entry_ok allocLen s =
     (case ParsePrefix s of
        Inl e \<Rightarrow> False
      | Inr p \<Rightarrow> \<not> Is4 (pfx_addr p) \<and> p = Masked p \<and> pfx_bits p \<le> allocLen)"

definition prefix_admissible :: "InClusterPrefixPoolSpec \<Rightarrow> bool" where
  "prefix_admissible spec \<longleftrightarrow>
     (let allocLen = EffectiveAllocationPrefixLength (AllocationPrefixLength spec)
      in Prefixes spec \<noteq> [] \<and> 1 \<le> allocLen \<and> allocLen \<le> 128
         \<and> list_all (prefix_entry_ok allocLen) (Prefixes spec)
         \<and> (pp_Gateway spec = [] \<or> (\<exists>a. ParseAddr (pp_Gateway spec) = Inr a \<and> Is6 a))
         \<and> list_all (\<lambda>s. \<exists>A. entry_set s = Some A \<and> \<not> (\<exists>a \<in> A. Is4 a)) (ExcludedPrefixes spec))"

lemma prefix_entry_errors_iff: "prefix_entry_errors allocLen s = [] \<longleftrightarrow> prefix_entry_ok allocLen s"
  by (auto simp: prefix_entry_errors_def prefix_entry_ok_def split: sum.splits)

lemma prefix_gateway_errors_iff:
  "prefix_gateway_errors spec = [] \<longleftrightarrow>
     pp_Gateway spec = [] \<or> (\<exists>a. ParseAddr (pp_Gateway spec) = Inr a \<and> Is6 a)"
  by (auto simp: prefix_gateway_errors_def split: sum.splits)

lemma prefix_entry_cidr: "prefix_entry_ok allocLen s \<Longrightarrow> cidr_set s \<noteq> None"
  by (auto simp: prefix_entry_ok_def cidr_set_def split: sum.splits)

lemma prefix_admissible_parses:
  "prefix_admissible spec \<Longrightarrow> cfg_parses (NewPrefixPoolConfig spec)"
  by (auto simp: prefix_admissible_def cfg_parses_def NewPrefixPoolConfig_def Let_def cidrs_set_def
      entries_set_def list_all_iff dest: prefix_entry_cidr)

text \<open>The reference the delete checks look for.\<close>

definition delete_ref :: "pool_object \<Rightarrow> pool_ref" where
  "delete_ref p =
     (case p of
        AddressPool pool \<Rightarrow> \<lparr>pr_group = gvk_group (pool_gvk pool), pr_kind = gvk_kind (pool_gvk pool),
          pr_name = om_name (pool_meta pool)\<rparr>
      | PrefixPool pool \<Rightarrow> \<lparr>pr_group = ipam_group, pr_kind = prefixPoolKind pool,
          pr_name = om_name (prefix_pool_meta pool)\<rparr>)"

context netipx_laws
begin

lemma scan_excluded_eq:
  "\<exists>errs'. scan_excluded nx ss errs = Ok (errs @ errs')
     \<and> (errs' = [] \<longleftrightarrow> list_all (\<lambda>s. \<exists>A. entry_set s = Some A \<and> \<not> (\<exists>a \<in> A. Is4 a)) ss)"
proof (induction ss arbitrary: errs)
  case (Cons s ss)
  show ?case
  proof (cases rule: AddressToIPSet_cases [of s])
    case (ok t A)
    obtain r where r: "first_range nx t = Ok r" "rng_valid r" "rng_set r = A"
      by (rule first_range_entry [OF ok(3,2)])
    define e where "e = (if Is4 (rng_from r)
      then [field_Invalid ''spec.excludedPrefixes'' (FString s) ''only IPv6 excluded prefixes are supported'']
      else [])"
    have step: "scan_excluded nx (s # ss) errs = scan_excluded nx ss (errs @ e)"
      using ok r by (simp add: e_def)
    obtain errs' where "scan_excluded nx ss (errs @ e) = Ok ((errs @ e) @ errs')"
      "errs' = [] \<longleftrightarrow> list_all (\<lambda>s. \<exists>A. entry_set s = Some A \<and> \<not> (\<exists>a \<in> A. Is4 a)) ss"
      using Cons.IH [of "errs @ e"] by blast
    with step ok show ?thesis
      by (intro exI [of _ "e @ errs'"]) (auto simp: e_def entry_family [OF r(2,3)])
  next
    case (error e)
    define x where "x = field_Invalid ''spec.excludedPrefixes'' (FString s)
      ''provided entry is not a valid IP, range, nor CIDR''"
    obtain errs' where "scan_excluded nx ss (errs @ [x]) = Ok ((errs @ [x]) @ errs')"
      using Cons.IH [of "errs @ [x]"] by blast
    with error show ?thesis
      by (intro exI [of _ "x # errs'"]) (simp add: x_def)
  qed
qed simp

lemma collect_prefix_errors_decides:
  "\<exists>errs. collect_prefix_errors nx spec = Ok errs \<and> (errs = [] \<longleftrightarrow> prefix_admissible spec)"
proof -
  define allocLen where "allocLen = EffectiveAllocationPrefixLength (AllocationPrefixLength spec)"
  define errs where
    "errs = concat (map (prefix_entry_errors allocLen) (Prefixes spec)) @ prefix_gateway_errors spec"
  have errs: "errs = [] \<longleftrightarrow> list_all (prefix_entry_ok allocLen) (Prefixes spec)
      \<and> (pp_Gateway spec = [] \<or> (\<exists>a. ParseAddr (pp_Gateway spec) = Inr a \<and> Is6 a))"
    by (simp add: errs_def list_all_iff prefix_entry_errors_iff prefix_gateway_errors_iff)
  obtain errs' where "scan_excluded nx (ExcludedPrefixes spec) errs = Ok (errs @ errs')"
    and "errs' = [] \<longleftrightarrow> list_all (\<lambda>s. \<exists>A. entry_set s = Some A \<and> \<not> (\<exists>a \<in> A. Is4 a)) (ExcludedPrefixes spec)"
    using scan_excluded_eq by blast
  with errs show ?thesis
    by (auto simp: collect_prefix_errors_def prefix_admissible_def Let_def allocLen_def [symmetric]
        errs_def [symmetric])
qed

lemma prefix_validate_decides:
  "\<exists>errs. InClusterPrefixPool_validate nx pool =
     Ok (if prefix_admissible (PrefixPoolSpec pool) then None
         else Some (Invalid ipam_group (prefixPoolKind pool) (om_name (prefix_pool_meta pool)) errs))"
  using collect_prefix_errors_decides [of "PrefixPoolSpec pool"]
  by (auto simp: InClusterPrefixPool_validate_def invalid_object_def)

subsection \<open>Updates\<close>

text \<open>An allocation that a configuration still allows.\<close>

lemma out_of_range_prefixes_Nil:
  assumes "cfg_parses c"
  shows "out_of_range_prefixes nx c as = [] \<longleftrightarrow>
    (\<forall>a \<in> set as. \<exists>p. PrefixFromIPAddress a = Inr p \<and> p \<in> pool_prefixes c {})"
  (is "_ \<longleftrightarrow> (\<forall>a \<in> set as. ?ok a)")
proof -
  have "(case PrefixFromIPAddress a of Inl e \<Rightarrow> True | Inr p \<Rightarrow> \<not> PrefixIsAllocatable nx p (Some c)) \<longleftrightarrow> \<not> ?ok a"
    for a
  proof (cases "PrefixFromIPAddress a")
    case (Inr p)
    then have "pfx_wf p" "Prefix_IsValid p" "Masked p = p"
      using PrefixFromIPAddress_valid by blast+
    with Inr assms show ?thesis by (simp add: PrefixIsAllocatable_iff)
  qed simp
  then show ?thesis
    by (simp add: out_of_range_prefixes_def filter_empty_conv)
qed

lemma prefix_ValidateUpdate_decides:
  fixes oldPool newPool :: generic_prefix_pool
  defines "old \<equiv> PoolObject (PrefixPool oldPool)" and "new \<equiv> PoolObject (PrefixPool newPool)"
  shows "\<exists>ws e. InClusterPrefixPool_ValidateUpdate nx K old new w = Ok (ws, e)
     \<and> (e = None \<longleftrightarrow> prefix_admissible (PrefixPoolSpec newPool)
         \<and> EffectiveAllocationPrefixLength (AllocationPrefixLength (PrefixPoolSpec oldPool))
           = EffectiveAllocationPrefixLength (AllocationPrefixLength (PrefixPoolSpec newPool))
         \<and> (\<exists>as. ListAddressesInUse K (om_namespace (prefix_pool_meta oldPool))
               \<lparr>pr_group = ipam_group, pr_kind = prefixPoolKind oldPool,
                pr_name = om_name (prefix_pool_meta oldPool)\<rparr> w = Inr as
             \<and> (\<forall>a \<in> set as. \<exists>p. PrefixFromIPAddress a = Inr p
                  \<and> p \<in> pool_prefixes (NewPrefixPoolConfig (PrefixPoolSpec newPool)) {})))"
  (is "\<exists>ws e. ?r = _ \<and> (_ \<longleftrightarrow> _ \<and> ?old = ?new \<and> (\<exists>as. ?list = _ \<and> _))")
proof (cases "prefix_admissible (PrefixPoolSpec newPool)")
  case False
  then show ?thesis
    using prefix_validate_decides [of newPool]
    by (auto simp: InClusterPrefixPool_ValidateUpdate_def old_def new_def)
next
  case True
  then have valid: "InClusterPrefixPool_validate nx newPool = Ok None"
    using prefix_validate_decides [of newPool] by simp
  note r = InClusterPrefixPool_ValidateUpdate_def old_def new_def
  show ?thesis
  proof (cases "?old = ?new")
    case False
    with valid show ?thesis by (simp add: r)
  next
    case same: True
    show ?thesis
    proof (cases ?list)
      case (Inl e)
      with valid same show ?thesis by (simp add: r)
    next
      case (Inr as)
      with True valid same show ?thesis
        using out_of_range_prefixes_Nil [OF prefix_admissible_parses [OF True], of as]
        by (simp add: r Let_def)
    qed
  qed
qed

end

subsection \<open>Deletion\<close>

context kube_laws
begin

lemma ValidateDelete_decides:
  "snd (InClusterIPPool_ValidateDelete K pool w) = None \<longleftrightarrow>
     om_annotations (pool_meta pool) SkipValidateDeleteWebhookAnnotation \<noteq> None
     \<or> (\<exists>as. ListAddressesInUse K (om_namespace (pool_meta pool)) (delete_ref (AddressPool pool)) w = Inr as)
        \<and> \<not> pool_in_use (st_addr w) (om_namespace (pool_meta pool)) (delete_ref (AddressPool pool))"
  by (auto simp: InClusterIPPool_ValidateDelete_def delete_ref_def listed_in_use [symmetric]
      split: sum.splits)

lemma prefix_ValidateDelete_decides:
  "snd (InClusterPrefixPool_ValidateDelete K (PoolObject (PrefixPool pool)) w) = None \<longleftrightarrow>
     om_annotations (prefix_pool_meta pool) SkipValidateDeleteWebhookAnnotation \<noteq> None
     \<or> (\<exists>as. ListAddressesInUse K (om_namespace (prefix_pool_meta pool)) (delete_ref (PrefixPool pool)) w = Inr as)
        \<and> \<not> pool_in_use (st_addr w) (om_namespace (prefix_pool_meta pool)) (delete_ref (PrefixPool pool))"
  by (auto simp: InClusterPrefixPool_ValidateDelete_def delete_ref_def listed_in_use [symmetric]
      split: sum.splits)

end

subsection \<open>Properties\<close>


definition demo_v6_pool :: InClusterPrefixPool where
  "demo_v6_pool = demo_prefix_pool\<lparr>pp_spec := \<lparr>Prefixes = [''fd00::/48''], AllocationPrefixLength = 0,
     pp_Gateway = ''fd00::1'', ExcludedPrefixes = [''fd00::/64'']\<rparr>\<rparr>"


text \<open>C15: an update of a prefix pool is admitted exactly if the new spec is admissible, the
  effective allocation length stays, the allocations can be listed, and each of them is a
  prefix the new spec can still hand out.\<close>

theorem InClusterPrefixPool_ValidateUpdate_spec:
  fixes nx :: "('b, 's) netipx"
  assumes "netipx_laws nx bips bok"
  shows "\<exists>ws e. InClusterPrefixPool_ValidateUpdate nx K (PoolObject (PrefixPool oldPool))
        (PoolObject (PrefixPool newPool)) w = Ok (ws, e)
     \<and> (e = None \<longleftrightarrow> prefix_admissible (PrefixPoolSpec newPool)
         \<and> EffectiveAllocationPrefixLength (AllocationPrefixLength (PrefixPoolSpec oldPool))
           = EffectiveAllocationPrefixLength (AllocationPrefixLength (PrefixPoolSpec newPool))
         \<and> (\<exists>as. ListAddressesInUse K (om_namespace (prefix_pool_meta oldPool))
               \<lparr>pr_group = ipam_group, pr_kind = prefixPoolKind oldPool,
                pr_name = om_name (prefix_pool_meta oldPool)\<rparr> w = Inr as
             \<and> (\<forall>a \<in> set as. \<exists>p. PrefixFromIPAddress a = Inr p
                  \<and> p \<in> pool_prefixes (NewPrefixPoolConfig (PrefixPoolSpec newPool)) {})))"
  using assms by (rule netipx_laws.prefix_ValidateUpdate_decides)

lemma InClusterPrefixPool_ValidateUpdate_spec_witness:
  "case InClusterPrefixPool_ValidateUpdate ref_netipx ref_kube
        (PoolObject (PrefixPool (NsPrefixPool demo_v6_pool)))
        (PoolObject (PrefixPool (NsPrefixPool demo_v6_pool))) demo_world of
     Ok (ws, e) \<Rightarrow> prefix_admissible (PrefixPoolSpec (NsPrefixPool demo_v6_pool)) \<and> e \<noteq> None
   | _ \<Rightarrow> False"
proof -
  define old where "old = NsPrefixPool demo_v6_pool"
  define r where "r = InClusterPrefixPool_ValidateUpdate ref_netipx ref_kube (PoolObject (PrefixPool old))
      (PoolObject (PrefixPool old)) demo_world"
  obtain ws e where "r = Ok (ws, e)"
    using InClusterPrefixPool_ValidateUpdate_spec [OF ref.netipx_laws_axioms, of ref_kube old old demo_world]
    unfolding r_def by blast
  moreover have "case r of Ok (ws, e) \<Rightarrow> e \<noteq> None | _ \<Rightarrow> False"
    unfolding r_def old_def by code_simp
  moreover have admit: "InClusterPrefixPool_validate ref_netipx old = Ok None"
    unfolding old_def by code_simp
  have "prefix_admissible (PrefixPoolSpec old)"
    by (rule netipx_laws.prefix_validate_decides [OF ref.netipx_laws_axioms, of old, THEN exE])
       (use admit in \<open>simp split: if_splits\<close>)
  ultimately show ?thesis unfolding old_def [symmetric] r_def [symmetric] by simp
qed

text \<open>C16: a pool in use is not deleted. Both webhooks admit the deletion of a pool exactly if
  it carries the skip annotation, or the addresses of the pool can be listed and no stored
  address refers to it.\<close>

theorem ValidateDelete_spec:
  fixes K :: "'w kube" and w :: 'w
  assumes "kube_laws K st_addr st_claim"
  defines "unused \<equiv> \<lambda>p. (\<exists>as. ListAddressesInUse K (om_namespace (obj_meta p)) (delete_ref p) w = Inr as)
    \<and> \<not> pool_in_use (st_addr w) (om_namespace (obj_meta p)) (delete_ref p)"
  shows "(snd (InClusterIPPool_ValidateDelete K pool w) = None \<longleftrightarrow>
      om_annotations (pool_meta pool) SkipValidateDeleteWebhookAnnotation \<noteq> None
      \<or> unused (AddressPool pool))
    \<and> (snd (InClusterPrefixPool_ValidateDelete K (PoolObject (PrefixPool prefixPool)) w) = None \<longleftrightarrow>
      om_annotations (prefix_pool_meta prefixPool) SkipValidateDeleteWebhookAnnotation \<noteq> None
      \<or> unused (PrefixPool prefixPool))"
  using kube_laws.ValidateDelete_decides [OF assms(1), of pool w]
    kube_laws.prefix_ValidateDelete_decides [OF assms(1), of prefixPool w]
  by (simp add: unused_def)

lemma ValidateDelete_spec_witness:
  "pool_in_use (ref_addr demo_world) ''ns'' (delete_ref (AddressPool (NsPool demo_pool)))"
proof -
  have refused: "snd (InClusterIPPool_ValidateDelete ref_kube (NsPool demo_pool) demo_world) \<noteq> None"
    "\<exists>as. ListAddressesInUse ref_kube (om_namespace (obj_meta (AddressPool (NsPool demo_pool))))
       (delete_ref (AddressPool (NsPool demo_pool))) demo_world = Inr as"
    by code_simp (rule exI [of _ "projr (ListAddressesInUse ref_kube
      (om_namespace (obj_meta (AddressPool (NsPool demo_pool))))
      (delete_ref (AddressPool (NsPool demo_pool))) demo_world)"], rule not_isl_projr, code_simp)
  have "om_namespace (obj_meta (AddressPool (NsPool demo_pool))) = ''ns''" by code_simp
  with refused ValidateDelete_spec [OF ref_kube.kube_laws_axioms, of "NsPool demo_pool" demo_world, THEN conjunct1]
  show ?thesis by metis
qed

text \<open>Defaulting a prefix pool writes out the allocation length that was in effect before:
  it is idempotent, and changes neither what the pool hands out nor whether it is admitted;
  any other object is refused.\<close>

theorem InClusterPrefixPool_Default_spec:
  "case InClusterPrefixPool_Default obj of
     (obj', None) \<Rightarrow> (\<exists>pool pool'. obj = PoolObject (PrefixPool pool) \<and> obj' = PoolObject (PrefixPool pool')
         \<and> AllocationPrefixLength (PrefixPoolSpec pool') \<noteq> 0
         \<and> NewPrefixPoolConfig (PrefixPoolSpec pool') = NewPrefixPoolConfig (PrefixPoolSpec pool)
         \<and> (prefix_admissible (PrefixPoolSpec pool') \<longleftrightarrow> prefix_admissible (PrefixPoolSpec pool))
         \<and> prefix_pool_meta pool' = prefix_pool_meta pool
         \<and> InClusterPrefixPool_Default obj' = (obj', None))
   | (obj', Some e) \<Rightarrow> obj' = obj \<and> (\<forall>pool. obj \<noteq> PoolObject (PrefixPool pool))"
proof (cases "as_prefix_pool obj")
  case None
  then show ?thesis by (auto simp: InClusterPrefixPool_Default_def)
next
  case (Some pool)
  then have obj: "obj = PoolObject (PrefixPool pool)" by (cases obj rule: as_prefix_pool.cases) simp_all
  let ?f = "\<lambda>spec. spec\<lparr>AllocationPrefixLength := EffectiveAllocationPrefixLength (AllocationPrefixLength spec)\<rparr>"
  have eff: "EffectiveAllocationPrefixLength (EffectiveAllocationPrefixLength n) = EffectiveAllocationPrefixLength n"
    "EffectiveAllocationPrefixLength n \<noteq> 0" for n
    by (simp_all add: EffectiveAllocationPrefixLength_def defaultAllocationPrefixLength_def)
  have idem: "set_prefix_pool_spec ?f (set_prefix_pool_spec ?f pool) = set_prefix_pool_spec ?f pool"
    "prefix_pool_meta (set_prefix_pool_spec ?f pool) = prefix_pool_meta pool"
    by (cases pool; simp add: eff)+
  show ?thesis
    unfolding obj InClusterPrefixPool_Default_def as_prefix_pool.simps option.case prod.case
    by (rule exI [of _ pool], rule exI [of _ "set_prefix_pool_spec ?f pool"])
       (simp add: eff idem NewPrefixPoolConfig_def prefix_admissible_def Let_def)
qed

end
