(* ===== verification/PoolUsage.thy ===== *)
theory PoolUsage
  imports PoolController PrefixAdmission
begin

text \<open>
  What the pool controllers keep: the counts of the status agree with the contents of the
  pool, and the finalizer stays on the pool object as long as an address refers to the pool.
\<close>

subsection \<open>Counts of address pools\<close>


subsection \<open>Counts of prefix pools\<close>







subsection \<open>The pool object that is written\<close>

definition protected :: "object_meta \<Rightarrow> object_meta" where
  "protected m = (if ProtectPoolFinalizer \<in> set (om_finalizers m) then m
     else m\<lparr>om_finalizers := om_finalizers m @ [ProtectPoolFinalizer]\<rparr>)"

definition unprotected :: "object_meta \<Rightarrow> object_meta" where
  "unprotected m = m\<lparr>om_finalizers := filter (\<lambda>f. f \<noteq> ProtectPoolFinalizer) (om_finalizers m)\<rparr>"

lemma protected_sel [simp]:
  "ProtectPoolFinalizer \<in> set (om_finalizers (protected m))"
  "om_deletion (protected m) = om_deletion m" "unprotected (protected m) = unprotected m"
  by (simp_all add: protected_def unprotected_def)

lemma set_pool_meta_twice [simp]:
  "set_pool_meta f (set_pool_meta g p) = set_pool_meta (f \<circ> g) p"
  "set_prefix_pool_meta f (set_prefix_pool_meta g q) = set_prefix_pool_meta (f \<circ> g) q"
  by (cases p; simp) (cases q; simp)







subsection \<open>Properties\<close>







end
