(* ===== verification/Conversion.thy ===== *)
theory Conversion
  imports NetIPRoundTrip RefIPSet ApiTypes
begin

text \<open>
  \<open>api/v1alpha1\<close>: the old version of the address pools and its conversion to and from
  \<open>v1alpha2\<close>. A conversion writes to its output and may change its input (the spec
  conversion fills in defaults in the input), so the model returns both. The old names are
  prefixed by \<open>a1\<close>. The functions \<open>MarshalData\<close> and \<open>UnmarshalData\<close> of the Cluster API are
  a parameter.
\<close>

subsection \<open>The types of v1alpha1\<close>

record a1_InClusterIPPoolSpec =
  a1_Addresses :: "string list"
  a1_Subnet :: string
  a1_First :: string
  a1_Last :: string
  a1_Prefix :: int
  a1_Gateway :: string

record a1_InClusterIPPoolStatusIPAddresses =
  a1_Total :: int
  a1_Free :: int
  a1_Used :: int
  a1_OutOfRange :: int

record a1_InClusterIPPool =
  a1_gvk :: gvk
  a1_meta :: object_meta
  a1_spec :: a1_InClusterIPPoolSpec
  a1_status :: "a1_InClusterIPPoolStatusIPAddresses option"

record a1_GlobalInClusterIPPool =
  a1g_gvk :: gvk
  a1g_meta :: object_meta
  a1g_spec :: a1_InClusterIPPoolSpec
  a1g_status :: "a1_InClusterIPPoolStatusIPAddresses option"

text \<open>Lists: the metadata of the list (opaque to the code) and the items.\<close>

record ('m, 'i) object_list =
  list_meta :: 'm
  list_items :: "'i list option"

text \<open>The zero values.\<close>

definition no_gvk :: gvk where
  "no_gvk = \<lparr>gvk_group = [], gvk_version = [], gvk_kind = []\<rparr>"

definition a1_zero_spec :: a1_InClusterIPPoolSpec where
  "a1_zero_spec = \<lparr>a1_Addresses = [], a1_Subnet = [], a1_First = [], a1_Last = [],
     a1_Prefix = 0, a1_Gateway = []\<rparr>"

definition zero_spec :: InClusterIPPoolSpec where
  "zero_spec = \<lparr>Addresses = [], spec_Prefix = 0, Gateway = [], AllocateReservedIPAddresses = False,
     ExcludedAddresses = [], AddressReuseGracePeriodSeconds = None\<rparr>"

definition zero_pool :: InClusterIPPool where
  "zero_pool = \<lparr>ip_gvk = no_gvk, ip_meta = empty_meta, ip_spec = zero_spec, ip_status = None\<rparr>"

definition zero_global_pool :: GlobalInClusterIPPool where
  "zero_global_pool =
     \<lparr>gip_gvk = no_gvk, gip_meta = empty_meta, gip_spec = zero_spec, gip_status = None\<rparr>"

subsection \<open>Specs and statuses\<close>

text \<open>
  The spec conversion: an error, or the changed input and the output. The fields of the
  output that the code does not write keep their value.
\<close>

definition Convert_v1alpha1_InClusterIPPoolSpec_To_v1alpha2_InClusterIPPoolSpec ::
  "('b, 's) netipx \<Rightarrow> a1_InClusterIPPoolSpec \<Rightarrow> InClusterIPPoolSpec \<Rightarrow>
     error + a1_InClusterIPPoolSpec \<times> InClusterIPPoolSpec" where
  "Convert_v1alpha1_InClusterIPPoolSpec_To_v1alpha2_InClusterIPPoolSpec nx src dst =
     (let dst = dst\<lparr>Gateway := a1_Gateway src, spec_Prefix := a1_Prefix src,
            Addresses := a1_Addresses src\<rparr>
      in sum_bind
       (if a1_Subnet src \<noteq> [] then
          (case ParsePrefix (a1_Subnet src) of
             Inl e \<Rightarrow> Inl (FieldInvalid ''spec.subnet'' (FString (a1_Subnet src)) e)
           | Inr prefix \<Rightarrow>
               let prefixRange = nx_range_of_prefix nx prefix;
                   src = (if a1_First src = []
                     then src\<lparr>a1_First := Addr_String (Next (rng_from prefixRange))\<rparr> else src);
                   src = (if a1_Last src = []
                     then src\<lparr>a1_Last := Addr_String (Prev (rng_to prefixRange))\<rparr> else src)
               in if a1_Prefix src = 0
                  then Inr (src\<lparr>a1_Prefix := pfx_bits prefix\<rparr>, dst\<lparr>spec_Prefix := pfx_bits prefix\<rparr>)
                  else Inr (src, dst))
        else Inr (src, dst))
       (\<lambda>(src, dst).
          if a1_First src \<noteq> [] \<and> a1_Last src \<noteq> []
          then Inr (src, dst\<lparr>Addresses := Addresses dst @ [a1_First src @ ''-'' @ a1_Last src]\<rparr>)
          else Inr (src, dst)))"

definition autoConvert_v1alpha2_InClusterIPPoolSpec_To_v1alpha1_InClusterIPPoolSpec ::
  "InClusterIPPoolSpec \<Rightarrow> a1_InClusterIPPoolSpec \<Rightarrow> a1_InClusterIPPoolSpec" where
  "autoConvert_v1alpha2_InClusterIPPoolSpec_To_v1alpha1_InClusterIPPoolSpec src dst =
     dst\<lparr>a1_Addresses := Addresses src, a1_Prefix := spec_Prefix src, a1_Gateway := Gateway src\<rparr>"

definition Convert_v1alpha2_InClusterIPPoolSpec_To_v1alpha1_InClusterIPPoolSpec ::
  "InClusterIPPoolSpec \<Rightarrow> a1_InClusterIPPoolSpec \<Rightarrow> a1_InClusterIPPoolSpec" where
  "Convert_v1alpha2_InClusterIPPoolSpec_To_v1alpha1_InClusterIPPoolSpec src dst =
     autoConvert_v1alpha2_InClusterIPPoolSpec_To_v1alpha1_InClusterIPPoolSpec src dst"

text \<open>
  \<open>autoConvert_v1alpha1_InClusterIPPoolSpec_To_v1alpha2_InClusterIPPoolSpec\<close> is generated
  but not called.
\<close>

definition autoConvert_v1alpha1_InClusterIPPoolSpec_To_v1alpha2_InClusterIPPoolSpec ::
  "a1_InClusterIPPoolSpec \<Rightarrow> InClusterIPPoolSpec \<Rightarrow> InClusterIPPoolSpec" where
  "autoConvert_v1alpha1_InClusterIPPoolSpec_To_v1alpha2_InClusterIPPoolSpec src dst =
     dst\<lparr>Addresses := a1_Addresses src, spec_Prefix := a1_Prefix src, Gateway := a1_Gateway src\<rparr>"

text \<open>The counts. (The pointer casts between the two struct types read the same fields.)\<close>

definition autoConvert_v1alpha1_StatusIPAddresses ::
  "a1_InClusterIPPoolStatusIPAddresses \<Rightarrow> InClusterIPPoolStatusIPAddresses" where
  "autoConvert_v1alpha1_StatusIPAddresses src =
     \<lparr>Total = a1_Total src, Free = a1_Free src, Used = a1_Used src, OutOfRange = a1_OutOfRange src\<rparr>"

definition autoConvert_v1alpha2_StatusIPAddresses ::
  "InClusterIPPoolStatusIPAddresses \<Rightarrow> a1_InClusterIPPoolStatusIPAddresses" where
  "autoConvert_v1alpha2_StatusIPAddresses src =
     \<lparr>a1_Total = Total src, a1_Free = Free src, a1_Used = Used src, a1_OutOfRange = OutOfRange src\<rparr>"

definition Convert_v1alpha1_InClusterIPPoolStatus_To_v1alpha2_InClusterIPPoolStatus ::
  "a1_InClusterIPPoolStatusIPAddresses option \<Rightarrow> InClusterIPPoolStatusIPAddresses option" where
  "Convert_v1alpha1_InClusterIPPoolStatus_To_v1alpha2_InClusterIPPoolStatus addresses =
     map_option autoConvert_v1alpha1_StatusIPAddresses addresses"

definition Convert_v1alpha2_InClusterIPPoolStatus_To_v1alpha1_InClusterIPPoolStatus ::
  "InClusterIPPoolStatusIPAddresses option \<Rightarrow> a1_InClusterIPPoolStatusIPAddresses option" where
  "Convert_v1alpha2_InClusterIPPoolStatus_To_v1alpha1_InClusterIPPoolStatus addresses =
     map_option autoConvert_v1alpha2_StatusIPAddresses addresses"

subsection \<open>Pools\<close>

definition Convert_v1alpha1_InClusterIPPool_To_v1alpha2_InClusterIPPool ::
  "('b, 's) netipx \<Rightarrow> a1_InClusterIPPool \<Rightarrow> InClusterIPPool \<Rightarrow>
     error + a1_InClusterIPPool \<times> InClusterIPPool" where
  "Convert_v1alpha1_InClusterIPPool_To_v1alpha2_InClusterIPPool nx src dst =
     (case Convert_v1alpha1_InClusterIPPoolSpec_To_v1alpha2_InClusterIPPoolSpec nx (a1_spec src)
             (ip_spec dst) of
        Inl e \<Rightarrow> Inl e
      | Inr (s, d) \<Rightarrow>
          Inr (src\<lparr>a1_spec := s\<rparr>,
            dst\<lparr>ip_meta := a1_meta src, ip_spec := d,
              ip_status := Convert_v1alpha1_InClusterIPPoolStatus_To_v1alpha2_InClusterIPPoolStatus
                (a1_status src)\<rparr>))"

definition Convert_v1alpha2_InClusterIPPool_To_v1alpha1_InClusterIPPool ::
  "InClusterIPPool \<Rightarrow> a1_InClusterIPPool \<Rightarrow> a1_InClusterIPPool" where
  "Convert_v1alpha2_InClusterIPPool_To_v1alpha1_InClusterIPPool src dst =
     dst\<lparr>a1_meta := ip_meta src,
       a1_spec := Convert_v1alpha2_InClusterIPPoolSpec_To_v1alpha1_InClusterIPPoolSpec
         (ip_spec src) (a1_spec dst),
       a1_status := Convert_v1alpha2_InClusterIPPoolStatus_To_v1alpha1_InClusterIPPoolStatus
         (ip_status src)\<rparr>"

definition Convert_v1alpha1_GlobalInClusterIPPool_To_v1alpha2_GlobalInClusterIPPool ::
  "('b, 's) netipx \<Rightarrow> a1_GlobalInClusterIPPool \<Rightarrow> GlobalInClusterIPPool \<Rightarrow>
     error + a1_GlobalInClusterIPPool \<times> GlobalInClusterIPPool" where
  "Convert_v1alpha1_GlobalInClusterIPPool_To_v1alpha2_GlobalInClusterIPPool nx src dst =
     (case Convert_v1alpha1_InClusterIPPoolSpec_To_v1alpha2_InClusterIPPoolSpec nx (a1g_spec src)
             (gip_spec dst) of
        Inl e \<Rightarrow> Inl e
      | Inr (s, d) \<Rightarrow>
          Inr (src\<lparr>a1g_spec := s\<rparr>,
            dst\<lparr>gip_meta := a1g_meta src, gip_spec := d,
              gip_status := Convert_v1alpha1_InClusterIPPoolStatus_To_v1alpha2_InClusterIPPoolStatus
                (a1g_status src)\<rparr>))"

definition Convert_v1alpha2_GlobalInClusterIPPool_To_v1alpha1_GlobalInClusterIPPool ::
  "GlobalInClusterIPPool \<Rightarrow> a1_GlobalInClusterIPPool \<Rightarrow> a1_GlobalInClusterIPPool" where
  "Convert_v1alpha2_GlobalInClusterIPPool_To_v1alpha1_GlobalInClusterIPPool src dst =
     dst\<lparr>a1g_meta := gip_meta src,
       a1g_spec := Convert_v1alpha2_InClusterIPPoolSpec_To_v1alpha1_InClusterIPPoolSpec
         (gip_spec src) (a1g_spec dst),
       a1g_status := Convert_v1alpha2_InClusterIPPoolStatus_To_v1alpha1_InClusterIPPoolStatus
         (gip_status src)\<rparr>"

subsection \<open>The conversion webhook\<close>

text \<open>
  \<open>cu_marshal pool m\<close> are the annotations \<open>m\<close> with the annotation that holds the data of
  \<open>pool\<close> but its metadata. \<open>cu_unmarshal\<close> reads it back: \<open>None\<close> without one, or the pool and
  the annotations without it. Source and target of a conversion share their annotations.
\<close>

record 'p conv_util =
  cu_marshal :: "'p \<Rightarrow> (string \<rightharpoonup> string) \<Rightarrow> error + (string \<rightharpoonup> string)"
  cu_unmarshal :: "(string \<rightharpoonup> string) \<Rightarrow> error + ('p \<times> (string \<rightharpoonup> string)) option"

text \<open>The loop that compares the addresses.\<close>

fun same_elements :: "string list \<Rightarrow> string list \<Rightarrow> bool" where
  "same_elements (x # xs) (y # ys) = (if x \<noteq> y then False else same_elements xs ys)"
| "same_elements _ _ = True"

definition InClusterIPPool_ConvertTo ::
  "('b, 's) netipx \<Rightarrow> a1_InClusterIPPool conv_util \<Rightarrow> a1_InClusterIPPool \<Rightarrow> InClusterIPPool \<Rightarrow>
     error + InClusterIPPool" where
  "InClusterIPPool_ConvertTo nx cu src dst =
     sum_bind (Convert_v1alpha1_InClusterIPPool_To_v1alpha2_InClusterIPPool nx src dst) (\<lambda>(src, dst).
     sum_bind (cu_marshal cu src (om_annotations (ip_meta dst))) (\<lambda>annotations.
     Inr (dst\<lparr>ip_meta := (ip_meta dst)\<lparr>om_annotations := annotations\<rparr>\<rparr>)))"

definition a1_zero_pool :: a1_InClusterIPPool where
  "a1_zero_pool = \<lparr>a1_gvk = no_gvk, a1_meta = empty_meta, a1_spec = a1_zero_spec, a1_status = None\<rparr>"

definition InClusterIPPool_ConvertFrom ::
  "('b, 's) netipx \<Rightarrow> a1_InClusterIPPool conv_util \<Rightarrow> InClusterIPPool \<Rightarrow> a1_InClusterIPPool \<Rightarrow>
     error + a1_InClusterIPPool" where
  "InClusterIPPool_ConvertFrom nx cu src dst =
     (let dst = Convert_v1alpha2_InClusterIPPool_To_v1alpha1_InClusterIPPool src dst
      in sum_bind (cu_unmarshal cu (om_annotations (ip_meta src))) (\<lambda>data.
         case data of
           None \<Rightarrow> Inr dst
         | Some (restored, annotations) \<Rightarrow>
           let dst = dst\<lparr>a1_meta := (a1_meta dst)\<lparr>om_annotations := annotations\<rparr>\<rparr> in
           sum_bind (Convert_v1alpha1_InClusterIPPool_To_v1alpha2_InClusterIPPool nx restored zero_pool)
             (\<lambda>(restored, restoredV2).
              let addressesAreEqual =
                    (if length (Addresses (ip_spec restoredV2)) = length (Addresses (ip_spec src))
                     then same_elements (Addresses (ip_spec restoredV2)) (Addresses (ip_spec src))
                     else False)
              in if addressesAreEqual
                    \<and> spec_Prefix (ip_spec restoredV2) = spec_Prefix (ip_spec src)
                    \<and> Gateway (ip_spec restoredV2) = Gateway (ip_spec src)
                 then Inr (dst\<lparr>a1_spec := a1_spec restored\<rparr>)
                 else Inr dst)))"

definition GlobalInClusterIPPool_ConvertTo ::
  "('b, 's) netipx \<Rightarrow> a1_GlobalInClusterIPPool conv_util \<Rightarrow> a1_GlobalInClusterIPPool \<Rightarrow>
     GlobalInClusterIPPool \<Rightarrow> error + GlobalInClusterIPPool" where
  "GlobalInClusterIPPool_ConvertTo nx cu src dst =
     sum_bind (Convert_v1alpha1_GlobalInClusterIPPool_To_v1alpha2_GlobalInClusterIPPool nx src dst)
       (\<lambda>(src, dst).
     sum_bind (cu_marshal cu src (om_annotations (gip_meta dst))) (\<lambda>annotations.
     Inr (dst\<lparr>gip_meta := (gip_meta dst)\<lparr>om_annotations := annotations\<rparr>\<rparr>)))"

definition GlobalInClusterIPPool_ConvertFrom ::
  "a1_GlobalInClusterIPPool conv_util \<Rightarrow> GlobalInClusterIPPool \<Rightarrow> a1_GlobalInClusterIPPool \<Rightarrow>
     error + a1_GlobalInClusterIPPool" where
  "GlobalInClusterIPPool_ConvertFrom cu src dst =
     (let dst = Convert_v1alpha2_GlobalInClusterIPPool_To_v1alpha1_GlobalInClusterIPPool src dst
      in sum_bind (cu_unmarshal cu (om_annotations (gip_meta src))) (\<lambda>data.
         case data of
           None \<Rightarrow> Inr dst
         | Some (restored, annotations) \<Rightarrow>
             Inr (dst\<lparr>a1g_meta := (a1g_meta dst)\<lparr>om_annotations := annotations\<rparr>,
                      a1g_spec := a1g_spec restored\<rparr>)))"

subsection \<open>Lists\<close>

text \<open>The loop over the items, into freshly made elements.\<close>

fun convert_items :: "('i \<Rightarrow> 'o \<Rightarrow> error + 'i \<times> 'o) \<Rightarrow> 'o \<Rightarrow> 'i list \<Rightarrow> error + 'o list" where
  "convert_items f zero [] = Inr []"
| "convert_items f zero (x # xs) =
     sum_bind (f x zero) (\<lambda>(x', y). sum_bind (convert_items f zero xs) (\<lambda>ys. Inr (y # ys)))"

definition InClusterIPPoolList_ConvertTo ::
  "('b, 's) netipx \<Rightarrow> ('m, a1_InClusterIPPool) object_list \<Rightarrow> ('m, InClusterIPPool) object_list \<Rightarrow>
     error + ('m, InClusterIPPool) object_list" where
  "InClusterIPPoolList_ConvertTo nx src dst =
     (let dst = dst\<lparr>list_meta := list_meta src\<rparr> in
      case list_items src of
        Some items \<Rightarrow>
          sum_bind (convert_items
              (Convert_v1alpha1_InClusterIPPool_To_v1alpha2_InClusterIPPool nx) zero_pool items)
            (\<lambda>out. Inr (dst\<lparr>list_items := Some out\<rparr>))
      | None \<Rightarrow> Inr (dst\<lparr>list_items := None\<rparr>))"

definition InClusterIPPoolList_ConvertFrom ::
  "('m, InClusterIPPool) object_list \<Rightarrow> ('m, a1_InClusterIPPool) object_list \<Rightarrow>
     error + ('m, a1_InClusterIPPool) object_list" where
  "InClusterIPPoolList_ConvertFrom src dst =
     (let dst = dst\<lparr>list_meta := list_meta src\<rparr> in
      case list_items src of
        Some items \<Rightarrow> Inr (dst\<lparr>list_items := Some (map (\<lambda>p.
          Convert_v1alpha2_InClusterIPPool_To_v1alpha1_InClusterIPPool p a1_zero_pool) items)\<rparr>)
      | None \<Rightarrow> Inr (dst\<lparr>list_items := None\<rparr>))"

definition a1_zero_global_pool :: a1_GlobalInClusterIPPool where
  "a1_zero_global_pool =
     \<lparr>a1g_gvk = no_gvk, a1g_meta = empty_meta, a1g_spec = a1_zero_spec, a1g_status = None\<rparr>"

definition GlobalInClusterIPPoolList_ConvertTo ::
  "('b, 's) netipx \<Rightarrow> ('m, a1_GlobalInClusterIPPool) object_list \<Rightarrow>
     ('m, GlobalInClusterIPPool) object_list \<Rightarrow> error + ('m, GlobalInClusterIPPool) object_list" where
  "GlobalInClusterIPPoolList_ConvertTo nx src dst =
     (let dst = dst\<lparr>list_meta := list_meta src\<rparr> in
      case list_items src of
        Some items \<Rightarrow>
          sum_bind (convert_items
              (Convert_v1alpha1_GlobalInClusterIPPool_To_v1alpha2_GlobalInClusterIPPool nx)
              zero_global_pool items)
            (\<lambda>out. Inr (dst\<lparr>list_items := Some out\<rparr>))
      | None \<Rightarrow> Inr (dst\<lparr>list_items := None\<rparr>))"

definition GlobalInClusterIPPoolList_ConvertFrom ::
  "('m, GlobalInClusterIPPool) object_list \<Rightarrow> ('m, a1_GlobalInClusterIPPool) object_list \<Rightarrow>
     error + ('m, a1_GlobalInClusterIPPool) object_list" where
  "GlobalInClusterIPPoolList_ConvertFrom src dst =
     (let dst = dst\<lparr>list_meta := list_meta src\<rparr> in
      case list_items src of
        Some items \<Rightarrow> Inr (dst\<lparr>list_items := Some (map (\<lambda>p.
          Convert_v1alpha2_GlobalInClusterIPPool_To_v1alpha1_GlobalInClusterIPPool p a1_zero_global_pool)
          items)\<rparr>)
      | None \<Rightarrow> Inr (dst\<lparr>list_items := None\<rparr>))"

end
