(* ===== verification/PoolConversion.thy ===== *)
theory PoolConversion
  imports Conversion Allocation
begin

text \<open>
  What the conversions between \<open>v1alpha1\<close> and \<open>v1alpha2\<close> promise: the addresses a
  converted pool stands for, that a pool of the old version survives the way to the new one
  and back, and what is lost on the way from the new one to the old one and back. The locale
  \<open>conv_laws\<close> states the documented behaviour of \<open>MarshalData\<close> and \<open>UnmarshalData\<close>.
\<close>

subsection \<open>The conversion of a spec\<close>

text \<open>The defaults a conversion writes into a spec with the subnet \<open>p\<close>.\<close>

definition filled :: "('b, 's) netipx \<Rightarrow> netprefix \<Rightarrow> a1_InClusterIPPoolSpec \<Rightarrow> a1_InClusterIPPoolSpec" where
  "filled nx p s = s\<lparr>
     a1_First := (if a1_First s = [] then Addr_String (Next (rng_from (nx_range_of_prefix nx p))) else a1_First s),
     a1_Last := (if a1_Last s = [] then Addr_String (Prev (rng_to (nx_range_of_prefix nx p))) else a1_Last s),
     a1_Prefix := (if a1_Prefix s = 0 then pfx_bits p else a1_Prefix s)\<rparr>"

definition normal :: "('b, 's) netipx \<Rightarrow> a1_InClusterIPPoolSpec \<Rightarrow> a1_InClusterIPPoolSpec" where
  "normal nx s =
     (if a1_Subnet s = [] then s
      else case ParsePrefix (a1_Subnet s) of Inl e \<Rightarrow> s | Inr p \<Rightarrow> filled nx p s)"

text \<open>The spec of the new version that a spec with its defaults becomes.\<close>

definition hub_spec :: "a1_InClusterIPPoolSpec \<Rightarrow> InClusterIPPoolSpec \<Rightarrow> InClusterIPPoolSpec" where
  "hub_spec s d = d\<lparr>Gateway := a1_Gateway s, spec_Prefix := a1_Prefix s,
     Addresses := a1_Addresses s
       @ (if a1_First s \<noteq> [] \<and> a1_Last s \<noteq> [] then [a1_First s @ ''-'' @ a1_Last s] else [])\<rparr>"

lemma filled_sel [simp]:
  "a1_Addresses (filled nx p s) = a1_Addresses s" "a1_Subnet (filled nx p s) = a1_Subnet s"
  "a1_Gateway (filled nx p s) = a1_Gateway s"
  by (simp_all add: filled_def)

lemma hub_spec_sel [simp]:
  "Gateway (hub_spec s d) = a1_Gateway s" "spec_Prefix (hub_spec s d) = a1_Prefix s"
  "Addresses (hub_spec s d) = a1_Addresses s
     @ (if a1_First s \<noteq> [] \<and> a1_Last s \<noteq> [] then [a1_First s @ ''-'' @ a1_Last s] else [])"
  by (simp_all add: hub_spec_def)

lemma Addr_String_nonempty [simp]: "Addr_String a \<noteq> []"
proof -
  have "string4 n \<noteq> []" for n by (simp add: string4_octets)
  moreover have "string6_groups (base_digits 65536 8 n) \<noteq> []" for n
    by (rule string6_colon [of "base_digits 65536 8 n"]) simp_all
  ultimately show ?thesis by (cases a) simp_all
qed

lemma convert_spec:
  "Convert_v1alpha1_InClusterIPPoolSpec_To_v1alpha2_InClusterIPPoolSpec nx s d =
     (if a1_Subnet s = [] then Inr (s, hub_spec s d)
      else case ParsePrefix (a1_Subnet s) of
          Inl e \<Rightarrow> Inl (FieldInvalid ''spec.subnet'' (FString (a1_Subnet s)) e)
        | Inr p \<Rightarrow> Inr (filled nx p s, hub_spec (filled nx p s) d))"
  by (cases "ParsePrefix (a1_Subnet s)")
    (auto simp: Convert_v1alpha1_InClusterIPPoolSpec_To_v1alpha2_InClusterIPPoolSpec_def Let_def
      filled_def hub_spec_def)

lemma convert_spec_Inr:
  "Convert_v1alpha1_InClusterIPPoolSpec_To_v1alpha2_InClusterIPPoolSpec nx s d = Inr (s', d') \<Longrightarrow>
     s' = normal nx s \<and> d' = hub_spec (normal nx s) d"
  by (auto simp: convert_spec normal_def split: if_splits sum.splits)

text \<open>Converting a spec that has its defaults changes it no more.\<close>

lemma filled_again [simp]: "filled nx p (filled nx p s) = filled nx p s"
  by (simp add: filled_def)

lemma convert_again:
  assumes "Convert_v1alpha1_InClusterIPPoolSpec_To_v1alpha2_InClusterIPPoolSpec nx s d = Inr (s', d')"
  shows "Convert_v1alpha1_InClusterIPPoolSpec_To_v1alpha2_InClusterIPPoolSpec nx s' e = Inr (s', hub_spec s' e)"
  using assms by (auto simp: convert_spec split: if_splits sum.splits)

lemma convert_hub [simp]:
  "Convert_v1alpha1_InClusterIPPoolSpec_To_v1alpha2_InClusterIPPoolSpec nx
     (Convert_v1alpha2_InClusterIPPoolSpec_To_v1alpha1_InClusterIPPoolSpec h a1_zero_spec) d =
   Inr (Convert_v1alpha2_InClusterIPPoolSpec_To_v1alpha1_InClusterIPPoolSpec h a1_zero_spec,
     d\<lparr>Gateway := Gateway h, spec_Prefix := spec_Prefix h, Addresses := Addresses h\<rparr>)"
  by (simp add: convert_spec hub_spec_def a1_zero_spec_def
      Convert_v1alpha2_InClusterIPPoolSpec_To_v1alpha1_InClusterIPPoolSpec_def
      autoConvert_v1alpha2_InClusterIPPoolSpec_To_v1alpha1_InClusterIPPoolSpec_def)

lemma status_roundtrip [simp]:
  "Convert_v1alpha2_InClusterIPPoolStatus_To_v1alpha1_InClusterIPPoolStatus
     (Convert_v1alpha1_InClusterIPPoolStatus_To_v1alpha2_InClusterIPPoolStatus s) = s"
  "Convert_v1alpha1_InClusterIPPoolStatus_To_v1alpha2_InClusterIPPoolStatus
     (Convert_v1alpha2_InClusterIPPoolStatus_To_v1alpha1_InClusterIPPoolStatus t) = t"
  by (cases s; cases t;
      simp add: Convert_v1alpha1_InClusterIPPoolStatus_To_v1alpha2_InClusterIPPoolStatus_def
        Convert_v1alpha2_InClusterIPPoolStatus_To_v1alpha1_InClusterIPPoolStatus_def
        autoConvert_v1alpha1_StatusIPAddresses_def autoConvert_v1alpha2_StatusIPAddresses_def)+

lemma same_elements_iff: "length xs = length ys \<Longrightarrow> same_elements xs ys \<longleftrightarrow> xs = ys"
  by (induction xs ys rule: list_induct2) simp_all

subsection \<open>The addresses of a converted subnet\<close>

text \<open>The text of a range reads back as the range, if it is one.\<close>

lemma no_hyphen:
  assumes "zoneless a \<or> a = ZeroAddr"
  shows "CHR ''-'' \<notin> set (Addr_String a)"
  using assms plain_Addr_String [of a] by auto

lemma parse_range_text:
  assumes "zoneless a \<or> a = ZeroAddr" "zoneless b \<or> b = ZeroAddr"
  shows "parse_range_spec (Addr_String a @ ''-'' @ Addr_String b) =
    (if rng_valid \<lparr>rng_from = a, rng_to = b\<rparr> then Some \<lparr>rng_from = a, rng_to = b\<rparr> else None)"
proof -
  have parse: "ParseAddr (Addr_String c) = (if zoneless c then Inr c else Inl e)"
    if "zoneless c \<or> c = ZeroAddr" "e = projl (ParseAddr (Addr_String ZeroAddr))" for c e
  proof (cases "zoneless c")
    case False
    moreover have "\<not> isl (ParseAddr (Addr_String ZeroAddr)) \<Longrightarrow> False" by code_simp
    ultimately show ?thesis using that by (metis sum.collapse(1))
  qed (simp add: ParseAddr_Addr_String)
  have split: "takeWhile (\<lambda>c. c \<noteq> CHR ''-'') (Addr_String a @ ''-'' @ Addr_String b) = Addr_String a"
    "tl (dropWhile (\<lambda>c. c \<noteq> CHR ''-'') (Addr_String a @ ''-'' @ Addr_String b)) = Addr_String b"
    using no_hyphen [OF assms(1)] by (subst takeWhile_append2 dropWhile_append2; auto)+
  have zone: "WithZone c [] = c" if "zoneless c" for c
    using that by (cases c) (simp_all add: zoneless_def)
  show ?thesis
    unfolding parse_range_spec_def split
    using parse [OF assms(1) refl] parse [OF assms(2) refl]
    by (auto simp: Let_def zone rng_valid_def)
qed

lemma Prev_zaddr:
  assumes "n < 2 ^ famlen f"
  shows "Prev (zaddr f n) = (if n = 0 then ZeroAddr else zaddr f (n - 1))"
proof (cases f)
  case F4
  have "word_of_nat n = (0 :: 32 word) \<longleftrightarrow> n = 0"
    using assms F4 by (simp add: word_unat_eq_iff unat_of_nat)
  then show ?thesis using F4 by (cases n) (simp_all add: zaddr.simps)
next
  case F6
  have "word_of_nat n = (0 :: 128 word) \<longleftrightarrow> n = 0"
    using assms F6 by (simp add: word_unat_eq_iff unat_of_nat)
  then show ?thesis using F6 by (cases n) (simp_all add: zaddr.simps)
qed

context netipx_laws
begin

text \<open>A pool that names only its subnet: all addresses but the first and the last, if any.\<close>

lemma subnet_entry:
  assumes "pfx_wf p" "Prefix_IsValid p"
  shows "entry_set (Addr_String (Next (rng_from (nx_range_of_prefix nx p)))
      @ ''-'' @ Addr_String (Prev (rng_to (nx_range_of_prefix nx p))))
    = (let A = pfx_set p - {Min (pfx_set p), Max (pfx_set p)} in if A = {} then None else Some A)"
proof -
  have law: "rng_valid (nx_range_of_prefix nx p)" "rng_set (nx_range_of_prefix nx p) = pfx_set p"
    using range_of_prefix [OF assms] by simp_all
  from law(1) obtain f x y where r: "nx_range_of_prefix nx p = nrange f x y" "x \<le> y" "y < 2 ^ famlen f"
    by (rule valid_range_cases)
  have set: "pfx_set p = zaddr f ` {x..y}" using law(2) r rng_set_nrange by simp
  have inj: "inj_on (zaddr f) {x..y}" using r by (intro inj_on_zaddr) auto
  have ends: "Min (pfx_set p) = zaddr f x" "Max (pfx_set p) = zaddr f y"
    unfolding set using r by (auto intro!: Min_eqI Max_eqI)
  have inner: "pfx_set p - {zaddr f x, zaddr f y} = zaddr f ` {x<..<y}"
    unfolding set using r inj by (auto simp: inj_on_eq_iff)
  define a b where "a = Next (zaddr f x)" and "b = Prev (zaddr f y)"
  have ab: "zoneless a \<or> a = ZeroAddr" "zoneless b \<or> b = ZeroAddr"
    using r by (auto simp: a_def b_def Next_zaddr Prev_zaddr)
  have entry: "entry_set (Addr_String a @ ''-'' @ Addr_String b) =
      map_option rng_set (if rng_valid \<lparr>rng_from = a, rng_to = b\<rparr> then Some \<lparr>rng_from = a, rng_to = b\<rparr> else None)"
    unfolding entry_set_def parse_range_text [OF ab] by simp
  show ?thesis
  proof (cases "Suc x < y")
    case True
    then have "a = zaddr f (Suc x)" "b = zaddr f (y - 1)"
      using r by (auto simp: a_def b_def Next_zaddr Prev_zaddr)
    then have range: "\<lparr>rng_from = a, rng_to = b\<rparr> = nrange f (Suc x) (y - 1)" by (simp add: nrange_def)
    have "{Suc x..y - 1} = {x<..<y}" using True by auto
    with True r have "rng_set (nrange f (Suc x) (y - 1)) = zaddr f ` {x<..<y}" by (subst rng_set_nrange) auto
    moreover have "rng_valid (nrange f (Suc x) (y - 1))" using True r by simp
    moreover have "{x<..<y} \<noteq> {}" using True by auto
    ultimately show ?thesis
      using entry inner unfolding ends r(1) range by (simp add: a_def b_def Let_def)
  next
    case False
    then have none: "{x<..<y} = {}" by auto
    have "\<not> rng_valid \<lparr>rng_from = a, rng_to = b\<rparr>"
      using False r by (auto simp: a_def b_def Next_zaddr Prev_zaddr rng_valid_def zoneless_def not_less)
    then show ?thesis
      using entry inner unfolding ends r(1) none by (simp add: a_def b_def Let_def)
  qed
qed

end

subsection \<open>The data annotation\<close>

text \<open>
  \<open>MarshalData\<close> stores the pool but its metadata under a key of the annotations, and
  \<open>UnmarshalData\<close> reads back what is stored and drops the key.
\<close>

definition DataAnnotation :: string where
  "DataAnnotation = ''cluster.x-k8s.io/conversion-data''"

locale conv_laws =
  fixes cu :: "'p conv_util"
    and spec_of :: "'p \<Rightarrow> a1_InClusterIPPoolSpec"
  assumes reads_back: "cu_marshal cu pool m = Inr m' \<Longrightarrow>
    \<exists>q. cu_unmarshal cu m' = Inr (Some (q, m(DataAnnotation := None))) \<and> spec_of q = spec_of pool"

definition without_data :: "object_meta \<Rightarrow> object_meta" where
  "without_data m = m\<lparr>om_annotations := (om_annotations m)(DataAnnotation := None)\<rparr>"

context conv_laws
begin

text \<open>
  What is marshalled by a conversion, a spec with its defaults, converts again to the spec
  of the new version that the conversion wrote.
\<close>

lemma restores:
  assumes conv: "Convert_v1alpha1_InClusterIPPoolSpec_To_v1alpha2_InClusterIPPoolSpec nx s d = Inr (s', d')"
    and put: "cu_marshal cu pool m = Inr m'" "spec_of pool = s'"
  obtains q where "cu_unmarshal cu m' = Inr (Some (q, m(DataAnnotation := None)))"
    "spec_of q = normal nx s" "d' = hub_spec (normal nx s) d"
    "Convert_v1alpha1_InClusterIPPoolSpec_To_v1alpha2_InClusterIPPoolSpec nx (spec_of q) e =
      Inr (spec_of q, hub_spec (spec_of q) e)"
  using reads_back [OF put(1)] put(2) convert_spec_Inr [OF conv] convert_again [OF conv] that by auto

end

lemma ns_ConvertTo_cases:
  assumes "InClusterIPPool_ConvertTo nx cu src dst = Inr h"
  obtains s d m where
    "Convert_v1alpha1_InClusterIPPoolSpec_To_v1alpha2_InClusterIPPoolSpec nx (a1_spec src) (ip_spec dst) = Inr (s, d)"
    "cu_marshal cu (src\<lparr>a1_spec := s\<rparr>) (om_annotations (a1_meta src)) = Inr m"
    "h = dst\<lparr>ip_meta := (a1_meta src)\<lparr>om_annotations := m\<rparr>, ip_spec := d,
      ip_status := Convert_v1alpha1_InClusterIPPoolStatus_To_v1alpha2_InClusterIPPoolStatus (a1_status src)\<rparr>"
  using assms
  by (cases "Convert_v1alpha1_InClusterIPPoolSpec_To_v1alpha2_InClusterIPPoolSpec nx (a1_spec src) (ip_spec dst)")
    (auto simp: InClusterIPPool_ConvertTo_def sum_bind_Inr_iff
        Convert_v1alpha1_InClusterIPPool_To_v1alpha2_InClusterIPPool_def)

lemma global_ConvertTo_cases:
  assumes "GlobalInClusterIPPool_ConvertTo nx cu src dst = Inr h"
  obtains s d m where
    "Convert_v1alpha1_InClusterIPPoolSpec_To_v1alpha2_InClusterIPPoolSpec nx (a1g_spec src) (gip_spec dst) = Inr (s, d)"
    "cu_marshal cu (src\<lparr>a1g_spec := s\<rparr>) (om_annotations (a1g_meta src)) = Inr m"
    "h = dst\<lparr>gip_meta := (a1g_meta src)\<lparr>om_annotations := m\<rparr>, gip_spec := d,
      gip_status := Convert_v1alpha1_InClusterIPPoolStatus_To_v1alpha2_InClusterIPPoolStatus (a1g_status src)\<rparr>"
  using assms
  by (cases "Convert_v1alpha1_InClusterIPPoolSpec_To_v1alpha2_InClusterIPPoolSpec nx (a1g_spec src) (gip_spec dst)")
    (auto simp: GlobalInClusterIPPool_ConvertTo_def sum_bind_Inr_iff
        Convert_v1alpha1_GlobalInClusterIPPool_To_v1alpha2_GlobalInClusterIPPool_def)

text \<open>The way back, with the annotation read.\<close>

lemma ns_ConvertFrom_eq:
  assumes "cu_unmarshal cu (om_annotations (ip_meta h)) = Inr (Some (q, m))"
    "Convert_v1alpha1_InClusterIPPoolSpec_To_v1alpha2_InClusterIPPoolSpec nx (a1_spec q) zero_spec =
      Inr (s, d)"
  shows "InClusterIPPool_ConvertFrom nx cu h dst =
    Inr (dst\<lparr>a1_meta := (ip_meta h)\<lparr>om_annotations := m\<rparr>,
      a1_spec := (if Addresses d = Addresses (ip_spec h) \<and> spec_Prefix d = spec_Prefix (ip_spec h)
            \<and> Gateway d = Gateway (ip_spec h) then s
          else Convert_v1alpha2_InClusterIPPoolSpec_To_v1alpha1_InClusterIPPoolSpec (ip_spec h) (a1_spec dst)),
      a1_status := Convert_v1alpha2_InClusterIPPoolStatus_To_v1alpha1_InClusterIPPoolStatus (ip_status h)\<rparr>)"
proof -
  have eq: "(if length xs = length ys then same_elements xs ys else False) \<longleftrightarrow> xs = ys" for xs ys
    by (auto simp: same_elements_iff)
  show ?thesis
    using assms unfolding InClusterIPPool_ConvertFrom_def eq
    by (simp add: Let_def zero_pool_def
        Convert_v1alpha1_InClusterIPPool_To_v1alpha2_InClusterIPPool_def
        Convert_v1alpha2_InClusterIPPool_To_v1alpha1_InClusterIPPool_def)
qed

lemma ns_ConvertFrom_cases:
  assumes "InClusterIPPool_ConvertFrom nx cu h dst = Inr p"
  shows "a1_status p = Convert_v1alpha2_InClusterIPPoolStatus_To_v1alpha1_InClusterIPPoolStatus (ip_status h)
    \<and> (a1_spec p = Convert_v1alpha2_InClusterIPPoolSpec_To_v1alpha1_InClusterIPPoolSpec (ip_spec h) (a1_spec dst)
      \<or> (\<exists>(q :: a1_InClusterIPPool) e. Convert_v1alpha1_InClusterIPPoolSpec_To_v1alpha2_InClusterIPPoolSpec nx
            (a1_spec q) zero_spec = Inr (a1_spec p, e) \<and> Addresses e = Addresses (ip_spec h)
          \<and> spec_Prefix e = spec_Prefix (ip_spec h) \<and> Gateway e = Gateway (ip_spec h)))"
proof (cases "cu_unmarshal cu (om_annotations (ip_meta h))")
  case (Inl e)
  with assms show ?thesis by (simp add: InClusterIPPool_ConvertFrom_def Let_def)
next
  case (Inr data)
  show ?thesis
  proof (cases data)
    case None
    with assms Inr show ?thesis
      by (auto simp: InClusterIPPool_ConvertFrom_def Let_def
          Convert_v1alpha2_InClusterIPPool_To_v1alpha1_InClusterIPPool_def)
  next
    case (Some qm)
    then obtain q m where qm: "data = Some (q, m)" by (cases qm) auto
    obtain s e where e: "Convert_v1alpha1_InClusterIPPoolSpec_To_v1alpha2_InClusterIPPoolSpec nx
        (a1_spec q) zero_spec = Inr (s, e)"
      using assms Inr qm
      by (cases "Convert_v1alpha1_InClusterIPPoolSpec_To_v1alpha2_InClusterIPPoolSpec nx (a1_spec q) zero_spec")
        (auto simp: InClusterIPPool_ConvertFrom_def Let_def zero_pool_def
          Convert_v1alpha1_InClusterIPPool_To_v1alpha2_InClusterIPPool_def)
    have "InClusterIPPool_ConvertFrom nx cu h dst = Inr p" by (rule assms)
    then show ?thesis
      unfolding ns_ConvertFrom_eq [OF Inr [unfolded qm] e] using e by (auto split: if_splits)
  qed
qed

subsection \<open>A concrete annotation\<close>

text \<open>
  \<open>MarshalData\<close> and \<open>UnmarshalData\<close> on a simple text: each character of a string after a
  dot, a semicolon at its end; each element of a list after a plus; numbers in unary.
\<close>

definition put_string :: "string \<Rightarrow> string" where
  "put_string s = concat (map (\<lambda>c. [CHR ''.'', c]) s) @ '';''"

fun get_string :: "string \<Rightarrow> string \<times> string" where
  "get_string (k # c # r) =
     (if k = CHR ''.'' then let (s, t) = get_string r in (c # s, t) else ([], c # r))"
| "get_string _ = ([], [])"

lemma get_put_string [simp]: "get_string (put_string s @ r) = (s, r)"
proof (induction s)
  case Nil
  then show ?case by (cases r) (simp_all add: put_string_def)
qed (simp add: put_string_def)

definition put_strings :: "string list \<Rightarrow> string" where
  "put_strings ss = concat (map (\<lambda>s. CHR ''+'' # put_string s) ss) @ '';''"

text \<open>The first argument bounds the number of elements: it is a list that is at least as long.\<close>

fun get_strings :: "'f list \<Rightarrow> string \<Rightarrow> string list \<times> string" where
  "get_strings (f # fs) (k # r) =
     (if k = CHR ''+'' then let (s, t) = get_string r; (ss, u) = get_strings fs t in (s # ss, u) else ([], r))"
| "get_strings _ _ = ([], [])"

lemma get_put_strings: "length ss < length fs \<Longrightarrow> get_strings fs (put_strings ss @ r) = (ss, r)"
proof (induction ss arbitrary: fs)
  case (Cons s ss)
  then obtain f gs where fs: "fs = f # gs" "length ss < length gs" by (cases fs) auto
  have "put_strings (s # ss) @ r = CHR ''+'' # put_string s @ put_strings ss @ r"
    by (simp add: put_strings_def)
  then show ?case using Cons.IH [OF fs(2)] fs(1) by simp
next
  case Nil
  then show ?case by (cases fs) (simp_all add: put_strings_def)
qed

definition put_int :: "int \<Rightarrow> string" where
  "put_int i = put_string ((if i < 0 then CHR ''-'' else CHR ''+'') # replicate (nat \<bar>i\<bar>) (CHR ''1''))"

definition get_int :: "string \<Rightarrow> int" where
  "get_int s = (if hd s = CHR ''-'' then - int (length (tl s)) else int (length (tl s)))"

definition put_spec :: "a1_InClusterIPPoolSpec \<Rightarrow> string" where
  "put_spec s = put_string (a1_Subnet s) @ put_string (a1_First s) @ put_string (a1_Last s)
     @ put_int (a1_Prefix s) @ put_string (a1_Gateway s) @ put_strings (a1_Addresses s)"

definition get_spec :: "string \<Rightarrow> a1_InClusterIPPoolSpec" where
  "get_spec t =
     (let (sn, t1) = get_string t; (fi, t2) = get_string t1; (la, t3) = get_string t2;
          (pr, t4) = get_string t3; (gw, t5) = get_string t4; (ad, t6) = get_strings t5 t5
      in \<lparr>a1_Addresses = ad, a1_Subnet = sn, a1_First = fi, a1_Last = la, a1_Prefix = get_int pr,
          a1_Gateway = gw\<rparr>)"

lemma put_strings_length: "length ss < length (put_strings ss)"
  by (induction ss) (auto simp: put_strings_def)

lemma get_put_spec [simp]: "get_spec (put_spec s) = s"
proof -
  have "get_strings (put_strings (a1_Addresses s)) (put_strings (a1_Addresses s)) = (a1_Addresses s, [])"
    using get_put_strings [OF put_strings_length, of "a1_Addresses s" "[]"] by simp
  moreover have "get_int ((if i < 0 then CHR ''-'' else CHR ''+'') # replicate (nat \<bar>i\<bar>) (CHR ''1'')) = i" for i
    by (simp add: get_int_def)
  ultimately show ?thesis by (simp add: get_spec_def put_spec_def put_int_def)
qed

definition ref_conv :: "('p \<Rightarrow> a1_InClusterIPPoolSpec) \<Rightarrow> (a1_InClusterIPPoolSpec \<Rightarrow> 'p) \<Rightarrow> 'p conv_util" where
  "ref_conv spec_of with_spec = \<lparr>
     cu_marshal = (\<lambda>pool m. Inr (m(DataAnnotation \<mapsto> put_spec (spec_of pool)))),
     cu_unmarshal = (\<lambda>m. case m DataAnnotation of
         None \<Rightarrow> Inr None
       | Some t \<Rightarrow> Inr (Some (with_spec (get_spec t), m(DataAnnotation := None))))\<rparr>"

lemma ref_conv_laws:
  assumes "\<And>s. spec_of (with_spec s) = s"
  shows "conv_laws (ref_conv spec_of with_spec) spec_of"
  by unfold_locales (use assms in \<open>auto simp: ref_conv_def\<close>)

definition ref_conv_ns :: "a1_InClusterIPPool conv_util" where
  "ref_conv_ns = ref_conv a1_spec (\<lambda>s. a1_zero_pool\<lparr>a1_spec := s\<rparr>)"

definition ref_conv_global :: "a1_GlobalInClusterIPPool conv_util" where
  "ref_conv_global = ref_conv a1g_spec (\<lambda>s. a1_zero_global_pool\<lparr>a1g_spec := s\<rparr>)"

interpretation ref_ns: conv_laws ref_conv_ns a1_spec
  unfolding ref_conv_ns_def by (rule ref_conv_laws) simp

interpretation ref_global: conv_laws ref_conv_global a1g_spec
  unfolding ref_conv_global_def by (rule ref_conv_laws) simp

subsection \<open>Properties\<close>

text \<open>C30: the addresses of a converted subnet. A pool of the old version that names only its
  subnet becomes one whose address list stands for all addresses of the subnet but the first
  and the last, with the prefix of the subnet unless it names its own. If nothing is left (a
  subnet of one or two addresses), the list does not parse.\<close>

theorem converted_subnet_addresses:
  fixes nx :: "('b, 's) netipx"
  assumes "netipx_laws nx bips bok" "ParsePrefix (a1_Subnet s) = Inr p"
    and "a1_First s = []" "a1_Last s = []" "a1_Addresses s = []"
  shows "\<exists>s' d'. Convert_v1alpha1_InClusterIPPoolSpec_To_v1alpha2_InClusterIPPoolSpec nx s d = Inr (s', d')
    \<and> entries_set (Addresses d') =
        (let A = pfx_set p - {Min (pfx_set p), Max (pfx_set p)} in if A = {} then None else Some A)
    \<and> spec_Prefix d' = (if a1_Prefix s = 0 then pfx_bits p else a1_Prefix s)
    \<and> Gateway d' = a1_Gateway s"
proof -
  have "\<not> isl (ParsePrefix []) \<Longrightarrow> False" by code_simp
  then have "a1_Subnet s \<noteq> []" using assms(2) by (metis isl_def sum.disc(2))
  then have "Convert_v1alpha1_InClusterIPPoolSpec_To_v1alpha2_InClusterIPPoolSpec nx s d
      = Inr (filled nx p s, hub_spec (filled nx p s) d)"
    using assms(2) by (simp add: convert_spec)
  moreover have "entries_set [e] = entry_set e" for e by (cases "entry_set e") (simp_all add: entries_set_def)
  ultimately show ?thesis
    using netipx_laws.subnet_entry [OF assms(1) ParsePrefix_valid(2,1) [OF assms(2)]] assms(3-5)
    by (simp add: filled_def)
qed

definition demo_old_spec :: a1_InClusterIPPoolSpec where
  "demo_old_spec = a1_zero_spec\<lparr>a1_Subnet := ''10.2.0.0/29'', a1_Gateway := ''10.2.0.1''\<rparr>"

lemma converted_subnet_addresses_witness:
  "\<exists>s' d'. Convert_v1alpha1_InClusterIPPoolSpec_To_v1alpha2_InClusterIPPoolSpec ref_netipx demo_old_spec
      zero_spec = Inr (s', d')
    \<and> entries_set (Addresses d') =
        (let p = projr (ParsePrefix ''10.2.0.0/29''); A = pfx_set p - {Min (pfx_set p), Max (pfx_set p)}
         in if A = {} then None else Some A)
    \<and> spec_Prefix d' = (if a1_Prefix demo_old_spec = 0 then pfx_bits (projr (ParsePrefix ''10.2.0.0/29''))
        else a1_Prefix demo_old_spec)
    \<and> Gateway d' = a1_Gateway demo_old_spec"
  unfolding Let_def [of "projr (ParsePrefix ''10.2.0.0/29'')"]
proof (rule converted_subnet_addresses [OF ref.netipx_laws_axioms])
  have "a1_Subnet demo_old_spec = ''10.2.0.0/29''" by (simp add: demo_old_spec_def)
  moreover have "ParsePrefix ''10.2.0.0/29'' = Inr (projr (ParsePrefix ''10.2.0.0/29''))"
    by (rule not_isl_projr) code_simp
  ultimately show "ParsePrefix (a1_Subnet demo_old_spec) = Inr (projr (ParsePrefix ''10.2.0.0/29''))" by simp
qed (simp_all add: demo_old_spec_def a1_zero_spec_def)

text \<open>C27: a pool of the old version survives. Converted to the new version and back it has
  its metadata but for a data annotation, its status, and its spec with the defaults that
  the conversion fills in.\<close>

theorem v1alpha1_roundtrip:
  assumes "conv_laws cu a1_spec" "InClusterIPPool_ConvertTo nx cu src dst = Inr h"
  shows "InClusterIPPool_ConvertFrom nx cu h dst' =
    Inr (dst'\<lparr>a1_meta := without_data (a1_meta src), a1_spec := normal nx (a1_spec src),
      a1_status := a1_status src\<rparr>)"
proof -
  obtain s d m where conv: "Convert_v1alpha1_InClusterIPPoolSpec_To_v1alpha2_InClusterIPPoolSpec nx
      (a1_spec src) (ip_spec dst) = Inr (s, d)"
    and put: "cu_marshal cu (src\<lparr>a1_spec := s\<rparr>) (om_annotations (a1_meta src)) = Inr m"
    and h: "h = dst\<lparr>ip_meta := (a1_meta src)\<lparr>om_annotations := m\<rparr>, ip_spec := d,
      ip_status := Convert_v1alpha1_InClusterIPPoolStatus_To_v1alpha2_InClusterIPPoolStatus (a1_status src)\<rparr>"
    by (rule ns_ConvertTo_cases [OF assms(2)])
  obtain q where q: "cu_unmarshal cu m = Inr (Some (q, (om_annotations (a1_meta src))(DataAnnotation := None)))"
      "a1_spec q = normal nx (a1_spec src)" "d = hub_spec (normal nx (a1_spec src)) (ip_spec dst)"
      "Convert_v1alpha1_InClusterIPPoolSpec_To_v1alpha2_InClusterIPPoolSpec nx (a1_spec q) zero_spec =
        Inr (a1_spec q, hub_spec (a1_spec q) zero_spec)"
    by (rule conv_laws.restores [OF assms(1) conv put]) simp
  have "InClusterIPPool_ConvertFrom nx cu h dst' = Inr (dst'\<lparr>
      a1_meta := (ip_meta h)\<lparr>om_annotations := (om_annotations (a1_meta src))(DataAnnotation := None)\<rparr>,
      a1_spec := a1_spec q,
      a1_status := Convert_v1alpha2_InClusterIPPoolStatus_To_v1alpha1_InClusterIPPoolStatus (ip_status h)\<rparr>)"
    by (subst ns_ConvertFrom_eq [OF _ q(4)]) (use q h in simp_all)
  then show ?thesis by (simp add: h q(2) without_data_def)
qed

definition demo_old_pool :: a1_InClusterIPPool where
  "demo_old_pool = a1_zero_pool\<lparr>a1_spec := demo_old_spec\<rparr>"

lemma v1alpha1_roundtrip_witness:
  "InClusterIPPool_ConvertFrom ref_netipx ref_conv_ns
      (projr (InClusterIPPool_ConvertTo ref_netipx ref_conv_ns demo_old_pool zero_pool)) a1_zero_pool =
    Inr (a1_zero_pool\<lparr>a1_meta := without_data (a1_meta demo_old_pool),
      a1_spec := normal ref_netipx (a1_spec demo_old_pool), a1_status := a1_status demo_old_pool\<rparr>)
   \<and> a1_First (normal ref_netipx (a1_spec demo_old_pool)) = ''10.2.0.1''
   \<and> a1_Last (normal ref_netipx (a1_spec demo_old_pool)) = ''10.2.0.6''"
proof (intro conjI)
  show "a1_First (normal ref_netipx (a1_spec demo_old_pool)) = ''10.2.0.1''"
    "a1_Last (normal ref_netipx (a1_spec demo_old_pool)) = ''10.2.0.6''" by code_simp+
qed (rule v1alpha1_roundtrip [OF ref_ns.conv_laws_axioms], rule not_isl_projr, code_simp)

text \<open>C28: what the old version cannot hold. An address pool of the new version that is
  converted to the old one and back keeps its addresses, prefix and gateway, also if they
  were changed after an earlier conversion left its data in the annotations; exclusions,
  reserved addresses and the grace period are lost.\<close>

theorem v1alpha2_roundtrip:
  assumes "InClusterIPPool_ConvertFrom nx cu h a1_zero_pool = Inr p"
    and "InClusterIPPool_ConvertTo nx cu p zero_pool = Inr h'"
  shows "ip_spec h' = (ip_spec h)\<lparr>AllocateReservedIPAddresses := False, ExcludedAddresses := [],
      AddressReuseGracePeriodSeconds := None\<rparr> \<and> ip_status h' = ip_status h"
proof -
  let ?plain = "Convert_v1alpha2_InClusterIPPoolSpec_To_v1alpha1_InClusterIPPoolSpec (ip_spec h) a1_zero_spec"
  obtain s d m where conv: "Convert_v1alpha1_InClusterIPPoolSpec_To_v1alpha2_InClusterIPPoolSpec nx
      (a1_spec p) (ip_spec zero_pool) = Inr (s, d)"
    and h': "h' = zero_pool\<lparr>ip_meta := (a1_meta p)\<lparr>om_annotations := m\<rparr>, ip_spec := d,
      ip_status := Convert_v1alpha1_InClusterIPPoolStatus_To_v1alpha2_InClusterIPPoolStatus (a1_status p)\<rparr>"
    by (rule ns_ConvertTo_cases [OF assms(2)])
  have zero: "ip_spec zero_pool = zero_spec" "a1_spec a1_zero_pool = a1_zero_spec"
    by (simp_all add: zero_pool_def a1_zero_pool_def)
  have same: "ip_spec h' = (ip_spec h)\<lparr>AllocateReservedIPAddresses := False, ExcludedAddresses := [],
      AddressReuseGracePeriodSeconds := None\<rparr>"
    if "d = zero_spec\<lparr>Gateway := Gateway (ip_spec h), spec_Prefix := spec_Prefix (ip_spec h),
      Addresses := Addresses (ip_spec h)\<rparr>"
    using that h' by (simp add: zero_spec_def)
  have status: "a1_status p = Convert_v1alpha2_InClusterIPPoolStatus_To_v1alpha1_InClusterIPPoolStatus (ip_status h)"
    and "a1_spec p = ?plain \<or> (\<exists>(q :: a1_InClusterIPPool) e. Convert_v1alpha1_InClusterIPPoolSpec_To_v1alpha2_InClusterIPPoolSpec nx
        (a1_spec q) zero_spec = Inr (a1_spec p, e) \<and> Addresses e = Addresses (ip_spec h)
      \<and> spec_Prefix e = spec_Prefix (ip_spec h) \<and> Gateway e = Gateway (ip_spec h))"
    using ns_ConvertFrom_cases [OF assms(1)] by (auto simp: zero a1_zero_pool_def)
  then consider (plain) "a1_spec p = ?plain" | (restored) q :: a1_InClusterIPPool and e where
      "Convert_v1alpha1_InClusterIPPoolSpec_To_v1alpha2_InClusterIPPoolSpec nx (a1_spec q) zero_spec =
        Inr (a1_spec p, e)"
      "Addresses e = Addresses (ip_spec h)" "spec_Prefix e = spec_Prefix (ip_spec h)"
      "Gateway e = Gateway (ip_spec h)"
    by blast
  then have "d = zero_spec\<lparr>Gateway := Gateway (ip_spec h), spec_Prefix := spec_Prefix (ip_spec h),
      Addresses := Addresses (ip_spec h)\<rparr>"
  proof cases
    case plain
    then show ?thesis using conv by (simp add: zero)
  next
    case (restored q e)
    then have "d = e" "e = hub_spec (a1_spec p) zero_spec"
      using conv convert_again [OF restored(1), of zero_spec] convert_spec_Inr [OF restored(1)] by (auto simp: zero)
    then show ?thesis using restored by (simp add: hub_spec_def)
  qed
  from same [OF this] show ?thesis using h' status by simp
qed

definition demo_hub :: InClusterIPPool where
  "demo_hub = zero_pool\<lparr>ip_spec := zero_spec\<lparr>Addresses := [''10.0.0.0/29''], spec_Prefix := 24,
     ExcludedAddresses := [''10.0.0.4''], AddressReuseGracePeriodSeconds := Some 60\<rparr>\<rparr>"

lemma v1alpha2_roundtrip_witness:
  "let p = projr (InClusterIPPool_ConvertFrom ref_netipx ref_conv_ns demo_hub a1_zero_pool);
       h' = projr (InClusterIPPool_ConvertTo ref_netipx ref_conv_ns p zero_pool)
   in ip_spec h' = (ip_spec demo_hub)\<lparr>AllocateReservedIPAddresses := False, ExcludedAddresses := [],
      AddressReuseGracePeriodSeconds := None\<rparr> \<and> ip_status h' = ip_status demo_hub"
  unfolding Let_def by (rule v1alpha2_roundtrip; rule not_isl_projr, code_simp)

text \<open>C29: a global pool survives too, but a change of it is lost. Converted to the new version
  and back a global pool of the old version is what it was but for its defaults. This is so
  whatever the spec of the new version was changed to in between: the way back of a global
  pool takes the spec from the annotation without comparing, unlike that of a namespaced
  pool.\<close>

theorem global_v1alpha1_roundtrip:
  assumes "conv_laws cu a1g_spec" "GlobalInClusterIPPool_ConvertTo nx cu src dst = Inr h"
  shows "GlobalInClusterIPPool_ConvertFrom cu (h\<lparr>gip_spec := changed\<rparr>) dst' =
    Inr (dst'\<lparr>a1g_meta := without_data (a1g_meta src), a1g_spec := normal nx (a1g_spec src),
      a1g_status := a1g_status src\<rparr>)"
proof -
  obtain s d m where conv: "Convert_v1alpha1_InClusterIPPoolSpec_To_v1alpha2_InClusterIPPoolSpec nx
      (a1g_spec src) (gip_spec dst) = Inr (s, d)"
    and put: "cu_marshal cu (src\<lparr>a1g_spec := s\<rparr>) (om_annotations (a1g_meta src)) = Inr m"
    and h: "h = dst\<lparr>gip_meta := (a1g_meta src)\<lparr>om_annotations := m\<rparr>, gip_spec := d,
      gip_status := Convert_v1alpha1_InClusterIPPoolStatus_To_v1alpha2_InClusterIPPoolStatus (a1g_status src)\<rparr>"
    by (rule global_ConvertTo_cases [OF assms(2)])
  obtain q where "cu_unmarshal cu m = Inr (Some (q, (om_annotations (a1g_meta src))(DataAnnotation := None)))"
      "a1g_spec q = normal nx (a1g_spec src)"
    by (rule conv_laws.restores [OF assms(1) conv put]) simp
  then show ?thesis
    by (simp add: h GlobalInClusterIPPool_ConvertFrom_def without_data_def
        Convert_v1alpha2_GlobalInClusterIPPool_To_v1alpha1_GlobalInClusterIPPool_def)
qed

definition demo_old_global_pool :: a1_GlobalInClusterIPPool where
  "demo_old_global_pool = a1_zero_global_pool\<lparr>a1g_spec := demo_old_spec\<rparr>"

lemma global_v1alpha1_roundtrip_witness:
  "let h = projr (GlobalInClusterIPPool_ConvertTo ref_netipx ref_conv_global demo_old_global_pool zero_global_pool)
   in GlobalInClusterIPPool_ConvertFrom ref_conv_global (h\<lparr>gip_spec := ip_spec demo_hub\<rparr>) a1_zero_global_pool =
    Inr (a1_zero_global_pool\<lparr>a1g_meta := without_data (a1g_meta demo_old_global_pool),
      a1g_spec := normal ref_netipx (a1g_spec demo_old_global_pool),
      a1g_status := a1g_status demo_old_global_pool\<rparr>)"
  unfolding Let_def by (rule global_v1alpha1_roundtrip [OF ref_global.conv_laws_axioms], rule not_isl_projr, code_simp)

end
