(* ===== verification/Watches.thy ===== *)
theory Watches
  imports InCluster PoolController
begin

text \<open>
  Which events lead to which reconciliations: the controllers that the \<open>SetupWithManager\<close>
  functions build, of the claim reconciler with the in-cluster adapter
  (\<open>pkg/ipamutil/reconciler.go\<close>, \<open>internal/controllers/ipaddressclaim.go\<close>) and of the four
  pool reconcilers. The builder, the event handlers and the predicate combinators of
  controller-runtime are a parameter, the record \<open>framework\<close>; the locale
  \<open>framework_laws\<close> states their documented behaviour.
\<close>

declare split_paired_All [simp del] split_paired_Ex [simp del]

subsection \<open>The builder\<close>

text \<open>The types of objects that can be watched.\<close>

datatype object_type =
    TClaim | TAddress | TCluster | TInClusterIPPool | TGlobalInClusterIPPool
  | TInClusterPrefixPool | TGlobalInClusterPrefixPool

fun pool_type :: "pool_object \<Rightarrow> object_type" where
  "pool_type (AddressPool (NsPool p)) = TInClusterIPPool"
| "pool_type (AddressPool (GlobalPool p)) = TGlobalInClusterIPPool"
| "pool_type (PrefixPool (NsPrefixPool p)) = TInClusterPrefixPool"
| "pool_type (PrefixPool (GlobalPrefixPool p)) = TGlobalInClusterPrefixPool"

primrec type_of :: "api_object \<Rightarrow> object_type" where
  "type_of (AddressObject a) = TAddress"
| "type_of (ClaimObject c) = TClaim"
| "type_of (PoolObject p) = pool_type p"
| "type_of (ClusterObject c) = TCluster"

text \<open>
  \<open>predicate.Predicate\<close> and the struct \<open>predicate.Funcs\<close>, whose functions may be nil.
\<close>

type_synonym predicate = "api_event \<Rightarrow> bool"

record predicate_funcs =
  pf_Create :: "(api_object \<Rightarrow> bool) option"
  pf_Delete :: "(api_object \<Rightarrow> bool) option"
  pf_Update :: "(api_object \<Rightarrow> api_object \<Rightarrow> bool) option"
  pf_Generic :: "(api_object \<Rightarrow> bool) option"

text \<open>
  What a builder has been told: the type to reconcile, the watches with the map functions of
  their handlers, the owned types, each with the conjunction of its predicates, the global
  event filters, and \<open>MaxConcurrentReconciles\<close> (0 if it was not set).
\<close>

record 'w builder =
  b_For :: "(object_type \<times> predicate) option"
  b_Watches :: "(object_type \<times> (api_object \<Rightarrow> 'w \<Rightarrow> nsname list) \<times> predicate) list"
  b_Owns :: "(object_type \<times> predicate) list"
  b_EventFilters :: "predicate list"
  b_MaxConcurrentReconciles :: int

definition NewControllerManagedBy :: "'w builder" where
  "NewControllerManagedBy = \<lparr>b_For = None, b_Watches = [], b_Owns = [], b_EventFilters = [],
     b_MaxConcurrentReconciles = 0\<rparr>"

text \<open>No predicates: every event passes.\<close>

definition all_events :: predicate where
  "all_events e = True"

text \<open>
  \<open>fw_enqueued b e w\<close> are the requests that the controller built from \<open>b\<close> enqueues on the
  event \<open>e\<close>; \<open>fw_owners t x\<close> the keys of the controlling owners of type \<open>t\<close> of an object.
\<close>

record 'w framework =
  fw_Funcs :: "predicate_funcs \<Rightarrow> predicate"
  fw_Or :: "predicate list \<Rightarrow> predicate"
  fw_ResourceNotPausedAndHasFilterLabel :: "string \<Rightarrow> predicate"
  fw_IndexField :: "object_type \<Rightarrow> string \<Rightarrow> (api_object \<Rightarrow> string list) \<Rightarrow> error option"
  fw_Complete :: "'w builder \<Rightarrow> error option"
  fw_owners :: "object_type \<Rightarrow> api_object \<Rightarrow> nsname list"
  fw_enqueued :: "'w builder \<Rightarrow> api_event \<Rightarrow> 'w \<Rightarrow> nsname set"

subsection \<open>The claim controller\<close>

definition resourceTransitionedToUnpaused :: "'w framework \<Rightarrow> 'w kube \<Rightarrow> predicate" where
  "resourceTransitionedToUnpaused F K = fw_Funcs F
     \<lparr>pf_Create = Some (resourceTransitionedToUnpaused_Create K), pf_Delete = None,
      pf_Update = Some (resourceTransitionedToUnpaused_Update K), pf_Generic = None\<rparr>"

definition poolNoLongerEmpty_predicate :: "'w framework \<Rightarrow> predicate" where
  "poolNoLongerEmpty_predicate F = fw_Funcs F
     \<lparr>pf_Create = None, pf_Delete = None, pf_Update = Some poolNoLongerEmpty, pf_Generic = None\<rparr>"

definition prefixPoolNoLongerEmpty_predicate :: "'w framework \<Rightarrow> predicate" where
  "prefixPoolNoLongerEmpty_predicate F = fw_Funcs F
     \<lparr>pf_Create = None, pf_Delete = None, pf_Update = Some prefixPoolNoLongerEmpty, pf_Generic = None\<rparr>"

text \<open>
  The map functions of the watches convert the object they are given to the interface of the
  pools (a conversion that always succeeds for the type that is watched).
\<close>

definition ip_pool_map :: "'w kube \<Rightarrow> string \<Rightarrow> api_object \<Rightarrow> 'w \<Rightarrow> nsname list" where
  "ip_pool_map K kind obj w =
     (case obj of PoolObject (AddressPool p) \<Rightarrow> ipPoolToIPClaims K kind p w | _ \<Rightarrow> [])"

definition prefix_pool_map :: "'w kube \<Rightarrow> string \<Rightarrow> api_object \<Rightarrow> 'w \<Rightarrow> nsname list" where
  "prefix_pool_map K kind obj w =
     (case obj of PoolObject p \<Rightarrow> prefixPoolToIPClaims K kind p w | _ \<Rightarrow> [])"

definition InClusterProviderAdapter_SetupWithManager ::
  "'w framework \<Rightarrow> 'w kube \<Rightarrow> 'w builder \<Rightarrow> error + 'w builder" where
  "InClusterProviderAdapter_SetupWithManager F K b =
     Inr (b\<lparr>
       b_For := Some (TClaim, fw_Or F
         [ClaimReferencesPoolKind (ipam_group, inClusterIPPoolKind),
          ClaimReferencesPoolKind (ipam_group, globalInClusterIPPoolKind),
          ClaimReferencesPoolKind (ipam_group, inClusterPrefixPoolKind),
          ClaimReferencesPoolKind (ipam_group, globalInClusterPrefixPoolKind)]),
       b_MaxConcurrentReconciles := 1,
       b_Watches := b_Watches b @
         [(TInClusterIPPool, ip_pool_map K inClusterIPPoolKind,
             fw_Or F [resourceTransitionedToUnpaused F K, poolNoLongerEmpty_predicate F]),
          (TGlobalInClusterIPPool, ip_pool_map K globalInClusterIPPoolKind,
             fw_Or F [resourceTransitionedToUnpaused F K, poolNoLongerEmpty_predicate F]),
          (TInClusterPrefixPool, prefix_pool_map K inClusterPrefixPoolKind,
             fw_Or F [resourceTransitionedToUnpaused F K, prefixPoolNoLongerEmpty_predicate F]),
          (TGlobalInClusterPrefixPool, prefix_pool_map K globalInClusterPrefixPoolKind,
             fw_Or F [resourceTransitionedToUnpaused F K, prefixPoolNoLongerEmpty_predicate F])],
       b_Owns := b_Owns b @
         [(TAddress, fw_Or F
           [AddressReferencesPoolKind (ipam_group, inClusterIPPoolKind),
            AddressReferencesPoolKind (ipam_group, globalInClusterIPPoolKind),
            AddressReferencesPoolKind (ipam_group, inClusterPrefixPoolKind),
            AddressReferencesPoolKind (ipam_group, globalInClusterPrefixPoolKind)])]\<rparr>)"

text \<open>The type assertions of the cluster predicate hold for the type that is watched.\<close>

definition cluster_predicate :: "'w framework \<Rightarrow> 'w kube \<Rightarrow> predicate" where
  "cluster_predicate F K = fw_Funcs F
     \<lparr>pf_Create = Some (\<lambda>x. case x of ClusterObject c \<Rightarrow> cluster_create_func K c | _ \<Rightarrow> False),
      pf_Delete = Some (\<lambda>x. case x of ClusterObject c \<Rightarrow> cluster_delete_func K c | _ \<Rightarrow> False),
      pf_Update = Some (\<lambda>x y. case (x, y) of
          (ClusterObject old, ClusterObject new) \<Rightarrow> cluster_update_func K old new | _ \<Rightarrow> False),
      pf_Generic = None\<rparr>"

definition ClaimReconciler_SetupWithManager ::
  "'w framework \<Rightarrow> 'w kube \<Rightarrow> string \<Rightarrow> ('w builder \<Rightarrow> error + 'w builder) option \<Rightarrow>
     error + 'w builder" where
  "ClaimReconciler_SetupWithManager F K watchFilterValue adapter =
     (case adapter of
        None \<Rightarrow> Inl (ErrorString ''error setting the manager: Adapter is nil'')
      | Some setup \<Rightarrow>
        (case fw_IndexField F TClaim ''clusterName'' indexClusterName of
           Some e \<Rightarrow> Inl (Wrapped ''failed to register indexer for IPAddressClaim'' e)
         | None \<Rightarrow>
             let b = NewControllerManagedBy\<lparr>
                   b_EventFilters := [fw_ResourceNotPausedAndHasFilterLabel F watchFilterValue],
                   b_Watches := [(TCluster, clusterToIPClaims K, cluster_predicate F K)]\<rparr>
             in (case setup b of
                   Inl e \<Rightarrow> Inl e
                 | Inr b \<Rightarrow> (case fw_Complete F b of Some e \<Rightarrow> Inl e | None \<Rightarrow> Inr b))))"

definition claim_controller :: "'w framework \<Rightarrow> 'w kube \<Rightarrow> string \<Rightarrow> error + 'w builder" where
  "claim_controller F K watchFilterValue =
     ClaimReconciler_SetupWithManager F K watchFilterValue
       (Some (InClusterProviderAdapter_SetupWithManager F K))"

subsection \<open>The pool controllers\<close>

definition pool_controller ::
  "'w framework \<Rightarrow> object_type \<Rightarrow> (api_object \<Rightarrow> nsname list) \<Rightarrow> error + 'w builder" where
  "pool_controller F t addressToPool =
     (let b = NewControllerManagedBy\<lparr>b_For := Some (t, all_events),
            b_Watches := [(TAddress, \<lambda>x w. addressToPool x, all_events)]\<rparr>
      in case fw_Complete F b of Some e \<Rightarrow> Inl e | None \<Rightarrow> Inr b)"

definition InClusterIPPoolReconciler_SetupWithManager :: "'w framework \<Rightarrow> error + 'w builder" where
  "InClusterIPPoolReconciler_SetupWithManager F =
     pool_controller F TInClusterIPPool ipAddressToInClusterIPPool"

definition GlobalInClusterIPPoolReconciler_SetupWithManager :: "'w framework \<Rightarrow> error + 'w builder" where
  "GlobalInClusterIPPoolReconciler_SetupWithManager F =
     pool_controller F TGlobalInClusterIPPool ipAddressToGlobalInClusterIPPool"

definition InClusterPrefixPoolReconciler_SetupWithManager :: "'w framework \<Rightarrow> error + 'w builder" where
  "InClusterPrefixPoolReconciler_SetupWithManager F =
     pool_controller F TInClusterPrefixPool ipAddressToInClusterPrefixPool"

definition GlobalInClusterPrefixPoolReconciler_SetupWithManager :: "'w framework \<Rightarrow> error + 'w builder" where
  "GlobalInClusterPrefixPoolReconciler_SetupWithManager F =
     pool_controller F TGlobalInClusterPrefixPool ipAddressToGlobalInClusterPrefixPool"

subsection \<open>Documented behaviour\<close>

fun event_objects :: "api_event \<Rightarrow> api_object list" where
  "event_objects (CreateEvent x) = [x]"
| "event_objects (DeleteEvent x) = [x]"
| "event_objects (UpdateEvent x y) = [x, y]"
| "event_objects (GenericEvent x) = [x]"

text \<open>The object the event is about, the new one for an update.\<close>

definition event_object :: "api_event \<Rightarrow> api_object" where
  "event_object e = last (event_objects e)"

definition object_key :: "api_object \<Rightarrow> nsname" where
  "object_key x = (om_namespace (api_meta x), om_name (api_meta x))"

text \<open>A nil function of \<open>predicate.Funcs\<close> lets every event pass.\<close>

primrec funcs_hold :: "predicate_funcs \<Rightarrow> predicate" where
  "funcs_hold fs (CreateEvent x) = (case pf_Create fs of None \<Rightarrow> True | Some f \<Rightarrow> f x)"
| "funcs_hold fs (DeleteEvent x) = (case pf_Delete fs of None \<Rightarrow> True | Some f \<Rightarrow> f x)"
| "funcs_hold fs (UpdateEvent x y) = (case pf_Update fs of None \<Rightarrow> True | Some f \<Rightarrow> f x y)"
| "funcs_hold fs (GenericEvent x) = (case pf_Generic fs of None \<Rightarrow> True | Some f \<Rightarrow> f x)"

text \<open>
  An event is delivered to the parts of a controller for its type whose predicates it
  passes: the reconciled type enqueues the object itself, a watch what its function maps
  the objects of the event to, an owned type their owners of the reconciled type.
\<close>

locale framework_laws =
  fixes F :: "'w framework"
  assumes Funcs: "fw_Funcs F fs e \<longleftrightarrow> funcs_hold fs e"
    and Or: "fw_Or F ps e \<longleftrightarrow> (\<exists>p \<in> set ps. p e)"
    and enqueued: "r \<in> fw_enqueued F b e w \<longleftrightarrow>
      (\<forall>p \<in> set (b_EventFilters b). p e)
      \<and> ((\<exists>p. b_For b = Some (type_of (event_object e), p) \<and> p e \<and> r = object_key (event_object e))
         \<or> (\<exists>f p. (type_of (event_object e), f, p) \<in> set (b_Watches b) \<and> p e
              \<and> (\<exists>x \<in> set (event_objects e). r \<in> set (f x w)))
         \<or> (\<exists>t q p. b_For b = Some (t, q) \<and> (type_of (event_object e), p) \<in> set (b_Owns b) \<and> p e
              \<and> (\<exists>x \<in> set (event_objects e). r \<in> set (fw_owners F t x))))"

text \<open>The lists of claims by the two indexes.\<close>

locale kube_indexes = kube_laws K st_addr st_claim for K :: "'w kube" and st_addr st_claim +
  assumes list_claims_by_pool: "\<exists>cs. k_list_claims K IPAddressClaimPoolRefCombinedField v ns w = Inr cs
      \<and> set cs = {c. \<exists>k vs. st_claim w k = Some c \<and> (ns = [] \<or> fst k = ns)
          \<and> ipAddressClaimByCombinedPoolRef (ClaimObject c) = Ok vs \<and> v \<in> set vs}"
    and list_claims_by_cluster: "\<exists>cs. k_list_claims K ''clusterName'' v ns w = Inr cs
      \<and> set cs = {c. \<exists>k. st_claim w k = Some c \<and> (ns = [] \<or> fst k = ns)
          \<and> v \<in> set (indexClusterName (ClaimObject c))}"

subsection \<open>What wakes a claim\<close>

primrec pool_kind :: "pool_object \<Rightarrow> string" where
  "pool_kind (AddressPool p) =
     (case p of NsPool q \<Rightarrow> inClusterIPPoolKind | GlobalPool q \<Rightarrow> globalInClusterIPPoolKind)"
| "pool_kind (PrefixPool p) =
     (case p of NsPrefixPool q \<Rightarrow> inClusterPrefixPoolKind | GlobalPrefixPool q \<Rightarrow> globalInClusterPrefixPoolKind)"

text \<open>The claims in the namespace of the pool, or anywhere for a global pool, that name it.\<close>

definition waits_for :: "pool_object \<Rightarrow> nsname \<Rightarrow> ip_claim \<Rightarrow> bool" where
  "waits_for q k c \<longleftrightarrow> (om_namespace (obj_meta q) = [] \<or> fst k = om_namespace (obj_meta q))
     \<and> effective_group (ic_pool_ref c) = ipam_group \<and> pr_kind (ic_pool_ref c) = pool_kind q
     \<and> pr_name (ic_pool_ref c) = om_name (obj_meta q)"

text \<open>Only an update is filtered: it has to end a pause or the shortage of addresses.\<close>

fun wakes :: "'w kube \<Rightarrow> api_event \<Rightarrow> bool" where
  "wakes K (UpdateEvent old new) \<longleftrightarrow>
     k_has_paused K (api_meta old) \<and> \<not> k_has_paused K (api_meta new)
     \<or> poolNoLongerEmpty old new \<or> prefixPoolNoLongerEmpty old new"
| "wakes K _ \<longleftrightarrow> True"

text \<open>An event of the pool \<open>q\<close>: an update changes neither its kind nor its key.\<close>

definition pool_event :: "api_event \<Rightarrow> pool_object \<Rightarrow> bool" where
  "pool_event e q \<longleftrightarrow> event_object e = PoolObject q \<and>
     (\<forall>x \<in> set (event_objects e). \<exists>p. x = PoolObject p \<and> pool_type p = pool_type q
        \<and> om_name (obj_meta p) = om_name (obj_meta q) \<and> om_namespace (obj_meta p) = om_namespace (obj_meta q))"

lemma event_object_mem: "event_object e \<in> set (event_objects e)"
  by (cases e) (simp_all add: event_object_def)

lemma pool_type_kind: "pool_type p = pool_type q \<Longrightarrow> pool_kind p = pool_kind q"
  by (cases p rule: pool_type.cases; cases q rule: pool_type.cases) simp_all

context kube_indexes
begin

lemma listed_for_pool:
  assumes "\<And>k c. st_claim w k = Some c \<Longrightarrow>
      CHR ''/'' \<notin> set (pr_group (ic_pool_ref c)) \<and> CHR ''/'' \<notin> set (pr_kind (ic_pool_ref c))"
    and "kind \<in> {inClusterIPPoolKind, globalInClusterIPPoolKind, inClusterPrefixPoolKind,
      globalInClusterPrefixPoolKind}"
  obtains cs where "k_list_claims K IPAddressClaimPoolRefCombinedField
      (IPPoolRefValue \<lparr>pr_group = ipam_group, pr_kind = kind, pr_name = n\<rparr>) ns w = Inr cs"
    "(\<lambda>c. (om_namespace (ic_meta c), om_name (ic_meta c))) ` set cs =
      {k. \<exists>c. st_claim w k = Some c \<and> (ns = [] \<or> fst k = ns) \<and> effective_group (ic_pool_ref c) = ipam_group
         \<and> pr_kind (ic_pool_ref c) = kind \<and> pr_name (ic_pool_ref c) = n}"
proof -
  let ?r = "\<lparr>pr_group = ipam_group, pr_kind = kind, pr_name = n\<rparr>"
  obtain cs where cs: "k_list_claims K IPAddressClaimPoolRefCombinedField (IPPoolRefValue ?r) ns w = Inr cs"
    "set cs = {c. \<exists>k vs. st_claim w k = Some c \<and> (ns = [] \<or> fst k = ns)
      \<and> ipAddressClaimByCombinedPoolRef (ClaimObject c) = Ok vs \<and> IPPoolRefValue ?r \<in> set vs}"
    using list_claims_by_pool by blast
  have "CHR ''/'' \<notin> set kind" "CHR ''/'' \<notin> set ipam_group"
    using assms(2) by (auto simp: inClusterIPPoolKind_def globalInClusterIPPoolKind_def
        inClusterPrefixPoolKind_def globalInClusterPrefixPoolKind_def ipam_group_def)
  then have same: "IPPoolRefValue ?r = IPPoolRefValue (ic_pool_ref c) \<longleftrightarrow>
      effective_group (ic_pool_ref c) = ipam_group \<and> pr_kind (ic_pool_ref c) = kind \<and> pr_name (ic_pool_ref c) = n"
    if "st_claim w k = Some c" for k c
    using same_ref_value_iff [of ?r "ic_pool_ref c"] assms(1) [OF that]
    by (auto simp: effective_group_def)
  have key: "(om_namespace (ic_meta c), om_name (ic_meta c)) = k" if "st_claim w k = Some c" for k c
    using stored_keys(2) [OF that] by (simp add: claim_key_def)
  show ?thesis
  proof (rule that [OF cs(1)], intro set_eqI iffI)
    fix k assume "k \<in> (\<lambda>c. (om_namespace (ic_meta c), om_name (ic_meta c))) ` set cs"
    then obtain c j where c: "k = (om_namespace (ic_meta c), om_name (ic_meta c))" "st_claim w j = Some c"
        "ns = [] \<or> fst j = ns" "IPPoolRefValue ?r = IPPoolRefValue (ic_pool_ref c)"
      unfolding cs(2) by auto
    with key have "st_claim w k = Some c" "ns = [] \<or> fst k = ns" by auto
    moreover have "effective_group (ic_pool_ref c) = ipam_group \<and> pr_kind (ic_pool_ref c) = kind
        \<and> pr_name (ic_pool_ref c) = n" using same [OF c(2)] c(4) by blast
    ultimately show "k \<in> {k. \<exists>c. st_claim w k = Some c \<and> (ns = [] \<or> fst k = ns)
        \<and> effective_group (ic_pool_ref c) = ipam_group \<and> pr_kind (ic_pool_ref c) = kind
        \<and> pr_name (ic_pool_ref c) = n}" by blast
  next
    fix k assume "k \<in> {k. \<exists>c. st_claim w k = Some c \<and> (ns = [] \<or> fst k = ns)
        \<and> effective_group (ic_pool_ref c) = ipam_group \<and> pr_kind (ic_pool_ref c) = kind
        \<and> pr_name (ic_pool_ref c) = n}"
    then obtain c where c: "st_claim w k = Some c" "ns = [] \<or> fst k = ns"
        "effective_group (ic_pool_ref c) = ipam_group \<and> pr_kind (ic_pool_ref c) = kind
          \<and> pr_name (ic_pool_ref c) = n" by blast
    then have "c \<in> set cs" using same [OF c(1)] unfolding cs(2) by auto
    with key [OF c(1)] show "k \<in> (\<lambda>c. (om_namespace (ic_meta c), om_name (ic_meta c))) ` set cs" by force
  qed
qed

lemma pool_map_wakes:
  assumes "\<And>k c. st_claim w k = Some c \<Longrightarrow>
      CHR ''/'' \<notin> set (pr_group (ic_pool_ref c)) \<and> CHR ''/'' \<notin> set (pr_kind (ic_pool_ref c))"
  shows "set (ip_pool_map K (pool_kind (AddressPool p)) (PoolObject (AddressPool p)) w) =
      {k. \<exists>c. st_claim w k = Some c \<and> waits_for (AddressPool p) k c}" (is ?ip)
    "set (prefix_pool_map K (pool_kind (PrefixPool q)) (PoolObject (PrefixPool q)) w) =
      {k. \<exists>c. st_claim w k = Some c \<and> waits_for (PrefixPool q) k c}"
    (is ?prefix)
proof -
  have kinds: "pool_kind x \<in> {inClusterIPPoolKind, globalInClusterIPPoolKind, inClusterPrefixPoolKind,
      globalInClusterPrefixPoolKind}" for x
    by (cases x rule: pool_type.cases) simp_all
  show ?ip
  proof (rule listed_for_pool [OF assms kinds [of "AddressPool p"], where n = "om_name (pool_meta p)"
        and ns = "om_namespace (pool_meta p)" and w = w])
    fix cs assume cs: "k_list_claims K IPAddressClaimPoolRefCombinedField (IPPoolRefValue
        \<lparr>pr_group = ipam_group, pr_kind = pool_kind (AddressPool p), pr_name = om_name (pool_meta p)\<rparr>)
        (om_namespace (pool_meta p)) w = Inr cs"
      and keys: "(\<lambda>c. (om_namespace (ic_meta c), om_name (ic_meta c))) ` set cs =
        {k. \<exists>c. st_claim w k = Some c \<and> (om_namespace (pool_meta p) = [] \<or> fst k = om_namespace (pool_meta p))
          \<and> effective_group (ic_pool_ref c) = ipam_group \<and> pr_kind (ic_pool_ref c) = pool_kind (AddressPool p)
          \<and> pr_name (ic_pool_ref c) = om_name (pool_meta p)}"
    have "ip_pool_map K (pool_kind (AddressPool p)) (PoolObject (AddressPool p)) w =
        map (\<lambda>c. (om_namespace (ic_meta c), om_name (ic_meta c))) cs"
      using cs by (simp only: ip_pool_map_def ipPoolToIPClaims_def api_object.case pool_object.case sum.case)
    with keys show ?ip by (simp add: waits_for_def)
  qed
  show ?prefix
  proof (rule listed_for_pool [OF assms kinds [of "PrefixPool q"], where n = "om_name (prefix_pool_meta q)"
        and ns = "om_namespace (prefix_pool_meta q)" and w = w])
    fix cs assume cs: "k_list_claims K IPAddressClaimPoolRefCombinedField (IPPoolRefValue
        \<lparr>pr_group = ipam_group, pr_kind = pool_kind (PrefixPool q), pr_name = om_name (prefix_pool_meta q)\<rparr>)
        (om_namespace (prefix_pool_meta q)) w = Inr cs"
      and keys: "(\<lambda>c. (om_namespace (ic_meta c), om_name (ic_meta c))) ` set cs =
        {k. \<exists>c. st_claim w k = Some c \<and> (om_namespace (prefix_pool_meta q) = [] \<or> fst k = om_namespace (prefix_pool_meta q))
          \<and> effective_group (ic_pool_ref c) = ipam_group \<and> pr_kind (ic_pool_ref c) = pool_kind (PrefixPool q)
          \<and> pr_name (ic_pool_ref c) = om_name (prefix_pool_meta q)}"
    have "prefix_pool_map K (pool_kind (PrefixPool q)) (PoolObject (PrefixPool q)) w =
        map (\<lambda>c. (om_namespace (ic_meta c), om_name (ic_meta c))) cs"
      using cs by (simp only: prefix_pool_map_def prefixPoolToIPClaims_def api_object.case pool_object.case sum.case)
    with keys show ?prefix by (simp add: waits_for_def)
  qed
qed

end

subsection \<open>What the controllers enqueue\<close>

lemma claim_controller_built:
  assumes "claim_controller F K v = Inr b"
  shows "b_For b = Some (TClaim, fw_Or F
      [ClaimReferencesPoolKind (ipam_group, inClusterIPPoolKind),
       ClaimReferencesPoolKind (ipam_group, globalInClusterIPPoolKind),
       ClaimReferencesPoolKind (ipam_group, inClusterPrefixPoolKind),
       ClaimReferencesPoolKind (ipam_group, globalInClusterPrefixPoolKind)])"
    "b_EventFilters b = [fw_ResourceNotPausedAndHasFilterLabel F v]"
    "b_MaxConcurrentReconciles b = 1"
    "(t, f, q) \<in> set (b_Watches b) \<longleftrightarrow>
      t = TCluster \<and> f = clusterToIPClaims K \<and> q = cluster_predicate F K
      \<or> t = TInClusterIPPool \<and> f = ip_pool_map K inClusterIPPoolKind
        \<and> q = fw_Or F [resourceTransitionedToUnpaused F K, poolNoLongerEmpty_predicate F]
      \<or> t = TGlobalInClusterIPPool \<and> f = ip_pool_map K globalInClusterIPPoolKind
        \<and> q = fw_Or F [resourceTransitionedToUnpaused F K, poolNoLongerEmpty_predicate F]
      \<or> t = TInClusterPrefixPool \<and> f = prefix_pool_map K inClusterPrefixPoolKind
        \<and> q = fw_Or F [resourceTransitionedToUnpaused F K, prefixPoolNoLongerEmpty_predicate F]
      \<or> t = TGlobalInClusterPrefixPool \<and> f = prefix_pool_map K globalInClusterPrefixPoolKind
        \<and> q = fw_Or F [resourceTransitionedToUnpaused F K, prefixPoolNoLongerEmpty_predicate F]"
    "fst ` set (b_Owns b) = {TAddress}"
  using assms
  by (auto simp: claim_controller_def ClaimReconciler_SetupWithManager_def Let_def
      NewControllerManagedBy_def InClusterProviderAdapter_SetupWithManager_def split: option.splits)

locale watched = framework_laws F + kube_indexes K st_addr st_claim
  for F :: "'w framework" and K :: "'w kube" and st_addr st_claim
begin

text \<open>Events of objects that are neither claims nor addresses reach the watches only.\<close>

lemma watch_enqueues:
  assumes "claim_controller F K v = Inr b" "type_of (event_object e) \<notin> {TClaim, TAddress}"
  shows "r \<in> fw_enqueued F b e w \<longleftrightarrow> fw_ResourceNotPausedAndHasFilterLabel F v e
    \<and> (\<exists>f p. (type_of (event_object e), f, p) \<in> set (b_Watches b) \<and> p e
          \<and> (\<exists>x \<in> set (event_objects e). r \<in> set (f x w)))"
proof -
  note built = claim_controller_built [OF assms(1)]
  have "(type_of (event_object e), p) \<notin> set (b_Owns b)" for p
    using built(5) assms(2) by force
  then show ?thesis using assms(2) by (auto simp: enqueued built(1,2))
qed

lemma update_predicates:
  "fw_Or F [resourceTransitionedToUnpaused F K, poolNoLongerEmpty_predicate F] e \<longleftrightarrow>
    (case e of UpdateEvent x y \<Rightarrow> resourceTransitionedToUnpaused_Update K x y \<or> poolNoLongerEmpty x y
     | _ \<Rightarrow> True)"
  "fw_Or F [resourceTransitionedToUnpaused F K, prefixPoolNoLongerEmpty_predicate F] e \<longleftrightarrow>
    (case e of UpdateEvent x y \<Rightarrow> resourceTransitionedToUnpaused_Update K x y \<or> prefixPoolNoLongerEmpty x y
     | _ \<Rightarrow> True)"
  by (cases e; simp add: Or Funcs resourceTransitionedToUnpaused_def poolNoLongerEmpty_predicate_def
      prefixPoolNoLongerEmpty_predicate_def)+

lemma no_status [simp]:
  "poolStatus (PoolObject (PrefixPool p)) = None" "prefixPoolStatus (PoolObject (AddressPool q)) = None"
  by (cases p; simp) (cases q; simp)

text \<open>The watch of the type of a pool.\<close>

lemma pool_watch:
  assumes "claim_controller F K v = Inr b" "pool_event e q"
  obtains f p where "\<And>g p'. (pool_type q, g, p') \<in> set (b_Watches b) \<longleftrightarrow> g = f \<and> p' = p"
    "p e \<longleftrightarrow> wakes K e"
    "\<And>x. pool_type x = pool_type q \<Longrightarrow> f (PoolObject x) =
       (case x of AddressPool y \<Rightarrow> ip_pool_map K (pool_kind x) (PoolObject x)
        | PrefixPool y \<Rightarrow> prefix_pool_map K (pool_kind x) (PoolObject x))"
proof -
  note built = claim_controller_built(4) [OF assms(1)]
  have address: "(case e of UpdateEvent x y \<Rightarrow> resourceTransitionedToUnpaused_Update K x y \<or> poolNoLongerEmpty x y
      | _ \<Rightarrow> True) \<longleftrightarrow> wakes K e" if "q = AddressPool y" for y
  proof (cases e)
    case (UpdateEvent x z)
    then have "z = PoolObject (AddressPool y)" using assms(2) that
      by (simp add: pool_event_def event_object_def)
    then show ?thesis using UpdateEvent
      by (simp add: resourceTransitionedToUnpaused_Update_def prefixPoolNoLongerEmpty_def split: option.splits)
  qed simp_all
  have prefix: "(case e of UpdateEvent x y \<Rightarrow> resourceTransitionedToUnpaused_Update K x y \<or> prefixPoolNoLongerEmpty x y
      | _ \<Rightarrow> True) \<longleftrightarrow> wakes K e" if "q = PrefixPool y" for y
  proof (cases e)
    case (UpdateEvent x z)
    then have "z = PoolObject (PrefixPool y)" using assms(2) that
      by (simp add: pool_event_def event_object_def)
    then show ?thesis using UpdateEvent
      by (simp add: resourceTransitionedToUnpaused_Update_def poolNoLongerEmpty_def split: option.splits)
  qed simp_all
  show thesis
  proof (cases q rule: pool_type.cases)
    case (1 y)
    show thesis
      by (rule that [of "ip_pool_map K inClusterIPPoolKind"
            "fw_Or F [resourceTransitionedToUnpaused F K, poolNoLongerEmpty_predicate F]"])
        (use 1 address in \<open>auto simp: built update_predicates elim: pool_type.elims\<close>)
  next
    case (2 y)
    show thesis
      by (rule that [of "ip_pool_map K globalInClusterIPPoolKind"
            "fw_Or F [resourceTransitionedToUnpaused F K, poolNoLongerEmpty_predicate F]"])
        (use 2 address in \<open>auto simp: built update_predicates elim: pool_type.elims\<close>)
  next
    case (3 y)
    show thesis
      by (rule that [of "prefix_pool_map K inClusterPrefixPoolKind"
            "fw_Or F [resourceTransitionedToUnpaused F K, prefixPoolNoLongerEmpty_predicate F]"])
        (use 3 prefix in \<open>auto simp: built update_predicates elim: pool_type.elims\<close>)
  next
    case (4 y)
    show thesis
      by (rule that [of "prefix_pool_map K globalInClusterPrefixPoolKind"
            "fw_Or F [resourceTransitionedToUnpaused F K, prefixPoolNoLongerEmpty_predicate F]"])
        (use 4 prefix in \<open>auto simp: built update_predicates elim: pool_type.elims\<close>)
  qed
qed

lemma pool_event_enqueues:
  assumes built: "claim_controller F K v = Inr b" and event: "pool_event e q"
    and names: "\<And>k c. st_claim w k = Some c \<Longrightarrow>
      CHR ''/'' \<notin> set (pr_group (ic_pool_ref c)) \<and> CHR ''/'' \<notin> set (pr_kind (ic_pool_ref c))"
  shows "fw_enqueued F b e w =
    (if fw_ResourceNotPausedAndHasFilterLabel F v e \<and> wakes K e
     then {k. \<exists>c. st_claim w k = Some c \<and> waits_for q k c} else {})"
proof -
  obtain f p where watch: "\<And>g p'. (pool_type q, g, p') \<in> set (b_Watches b) \<longleftrightarrow> g = f \<and> p' = p"
    and p: "p e \<longleftrightarrow> wakes K e"
    and f: "\<And>x. pool_type x = pool_type q \<Longrightarrow> f (PoolObject x) =
       (case x of AddressPool y \<Rightarrow> ip_pool_map K (pool_kind x) (PoolObject x)
        | PrefixPool y \<Rightarrow> prefix_pool_map K (pool_kind x) (PoolObject x))"
    using pool_watch [OF built event] by blast
  have q: "event_object e = PoolObject q" using event by (simp add: pool_event_def)
  have t: "type_of (event_object e) = pool_type q" by (simp add: q)
  have "set (f x w) = {k. \<exists>c. st_claim w k = Some c \<and> waits_for q k c}" if x: "x \<in> set (event_objects e)" for x
  proof -
    obtain y where y: "x = PoolObject y" "pool_type y = pool_type q"
      "om_name (obj_meta y) = om_name (obj_meta q)" "om_namespace (obj_meta y) = om_namespace (obj_meta q)"
      using event x unfolding pool_event_def by blast
    have "set (f x w) = {k. \<exists>c. st_claim w k = Some c \<and> waits_for y k c}"
      unfolding y(1) f [OF y(2)] using pool_map_wakes [OF names] by (cases y) (simp_all del: pool_kind.simps)
    then show ?thesis using y(3,4) pool_type_kind [OF y(2)] by (simp add: waits_for_def)
  qed
  moreover have "pool_type q \<notin> {TClaim, TAddress}" by (cases q rule: pool_type.cases) simp_all
  ultimately show ?thesis
    using watch_enqueues [OF built, of e] event_object_mem [of e] unfolding t watch
    by (auto simp: p)
qed

end

end
