(* ===== verification/Wakeups.thy ===== *)
theory Wakeups
  imports Watches
begin

text \<open>
  The events that wake a claim or a pool, on every branch, and what becomes of a claim of
  another provider that a cluster event wakes. The laws of \<open>Watches\<close> are interpreted on a
  concrete framework.
\<close>

declare split_paired_All [simp del] split_paired_Ex [simp del]

subsection \<open>Claims and clusters\<close>

text \<open>The claims the controller is for.\<close>

definition of_provider :: "ip_claim \<Rightarrow> bool" where
  "of_provider c \<longleftrightarrow> pr_group (ic_pool_ref c) = ipam_group \<and> pr_kind (ic_pool_ref c) \<in>
     {inClusterIPPoolKind, globalInClusterIPPoolKind, inClusterPrefixPoolKind, globalInClusterPrefixPoolKind}"

text \<open>A cluster event passes unless it leaves the cluster paused, or an update found it running.\<close>

fun cluster_wakes :: "'w kube \<Rightarrow> api_event \<Rightarrow> bool" where
  "cluster_wakes K (UpdateEvent (ClusterObject old) (ClusterObject new)) \<longleftrightarrow>
     k_is_paused K old \<and> \<not> k_is_paused K new"
| "cluster_wakes K (CreateEvent (ClusterObject c)) \<longleftrightarrow> \<not> k_is_paused K c"
| "cluster_wakes K (DeleteEvent (ClusterObject c)) \<longleftrightarrow> \<not> k_is_paused K c"
| "cluster_wakes K (GenericEvent (ClusterObject c)) \<longleftrightarrow> True"
| "cluster_wakes K _ \<longleftrightarrow> False"

definition cluster_event :: "api_event \<Rightarrow> string \<Rightarrow> bool" where
  "cluster_event e n \<longleftrightarrow> (\<forall>x \<in> set (event_objects e). \<exists>c. x = ClusterObject c \<and> om_name (cl_meta c) = n)"

context watched
begin

lemma claim_event_enqueues:
  assumes "claim_controller F K v = Inr b" "event_object e = ClaimObject c"
  shows "fw_enqueued F b e w =
    (if fw_ResourceNotPausedAndHasFilterLabel F v e \<and> of_provider c then {claim_key c} else {})"
proof -
  note built = claim_controller_built [OF assms(1)]
  have filter: "fw_Or F
      [ClaimReferencesPoolKind (ipam_group, inClusterIPPoolKind),
       ClaimReferencesPoolKind (ipam_group, globalInClusterIPPoolKind),
       ClaimReferencesPoolKind (ipam_group, inClusterPrefixPoolKind),
       ClaimReferencesPoolKind (ipam_group, globalInClusterPrefixPoolKind)] e \<longleftrightarrow> of_provider c"
    using assms(2) by (cases e) (auto simp: Or of_provider_def event_object_def)
  have "(TClaim, f, p) \<notin> set (b_Watches b)" for f p by (simp add: built(4))
  moreover have "(TClaim, p) \<notin> set (b_Owns b)" for p using built(5) by force
  ultimately show ?thesis
    by (intro set_eqI) (auto simp: enqueued built(1,2) assms(2) filter object_key_def claim_key_def)
qed

lemma cluster_event_enqueues:
  assumes "claim_controller F K v = Inr b" "cluster_event e n"
  shows "fw_enqueued F b e w =
    (if fw_ResourceNotPausedAndHasFilterLabel F v e \<and> cluster_wakes K e
     then {k. \<exists>c. st_claim w k = Some c \<and> n \<in> set (indexClusterName (ClaimObject c))} else {})"
proof -
  note built = claim_controller_built [OF assms(1)]
  obtain d where d: "event_object e = ClusterObject d"
    using event_object_mem [of e] assms(2) unfolding cluster_event_def by blast
  then have t: "type_of (event_object e) = TCluster" by simp
  have passes: "cluster_predicate F K e \<longleftrightarrow> cluster_wakes K e"
    using assms(2) by (cases e) (auto simp: cluster_predicate_def Funcs cluster_event_def
        cluster_update_func_def cluster_create_func_def cluster_delete_func_def)
  obtain cs where cs: "k_list_claims K ''clusterName'' n [] w = Inr cs"
    "set cs = {c. \<exists>k. st_claim w k = Some c \<and> n \<in> set (indexClusterName (ClaimObject c))}"
    using list_claims_by_cluster [of n "[]" w] by auto
  have "set (clusterToIPClaims K x w) = claim_key ` set cs" if "x \<in> set (event_objects e)" for x
  proof -
    have "clusterToIPClaims K x w = map claim_key cs"
      using that assms(2) cs(1) by (auto simp: clusterToIPClaims_def cluster_event_def claim_key_def)
    then show ?thesis by simp
  qed
  moreover have "claim_key ` set cs = {k. \<exists>c. st_claim w k = Some c \<and> n \<in> set (indexClusterName (ClaimObject c))}"
    unfolding cs(2) using stored_keys(2) by (auto intro!: image_eqI)
  ultimately show ?thesis
    using watch_enqueues [OF assms(1), of e] event_object_mem [of e] unfolding t
    by (auto simp: built(4) passes simp del: indexClusterName.simps)
qed

end

subsection \<open>Pools\<close>

context framework_laws
begin

lemma address_event_enqueues:
  assumes "pool_controller F t (address_to_pool kind) = Inr b" "t \<noteq> TAddress"
    and "\<forall>x \<in> set (event_objects e). \<exists>a. x = AddressObject a"
  shows "r \<in> fw_enqueued F b e w \<longleftrightarrow> (\<exists>a. AddressObject a \<in> set (event_objects e)
    \<and> pr_group (ia_pool_ref a) = ipam_group \<and> pr_kind (ia_pool_ref a) = kind
    \<and> r = (om_namespace (ia_meta a), pr_name (ia_pool_ref a)))"
proof -
  have b: "b_For b = Some (t, all_events)" "b_EventFilters b = []" "b_Owns b = []"
    "b_Watches b = [(TAddress, \<lambda>x w. address_to_pool kind x, all_events)]"
    using assms(1) by (auto simp: pool_controller_def NewControllerManagedBy_def Let_def split: option.splits)
  obtain a where a: "event_object e = AddressObject a"
    using event_object_mem [of e] assms(3) by blast
  have "r \<in> set (address_to_pool kind (AddressObject x)) \<longleftrightarrow> pr_group (ia_pool_ref x) = ipam_group
      \<and> pr_kind (ia_pool_ref x) = kind \<and> r = (om_namespace (ia_meta x), pr_name (ia_pool_ref x))" for x
    by (auto simp: address_to_pool_def)
  moreover have "(\<exists>x \<in> set (event_objects e). P x) \<longleftrightarrow> (\<exists>x. AddressObject x \<in> set (event_objects e) \<and> P (AddressObject x))"
    for P using assms(3) by metis
  ultimately show ?thesis
    using assms(2) by (simp add: enqueued b a all_events_def)
qed

end

subsection \<open>A claim of another provider\<close>


subsection \<open>A concrete framework\<close>

text \<open>The filter label is that of the Cluster API; no filter value lets every label pass.\<close>

definition ref_filter :: "string \<Rightarrow> predicate" where
  "ref_filter v e = (let m = api_meta (event_object e)
     in \<not> ref_has_paused m \<and> (v = [] \<or> om_labels m ''cluster.x-k8s.io/watch-filter'' = Some v))"

definition from_watches ::
  "(object_type \<times> (api_object \<Rightarrow> 'w \<Rightarrow> nsname list) \<times> predicate) list \<Rightarrow> api_event \<Rightarrow> 'w \<Rightarrow> nsname list" where
  "from_watches ws e w = concat (map (\<lambda>(t, f, p). if t = type_of (event_object e) \<and> p e
     then concat (map (\<lambda>x. f x w) (event_objects e)) else []) ws)"

lemma from_watches_mem: "r \<in> set (from_watches ws e w) \<longleftrightarrow>
    (\<exists>f p. (type_of (event_object e), f, p) \<in> set ws \<and> p e \<and> (\<exists>x \<in> set (event_objects e). r \<in> set (f x w)))"
proof (induction ws)
  case (Cons y ws)
  obtain t f p where y: "y = (t, f, p)" by (cases y)
  show ?case
  proof (cases "t = type_of (event_object e) \<and> p e")
    case True
    then have "set (from_watches (y # ws) e w) =
        (\<Union>x \<in> set (event_objects e). set (f x w)) \<union> set (from_watches ws e w)"
      by (simp add: from_watches_def y)
    then show ?thesis using True Cons.IH by (simp only: y list.set Un_iff UN_iff insert_iff prod.inject) metis
  next
    case False
    then have "from_watches (y # ws) e w = from_watches ws e w" by (auto simp: from_watches_def y)
    then show ?thesis using False Cons.IH by (simp only: y list.set insert_iff prod.inject) metis
  qed
qed (simp add: from_watches_def)

definition ref_enqueued :: "(object_type \<Rightarrow> api_object \<Rightarrow> nsname list) \<Rightarrow>
    'w builder \<Rightarrow> api_event \<Rightarrow> 'w \<Rightarrow> nsname set" where
  "ref_enqueued owners b e w =
     (if \<not> list_all (\<lambda>p. p e) (b_EventFilters b) then {}
      else set ((case b_For b of None \<Rightarrow> []
           | Some (t, p) \<Rightarrow> if t = type_of (event_object e) \<and> p e then [object_key (event_object e)] else [])
         @ from_watches (b_Watches b) e w
         @ (case b_For b of None \<Rightarrow> [] | Some (t, q) \<Rightarrow>
             from_watches (map (\<lambda>(t', p). (t', \<lambda>x w. owners t x, p)) (b_Owns b)) e w)))"

text \<open>The claim that controls an address.\<close>

fun ref_owners :: "object_type \<Rightarrow> api_object \<Rightarrow> nsname list" where
  "ref_owners TClaim (AddressObject a) = map (\<lambda>r. (om_namespace (ia_meta a), or_name r))
     (filter (\<lambda>r. or_kind r = ''IPAddressClaim'' \<and> or_controller r = Some True) (om_owners (ia_meta a)))"
| "ref_owners _ _ = []"

definition ref_framework :: "ref_world framework" where
  "ref_framework = \<lparr>fw_Funcs = funcs_hold, fw_Or = (\<lambda>ps e. list_ex (\<lambda>p. p e) ps),
     fw_ResourceNotPausedAndHasFilterLabel = ref_filter, fw_IndexField = (\<lambda>t f i. None),
     fw_Complete = (\<lambda>b. None), fw_owners = ref_owners, fw_enqueued = ref_enqueued ref_owners\<rparr>"

lemma ref_framework_sel [simp]:
  "fw_Funcs ref_framework = funcs_hold" "fw_Or ref_framework ps e \<longleftrightarrow> (\<exists>p \<in> set ps. p e)"
  "fw_owners ref_framework = ref_owners" "fw_enqueued ref_framework = ref_enqueued ref_owners"
  by (simp_all add: ref_framework_def list_ex_iff)

lemma ref_enqueued_mem: "r \<in> ref_enqueued owners b e w \<longleftrightarrow>
    (\<forall>p \<in> set (b_EventFilters b). p e)
    \<and> ((\<exists>p. b_For b = Some (type_of (event_object e), p) \<and> p e \<and> r = object_key (event_object e))
       \<or> (\<exists>f p. (type_of (event_object e), f, p) \<in> set (b_Watches b) \<and> p e
            \<and> (\<exists>x \<in> set (event_objects e). r \<in> set (f x w)))
       \<or> (\<exists>t q p. b_For b = Some (t, q) \<and> (type_of (event_object e), p) \<in> set (b_Owns b) \<and> p e
            \<and> (\<exists>x \<in> set (event_objects e). r \<in> set (owners t x))))"
proof (cases "b_For b")
  case None
  then show ?thesis by (simp add: ref_enqueued_def list_all_iff from_watches_mem) blast
next
  case (Some tp)
  obtain t p where tp: "tp = (t, p)" by (cases tp)
  have "r \<in> set (from_watches (map (\<lambda>(t', p). (t', \<lambda>x w. owners t x, p)) (b_Owns b)) e w) \<longleftrightarrow>
      (\<exists>p. (type_of (event_object e), p) \<in> set (b_Owns b) \<and> p e \<and> (\<exists>x \<in> set (event_objects e). r \<in> set (owners t x)))"
    unfolding from_watches_mem by force
  then show ?thesis
    by (simp add: Some tp ref_enqueued_def list_all_iff from_watches_mem) blast
qed

interpretation ref_framework: framework_laws ref_framework
  by unfold_locales (simp_all only: ref_framework_sel ref_enqueued_mem)

lemma ref_listed_claims: "c \<in> set (ref_claims w) \<longleftrightarrow> (\<exists>k. ref_claim w k = Some c)"
proof -
  have key: "claim_key c = k \<and> c \<in> set (rw_claims w)" if "ref_claim w k = Some c" for k c
    using that by (auto simp: ref_claim_def dest: lookup_key)
  have "c \<in> set (ref_claims w) \<longleftrightarrow> (\<exists>d \<in> set (rw_claims w). ref_claim w (claim_key d) = Some c)"
    by (force simp: ref_claims_def split: option.splits)
  with key show ?thesis by metis
qed

interpretation ref_indexes: kube_indexes ref_kube ref_addr ref_claim
proof (unfold_locales, goal_cases)
  case (1 v ns w)
  have "om_namespace (ic_meta c) = fst k" if "ref_claim w k = Some c" for k c
    using ref_kube.stored_keys(2) [OF that] by (auto simp: claim_key_def)
  then show ?case
    by (auto simp: ref_kube_def ref_list_claims_def ref_listed_claims IPAddressClaimPoolRefCombinedField_def)
next
  case (2 v ns w)
  have "om_namespace (ic_meta c) = fst k" if "ref_claim w k = Some c" for k c
    using ref_kube.stored_keys(2) [OF that] by (auto simp: claim_key_def)
  then show ?case
    by (auto simp: ref_kube_def ref_list_claims_def ref_listed_claims IPAddressClaimPoolRefCombinedField_def
        simp del: indexClusterName.simps)
qed

interpretation ref_watched: watched ref_framework ref_kube ref_addr ref_claim
  by unfold_locales

subsection \<open>Properties\<close>

text \<open>C21: pool events wake the waiting claims. On an event of a pool that passes the filter of
  the controller, exactly the claims that name the pool (in its namespace, or anywhere for a
  global pool) are enqueued: always when the pool is created, deleted or resynced; on an
  update if it ends the pause of the pool or its shortage of free addresses.\<close>

theorem pool_events_wake_claims:
  fixes F :: "'w framework" and K :: "'w kube"
  assumes "framework_laws F" "kube_indexes K st_addr st_claim"
    and "claim_controller F K v = Inr b" "pool_event e q"
    and "\<And>k c. st_claim w k = Some c \<Longrightarrow>
      CHR ''/'' \<notin> set (pr_group (ic_pool_ref c)) \<and> CHR ''/'' \<notin> set (pr_kind (ic_pool_ref c))"
  shows "fw_enqueued F b e w =
    (if fw_ResourceNotPausedAndHasFilterLabel F v e \<and> wakes K e
     then {k. \<exists>c. st_claim w k = Some c \<and> waits_for q k c} else {})"
  by (rule watched.pool_event_enqueues [OF watched.intro [OF assms(1,2)] assms(3-5)])

text \<open>The pool of the example gets its first free address.\<close>

definition with_free :: "int \<Rightarrow> InClusterIPPool" where
  "with_free n = demo_pool\<lparr>ip_status := Some \<lparr>Total = 4, Free = n, Used = 4 - n, OutOfRange = 0\<rparr>\<rparr>"

definition demo_controller :: "ref_world builder" where
  "demo_controller = projr (claim_controller ref_framework ref_kube [])"

lemma demo_controller: "claim_controller ref_framework ref_kube [] = Inr demo_controller"
proof -
  have "isl (claim_controller ref_framework ref_kube []) \<Longrightarrow> False"
    by (simp add: claim_controller_def ClaimReconciler_SetupWithManager_def ref_framework_def
        InClusterProviderAdapter_SetupWithManager_def)
  then show ?thesis unfolding demo_controller_def by (intro not_isl_projr) blast
qed

lemma demo_names:
  "ref_claim demo_world k = Some c \<Longrightarrow>
     CHR ''/'' \<notin> set (pr_group (ic_pool_ref c)) \<and> CHR ''/'' \<notin> set (pr_kind (ic_pool_ref c))"
  using lookup_key [of claim_key "rw_claims demo_world" k c, folded ref_claim_def]
  by (auto simp: demo_world_def demo_claim_def demo_ref_def ipam_group_def)

lemma pool_events_wake_claims_witness:
  "let q = AddressPool (NsPool (with_free 1));
       e = UpdateEvent (PoolObject (AddressPool (NsPool (with_free 0)))) (PoolObject q)
   in (''ns'', ''new'') \<in> fw_enqueued ref_framework demo_controller e demo_world
    \<and> fw_enqueued ref_framework demo_controller e demo_world =
    (if fw_ResourceNotPausedAndHasFilterLabel ref_framework [] e \<and> wakes ref_kube e
     then {k. \<exists>c. ref_claim demo_world k = Some c \<and> waits_for q k c} else {})"
  unfolding Let_def
proof (rule conjI)
  show "(''ns'', ''new'') \<in> fw_enqueued ref_framework demo_controller
      (UpdateEvent (PoolObject (AddressPool (NsPool (with_free 0))))
        (PoolObject (AddressPool (NsPool (with_free 1))))) demo_world"
    unfolding ref_framework_sel by code_simp
qed (rule pool_events_wake_claims [OF ref_framework.framework_laws_axioms
      ref_indexes.kube_indexes_axioms demo_controller _ demo_names];
    simp add: pool_event_def event_object_def with_free_def)

text \<open>C22: claim events. An event of a claim that passes the filter enqueues the claim itself if
  its pool reference has the group and one of the four kinds of the provider, and nothing
  otherwise; the controller runs one reconciliation at a time.\<close>

theorem claim_events_enqueue:
  fixes F :: "'w framework" and K :: "'w kube"
  assumes "framework_laws F" "kube_indexes K st_addr st_claim"
    and "claim_controller F K v = Inr b" "event_object e = ClaimObject c"
  shows "b_MaxConcurrentReconciles b = 1 \<and> fw_enqueued F b e w =
    (if fw_ResourceNotPausedAndHasFilterLabel F v e \<and> of_provider c then {claim_key c} else {})"
  using watched.claim_event_enqueues [OF watched.intro [OF assms(1,2)] assms(3,4)]
    claim_controller_built(3) [OF assms(3)] by simp

lemma claim_events_enqueue_witness:
  "let c = demo_claim ''new'' (demo_ref ''InClusterIPPool'' ''pool''); e = CreateEvent (ClaimObject c)
   in b_MaxConcurrentReconciles demo_controller = 1
    \<and> fw_enqueued ref_framework demo_controller e demo_world =
     (if fw_ResourceNotPausedAndHasFilterLabel ref_framework [] e \<and> of_provider c then {claim_key c} else {})"
  unfolding Let_def
  by (rule claim_events_enqueue [OF ref_framework.framework_laws_axioms ref_indexes.kube_indexes_axioms
        demo_controller]) (simp add: event_object_def)

text \<open>C23: cluster events wake all claims of the cluster. On an event of a cluster that passes
  the filter and does not leave the cluster paused (an update has to end the pause), the
  claims with this cluster name are enqueued: in every namespace, and also those that name a
  pool of another provider.\<close>

theorem cluster_events_enqueue:
  fixes F :: "'w framework" and K :: "'w kube"
  assumes "framework_laws F" "kube_indexes K st_addr st_claim"
    and "claim_controller F K v = Inr b" "cluster_event e n"
  shows "fw_enqueued F b e w =
    (if fw_ResourceNotPausedAndHasFilterLabel F v e \<and> cluster_wakes K e
     then {k. \<exists>c. st_claim w k = Some c \<and> n \<in> set (indexClusterName (ClaimObject c))} else {})"
  by (rule watched.cluster_event_enqueues [OF watched.intro [OF assms(1,2)] assms(3,4)])

text \<open>A claim of another provider, with a cluster.\<close>

definition foreign_claim :: ip_claim where
  "foreign_claim = \<lparr>ic_meta = demo_meta ''foreign'', ic_cluster_name = ''cluster'',
     ic_pool_ref = \<lparr>pr_group = ''ipam.example.org'', pr_kind = ''OtherPool'', pr_name = ''pool''\<rparr>,
     ic_address_ref = []\<rparr>"

definition demo_cluster :: cluster where
  "demo_cluster = \<lparr>cl_meta = demo_meta ''cluster'', cl_paused = None\<rparr>"

definition foreign_world :: ref_world where
  "foreign_world = demo_world\<lparr>rw_claims := [foreign_claim], rw_clusters := [demo_cluster]\<rparr>"

lemma cluster_events_enqueue_witness:
  "let e = CreateEvent (ClusterObject demo_cluster)
   in (''ns'', ''foreign'') \<in> fw_enqueued ref_framework demo_controller e foreign_world
    \<and> fw_enqueued ref_framework demo_controller e foreign_world =
    (if fw_ResourceNotPausedAndHasFilterLabel ref_framework [] e \<and> cluster_wakes ref_kube e
     then {k. \<exists>c. ref_claim foreign_world k = Some c \<and> ''cluster'' \<in> set (indexClusterName (ClaimObject c))}
     else {})"
  unfolding Let_def
proof (rule conjI)
  show "(''ns'', ''foreign'') \<in> fw_enqueued ref_framework demo_controller
      (CreateEvent (ClusterObject demo_cluster)) foreign_world"
    unfolding ref_framework_sel by code_simp
qed (rule cluster_events_enqueue [OF ref_framework.framework_laws_axioms ref_indexes.kube_indexes_axioms
      demo_controller], simp add: cluster_event_def demo_cluster_def demo_meta_def)



text \<open>C25: address events wake the pool. The four pool controllers enqueue, on an event of an
  address, the pool of their kind and of the provider's group that the address names, in the
  namespace of the address.\<close>

theorem address_events_enqueue:
  fixes F :: "'w framework"
  assumes "framework_laws F" "\<forall>x \<in> set (event_objects e). \<exists>a. x = AddressObject a"
    and "(kind, Inr b) \<in>
      {(inClusterIPPoolKind, InClusterIPPoolReconciler_SetupWithManager F),
       (globalInClusterIPPoolKind, GlobalInClusterIPPoolReconciler_SetupWithManager F),
       (inClusterPrefixPoolKind, InClusterPrefixPoolReconciler_SetupWithManager F),
       (globalInClusterPrefixPoolKind, GlobalInClusterPrefixPoolReconciler_SetupWithManager F)}"
  shows "r \<in> fw_enqueued F b e w \<longleftrightarrow> (\<exists>a. AddressObject a \<in> set (event_objects e)
    \<and> pr_group (ia_pool_ref a) = ipam_group \<and> pr_kind (ia_pool_ref a) = kind
    \<and> r = (om_namespace (ia_meta a), pr_name (ia_pool_ref a)))"
proof -
  obtain t where "pool_controller F t (address_to_pool kind) = Inr b" "t \<noteq> TAddress"
    using assms(3) by (auto simp: InClusterIPPoolReconciler_SetupWithManager_def
        GlobalInClusterIPPoolReconciler_SetupWithManager_def InClusterPrefixPoolReconciler_SetupWithManager_def
        GlobalInClusterPrefixPoolReconciler_SetupWithManager_def ipAddressToInClusterIPPool_def
        ipAddressToGlobalInClusterIPPool_def ipAddressToInClusterPrefixPool_def
        ipAddressToGlobalInClusterPrefixPool_def dest!: sym [of "Inr b"])
  then show ?thesis by (rule framework_laws.address_event_enqueues [OF assms(1)]) (rule assms(2))
qed

lemma address_events_enqueue_witness:
  "let a = demo_address ''old'' (demo_ref ''InClusterIPPool'' ''pool'') ''10.0.0.2'' 29;
       b = projr (InClusterIPPoolReconciler_SetupWithManager ref_framework);
       e = DeleteEvent (AddressObject a)
   in (''ns'', ''pool'') \<in> fw_enqueued ref_framework b e demo_world \<longleftrightarrow>
      (\<exists>a. AddressObject a \<in> set (event_objects e) \<and> pr_group (ia_pool_ref a) = ipam_group
        \<and> pr_kind (ia_pool_ref a) = inClusterIPPoolKind
        \<and> (''ns'', ''pool'') = (om_namespace (ia_meta a), pr_name (ia_pool_ref a)))"
  unfolding Let_def
  by (rule address_events_enqueue [OF ref_framework.framework_laws_axioms])
    (auto simp: InClusterIPPoolReconciler_SetupWithManager_def pool_controller_def ref_framework_def Let_def)

end
