(* ===== verification/Startup.thy ===== *)
theory Startup
  imports Wakeups
begin

text \<open>
  \<open>main.go\<close>, \<open>SetupIndexes\<close> of \<open>internal/index\<close> and the \<open>SetupWebhookWithManager\<close> functions of
  \<open>internal/webhooks\<close>: what the program sets up before it starts the manager, in the order of
  the code. The command line is parsed to the record \<open>flags\<close>. The functions of
  controller-runtime and of the Cluster API flags are a parameter, the record \<open>startup\<close>;
  \<open>None\<close> is a nil error. Logging and the registration of types in the scheme are left out.
\<close>

subsection \<open>Flags and options\<close>

text \<open>\<open>'o\<close>, \<open>'t\<close> and \<open>'m\<close>: the manager, TLS and metrics options of the Cluster API.\<close>

record 'o flags =
  managerOptions :: 'o
  probeAddr :: string
  enableLeaderElection :: bool
  leaderElectionNamespace :: string
  watchNamespace :: string
  watchFilter :: string
  webhookPort :: int
  webhookCertDir :: string
  webhookCertName :: string
  webhookKeyName :: string

text \<open>The flags that are not given have their defaults; \<open>port\<close> is \<open>webhook.DefaultPort\<close>.\<close>

definition default_flags :: "int \<Rightarrow> 'o \<Rightarrow> 'o flags" where
  "default_flags port opts = \<lparr>managerOptions = opts, probeAddr = '':8081'', enableLeaderElection = False,
     leaderElectionNamespace = '''', watchNamespace = '''', watchFilter = '''', webhookPort = port,
     webhookCertDir = '''', webhookCertName = '''', webhookKeyName = ''''\<rparr>"

record 't webhook_options =
  wo_Port :: int
  wo_CertDir :: string
  wo_CertName :: string
  wo_KeyName :: string
  wo_TLSOpts :: 't

text \<open>\<open>DefaultNamespaces\<close>: the namespaces of the cache, nil for all of them.\<close>

record ('t, 'm) ctrl_options =
  co_Metrics :: 'm
  co_HealthProbeBindAddress :: string
  co_LeaderElection :: bool
  co_LeaderElectionID :: string
  co_LeaderElectionNamespace :: string
  co_WebhookServer :: "'t webhook_options"
  co_DefaultNamespaces :: "string list option"

definition ctrl_options :: "'o flags \<Rightarrow> 't \<Rightarrow> 'm \<Rightarrow> ('t, 'm) ctrl_options" where
  "ctrl_options fl tlsOpts metricsOpts =
     \<lparr>co_Metrics = metricsOpts, co_HealthProbeBindAddress = probeAddr fl,
      co_LeaderElection = enableLeaderElection fl, co_LeaderElectionID = ''7bb7acb4.ipam.cluster.x-k8s.io'',
      co_LeaderElectionNamespace = leaderElectionNamespace fl,
      co_WebhookServer = \<lparr>wo_Port = webhookPort fl, wo_CertDir = webhookCertDir fl,
        wo_CertName = webhookCertName fl, wo_KeyName = webhookKeyName fl, wo_TLSOpts = tlsOpts\<rparr>,
      co_DefaultNamespaces = (if watchNamespace fl \<noteq> '''' then Some [watchNamespace fl] else None)\<rparr>"

subsection \<open>The manager\<close>

datatype webhook_adapter =
    inClusterIPPoolAdapter | globalInClusterIPPoolAdapter
  | inClusterPrefixPoolAdapter | globalInClusterPrefixPoolAdapter

record webhook_builder =
  wb_For :: object_type
  wb_Defaulter :: webhook_adapter
  wb_Validator :: webhook_adapter

record ('t, 'm, 'w) manager =
  mg_Options :: "('t, 'm) ctrl_options"
  mg_Indexes :: "(object_type \<times> string) list"
  mg_Controllers :: "'w builder list"
  mg_Webhooks :: "webhook_builder list"
  mg_Healthz :: "string list"
  mg_Readyz :: "string list"

record ('o, 't, 'm, 'w) startup =
  su_GetManagerOptions :: "'o \<Rightarrow> error + 't \<times> 'm"
  su_NewManager :: "('t, 'm) ctrl_options \<Rightarrow> error option"
  su_IndexField :: "object_type \<Rightarrow> string \<Rightarrow> (api_object \<Rightarrow> string list outcome) \<Rightarrow> error option"
  su_WebhookComplete :: "webhook_builder \<Rightarrow> error option"
  su_AddHealthzCheck :: "string \<Rightarrow> error option"
  su_AddReadyzCheck :: "string \<Rightarrow> error option"
  su_Start :: "('t, 'm, 'w) manager \<Rightarrow> error option"

text \<open>A call that returns an error, and what is known after it when the error is nil.\<close>

primrec returned :: "error option \<Rightarrow> 'a \<Rightarrow> error + 'a" where
  "returned None x = Inr x"
| "returned (Some e) x = Inl e"

lemma returned_Inr [simp]: "returned r x = Inr y \<longleftrightarrow> r = None \<and> y = x"
  by (cases r) auto

definition SetupIndexes :: "('o, 't, 'm, 'w) startup \<Rightarrow> error + (object_type \<times> string) list" where
  "SetupIndexes S =
     sum_bind (returned (su_IndexField S TAddress IPAddressPoolRefCombinedField IPAddressByCombinedPoolRef) ())
       (\<lambda>_. returned (su_IndexField S TClaim IPAddressClaimPoolRefCombinedField ipAddressClaimByCombinedPoolRef)
         [(TAddress, IPAddressPoolRefCombinedField), (TClaim, IPAddressClaimPoolRefCombinedField)])"

definition webhook_managed_by ::
  "('o, 't, 'm, 'w) startup \<Rightarrow> object_type \<Rightarrow> webhook_adapter \<Rightarrow> error + webhook_builder" where
  "webhook_managed_by S t a =
     (let b = \<lparr>wb_For = t, wb_Defaulter = a, wb_Validator = a\<rparr> in returned (su_WebhookComplete S b) b)"

definition InClusterIPPool_SetupWebhookWithManager :: "('o, 't, 'm, 'w) startup \<Rightarrow> error + webhook_builder list" where
  "InClusterIPPool_SetupWebhookWithManager S =
     sum_bind (webhook_managed_by S TInClusterIPPool inClusterIPPoolAdapter) (\<lambda>a.
     sum_bind (webhook_managed_by S TGlobalInClusterIPPool globalInClusterIPPoolAdapter) (\<lambda>b. Inr [a, b]))"

definition InClusterPrefixPool_SetupWebhookWithManager :: "('o, 't, 'm, 'w) startup \<Rightarrow> error + webhook_builder list" where
  "InClusterPrefixPool_SetupWebhookWithManager S =
     sum_bind (webhook_managed_by S TInClusterPrefixPool inClusterPrefixPoolAdapter) (\<lambda>a.
     sum_bind (webhook_managed_by S TGlobalInClusterPrefixPool globalInClusterPrefixPoolAdapter) (\<lambda>b. Inr [a, b]))"

definition setup_controllers :: "'w framework \<Rightarrow> 'w kube \<Rightarrow> string \<Rightarrow> error + 'w builder list" where
  "setup_controllers F K filterValue =
     sum_bind (claim_controller F K filterValue) (\<lambda>claims.
     sum_bind (InClusterIPPoolReconciler_SetupWithManager F) (\<lambda>pools.
     sum_bind (GlobalInClusterIPPoolReconciler_SetupWithManager F) (\<lambda>global_pools.
     sum_bind (InClusterPrefixPoolReconciler_SetupWithManager F) (\<lambda>prefix_pools.
     sum_bind (GlobalInClusterPrefixPoolReconciler_SetupWithManager F) (\<lambda>global_prefix_pools.
       Inr [claims, pools, global_pools, prefix_pools, global_prefix_pools])))))"

definition setup_webhooks :: "('o, 't, 'm, 'w) startup \<Rightarrow> int \<Rightarrow> error + webhook_builder list" where
  "setup_webhooks S port =
     (if port \<noteq> 0 then
        sum_bind (InClusterIPPool_SetupWebhookWithManager S) (\<lambda>as.
        sum_bind (InClusterPrefixPool_SetupWebhookWithManager S) (\<lambda>bs. Inr (as @ bs)))
      else Inr [])"

definition setup_manager ::
  "'w framework \<Rightarrow> 'w kube \<Rightarrow> ('o, 't, 'm, 'w) startup \<Rightarrow> 'o flags \<Rightarrow> error + ('t, 'm, 'w) manager" where
  "setup_manager F K S fl =
     sum_bind (su_GetManagerOptions S (managerOptions fl)) (\<lambda>(tlsOpts, metricsOpts).
     let opts = ctrl_options fl tlsOpts metricsOpts in
     sum_bind (returned (su_NewManager S opts) ()) (\<lambda>_.
     sum_bind (SetupIndexes S) (\<lambda>indexes.
     sum_bind (setup_controllers F K (watchFilter fl)) (\<lambda>controllers.
     sum_bind (setup_webhooks S (webhookPort fl)) (\<lambda>webhooks.
     sum_bind (returned (su_AddHealthzCheck S ''healthz'') ()) (\<lambda>_.
     returned (su_AddReadyzCheck S ''readyz'')
       \<lparr>mg_Options = opts, mg_Indexes = indexes, mg_Controllers = controllers, mg_Webhooks = webhooks,
        mg_Healthz = [''healthz''], mg_Readyz = [''readyz'']\<rparr>))))))"

text \<open>The exit status, and the manager if it was started.\<close>

definition main :: "'w framework \<Rightarrow> 'w kube \<Rightarrow> ('o, 't, 'm, 'w) startup \<Rightarrow> 'o flags \<Rightarrow>
    int \<times> ('t, 'm, 'w) manager option" where
  "main F K S fl =
     (case setup_manager F K S fl of
        Inl e \<Rightarrow> (1, None)
      | Inr mgr \<Rightarrow> (case su_Start S mgr of Some e \<Rightarrow> (1, Some mgr) | None \<Rightarrow> (0, Some mgr)))"

subsection \<open>What is running\<close>

fun adapter_for :: "object_type \<Rightarrow> webhook_adapter option" where
  "adapter_for TInClusterIPPool = Some inClusterIPPoolAdapter"
| "adapter_for TGlobalInClusterIPPool = Some globalInClusterIPPoolAdapter"
| "adapter_for TInClusterPrefixPool = Some inClusterPrefixPoolAdapter"
| "adapter_for TGlobalInClusterPrefixPool = Some globalInClusterPrefixPoolAdapter"
| "adapter_for _ = None"

lemma started:
  "main F K S fl = (code, Some m) \<longleftrightarrow>
     setup_manager F K S fl = Inr m \<and> code = (if su_Start S m = None then 0 else 1)"
  by (auto simp: main_def split: sum.splits option.splits)

lemma webhook_managed_by_Inr: "webhook_managed_by S t a = Inr b \<longleftrightarrow>
    su_WebhookComplete S b = None \<and> b = \<lparr>wb_For = t, wb_Defaulter = a, wb_Validator = a\<rparr>"
  by (auto simp: webhook_managed_by_def Let_def)

lemma setup_manager_Inr:
  assumes "setup_manager F K S fl = Inr m"
  shows "setup_controllers F K (watchFilter fl) = Inr (mg_Controllers m)"
    "setup_webhooks S (webhookPort fl) = Inr (mg_Webhooks m)"
    "SetupIndexes S = Inr (mg_Indexes m)"
  using assms by (auto simp: setup_manager_def sum_bind_Inr_iff Let_def)

lemma setup_webhooks_Inr:
  assumes "setup_webhooks S port = Inr ws"
  shows "ws = (if port = 0 then [] else map (\<lambda>(t, a). \<lparr>wb_For = t, wb_Defaulter = a, wb_Validator = a\<rparr>)
    [(TInClusterIPPool, inClusterIPPoolAdapter), (TGlobalInClusterIPPool, globalInClusterIPPoolAdapter),
     (TInClusterPrefixPool, inClusterPrefixPoolAdapter),
     (TGlobalInClusterPrefixPool, globalInClusterPrefixPoolAdapter)])"
proof (cases "port = 0")
  case True
  then show ?thesis using assms by (simp add: setup_webhooks_def)
next
  case False
  then obtain as bs where "InClusterIPPool_SetupWebhookWithManager S = Inr as"
      "InClusterPrefixPool_SetupWebhookWithManager S = Inr bs" "ws = as @ bs"
    using assms by (auto simp: setup_webhooks_def sum_bind_Inr_iff)
  moreover from this(1) have "as = [\<lparr>wb_For = TInClusterIPPool, wb_Defaulter = inClusterIPPoolAdapter,
      wb_Validator = inClusterIPPoolAdapter\<rparr>, \<lparr>wb_For = TGlobalInClusterIPPool,
      wb_Defaulter = globalInClusterIPPoolAdapter, wb_Validator = globalInClusterIPPoolAdapter\<rparr>]"
    unfolding InClusterIPPool_SetupWebhookWithManager_def sum_bind_Inr_iff webhook_managed_by_Inr by blast
  moreover from calculation(2) have "bs = [\<lparr>wb_For = TInClusterPrefixPool, wb_Defaulter = inClusterPrefixPoolAdapter,
      wb_Validator = inClusterPrefixPoolAdapter\<rparr>, \<lparr>wb_For = TGlobalInClusterPrefixPool,
      wb_Defaulter = globalInClusterPrefixPoolAdapter, wb_Validator = globalInClusterPrefixPoolAdapter\<rparr>]"
    unfolding InClusterPrefixPool_SetupWebhookWithManager_def sum_bind_Inr_iff webhook_managed_by_Inr by blast
  ultimately show ?thesis using False by simp
qed

lemma setup_controllers_Inr:
  assumes "setup_controllers F K v = Inr cs"
  obtains b where "claim_controller F K v = Inr b" "b \<in> set cs"
  using assms by (auto simp: setup_controllers_def sum_bind_Inr_iff)

text \<open>One of the pool controllers is for the type of the pool, and lets every event pass.\<close>

lemma setup_pool_controller:
  assumes "setup_controllers F K v = Inr cs"
  obtains b where "b \<in> set cs" "b_For b = Some (pool_type q, all_events)" "b_EventFilters b = []"
proof -
  have built: "b_For b = Some (t, all_events) \<and> b_EventFilters b = []" if "pool_controller F t f = Inr b" for t f b
    using that by (auto simp: pool_controller_def NewControllerManagedBy_def Let_def split: option.splits)
  note pools = InClusterIPPoolReconciler_SetupWithManager_def GlobalInClusterIPPoolReconciler_SetupWithManager_def
    InClusterPrefixPoolReconciler_SetupWithManager_def GlobalInClusterPrefixPoolReconciler_SetupWithManager_def
  obtain c p g pp gp where cs: "cs = [c, p, g, pp, gp]"
      and ok: "InClusterIPPoolReconciler_SetupWithManager F = Inr p"
        "GlobalInClusterIPPoolReconciler_SetupWithManager F = Inr g"
        "InClusterPrefixPoolReconciler_SetupWithManager F = Inr pp"
        "GlobalInClusterPrefixPoolReconciler_SetupWithManager F = Inr gp"
    using assms by (auto simp: setup_controllers_def sum_bind_Inr_iff)
  note ok [unfolded pools, THEN built]
  then show ?thesis using that cs by (cases q rule: pool_type.cases) auto
qed

text \<open>A machine on which every call succeeds.\<close>

definition ref_startup :: "(unit, unit, unit, ref_world) startup" where
  "ref_startup = \<lparr>su_GetManagerOptions = (\<lambda>opts. Inr ((), ())), su_NewManager = (\<lambda>opts. None),
     su_IndexField = (\<lambda>t f i. None), su_WebhookComplete = (\<lambda>b. None), su_AddHealthzCheck = (\<lambda>n. None),
     su_AddReadyzCheck = (\<lambda>n. None), su_Start = (\<lambda>m. None)\<rparr>"

definition demo_main :: "int \<times> (unit, unit, ref_world) manager option" where
  "demo_main = main ref_framework ref_kube ref_startup (default_flags 9443 ())"

lemma demo_main: "demo_main = (0, Some (the (snd demo_main)))"
  by (simp add: demo_main_def main_def setup_manager_def ref_startup_def Let_def SetupIndexes_def
      setup_controllers_def setup_webhooks_def InClusterIPPool_SetupWebhookWithManager_def
      InClusterPrefixPool_SetupWebhookWithManager_def webhook_managed_by_def demo_controller
      InClusterIPPoolReconciler_SetupWithManager_def GlobalInClusterIPPoolReconciler_SetupWithManager_def
      InClusterPrefixPoolReconciler_SetupWithManager_def GlobalInClusterPrefixPoolReconciler_SetupWithManager_def
      pool_controller_def ref_framework_def default_flags_def demo_controller [unfolded ref_framework_def])

text \<open>C26: the program serves every pool. Once main has started the manager, a controller of the
  pool's type enqueues it on every event about it, the claim controller runs with the filter
  of the flags, both indexes by pool reference are in the cache, and the admission webhooks
  are exactly the four adapters, each for its own type, or none if the port of the webhooks
  is 0.\<close>

theorem started_manager_serves_pools:
  fixes F :: "'w framework"
  assumes "framework_laws F" "main F K S fl = (code, Some m)" "pool_event e q"
  shows "(\<exists>b \<in> set (mg_Controllers m). object_key (PoolObject q) \<in> fw_enqueued F b e w)
    \<and> (\<exists>b \<in> set (mg_Controllers m). claim_controller F K (watchFilter fl) = Inr b)
    \<and> set (mg_Indexes m) = {(TAddress, IPAddressPoolRefCombinedField), (TClaim, IPAddressClaimPoolRefCombinedField)}
    \<and> (\<forall>v. v \<in> set (mg_Webhooks m) \<and> wb_For v = pool_type q \<longleftrightarrow>
        webhookPort fl \<noteq> 0 \<and> adapter_for (pool_type q) = Some (wb_Validator v)
          \<and> wb_Defaulter v = wb_Validator v \<and> wb_For v = pool_type q)"
proof (intro conjI)
  have up: "setup_manager F K S fl = Inr m" using assms(2) by (simp add: started)
  note parts = setup_manager_Inr [OF up]
  obtain b where b: "b \<in> set (mg_Controllers m)" "b_For b = Some (pool_type q, all_events)" "b_EventFilters b = []"
    by (rule setup_pool_controller [OF parts(1)])
  have "event_object e = PoolObject q" using assms(3) by (simp add: pool_event_def)
  then have "object_key (PoolObject q) \<in> fw_enqueued F b e w"
    using framework_laws.enqueued [OF assms(1), of _ b e w] b(2,3) by (simp add: all_events_def)
  then show "\<exists>b \<in> set (mg_Controllers m). object_key (PoolObject q) \<in> fw_enqueued F b e w"
    using b(1) by blast
  show "\<exists>b \<in> set (mg_Controllers m). claim_controller F K (watchFilter fl) = Inr b"
    using setup_controllers_Inr [OF parts(1)] by blast
  show "set (mg_Indexes m) = {(TAddress, IPAddressPoolRefCombinedField), (TClaim, IPAddressClaimPoolRefCombinedField)}"
    using parts(3) by (auto simp: SetupIndexes_def sum_bind_Inr_iff)
  have "mg_Webhooks m = (if webhookPort fl = 0 then [] else map (\<lambda>(t, a). \<lparr>wb_For = t, wb_Defaulter = a, wb_Validator = a\<rparr>)
    [(TInClusterIPPool, inClusterIPPoolAdapter), (TGlobalInClusterIPPool, globalInClusterIPPoolAdapter),
     (TInClusterPrefixPool, inClusterPrefixPoolAdapter), (TGlobalInClusterPrefixPool, globalInClusterPrefixPoolAdapter)])"
    by (rule setup_webhooks_Inr [OF parts(2)])
  then show "\<forall>v. v \<in> set (mg_Webhooks m) \<and> wb_For v = pool_type q \<longleftrightarrow>
        webhookPort fl \<noteq> 0 \<and> adapter_for (pool_type q) = Some (wb_Validator v)
          \<and> wb_Defaulter v = wb_Validator v \<and> wb_For v = pool_type q"
    by (cases q rule: pool_type.cases) auto
qed

lemma started_manager_serves_pools_witness:
  "let m = the (snd demo_main); q = AddressPool (NsPool demo_pool)
   in (\<exists>b \<in> set (mg_Controllers m).
        object_key (PoolObject q) \<in> fw_enqueued ref_framework b (CreateEvent (PoolObject q)) demo_world)
    \<and> \<lparr>wb_For = TInClusterIPPool, wb_Defaulter = inClusterIPPoolAdapter, wb_Validator = inClusterIPPoolAdapter\<rparr>
        \<in> set (mg_Webhooks m)"
proof -
  let ?q = "AddressPool (NsPool demo_pool)"
  have "pool_event (CreateEvent (PoolObject ?q)) ?q" by (simp add: pool_event_def event_object_def)
  from started_manager_serves_pools [OF ref_framework.framework_laws_axioms
      demo_main [unfolded demo_main_def] this, of demo_world]
  show ?thesis unfolding Let_def demo_main_def [symmetric] by (auto simp: default_flags_def)
qed

end
