(* ===== verification/Memory.thy ===== *)
theory Memory
  imports ApiTypes
begin

text \<open>
  Memory with sharing, for the deep copies of the API types: a heap of cells, copiers over
  it, and their composition. A copier is good if its result has the value of its argument,
  lies in memory that was not in use, and leaves the memory in use as it was.
\<close>

declare split_paired_All [simp del] split_paired_Ex [simp del]

subsection \<open>Heaps\<close>

text \<open>Cells from \<open>hp_next\<close> on are not in use.\<close>

record 'c heap =
  hp_next :: nat
  hp_cells :: "nat \<Rightarrow> 'c option"

definition heap_ok :: "'c heap \<Rightarrow> bool" where
  "heap_ok h \<longleftrightarrow> (\<forall>r \<ge> hp_next h. hp_cells h r = None)"

definition extends :: "'c heap \<Rightarrow> 'c heap \<Rightarrow> bool" where
  "extends h h' \<longleftrightarrow> hp_next h \<le> hp_next h' \<and> (\<forall>r < hp_next h. hp_cells h' r = hp_cells h r)"

definition mem_alloc :: "'c \<Rightarrow> 'c heap \<Rightarrow> nat \<times> 'c heap" where
  "mem_alloc c h =
     (hp_next h, h\<lparr>hp_next := Suc (hp_next h), hp_cells := (hp_cells h)(hp_next h \<mapsto> c)\<rparr>)"

lemma extends_refl [simp]: "extends h h"
  by (simp add: extends_def)

lemma extends_trans: "extends h h' \<Longrightarrow> extends h' h'' \<Longrightarrow> extends h h''"
  by (auto simp: extends_def)

lemma alloc_facts:
  assumes "heap_ok h" "mem_alloc c h = (r, h')"
  shows "heap_ok h'" "extends h h'" "r = hp_next h" "hp_next h' = Suc r" "hp_cells h' r = Some c"
    "\<And>q. q \<noteq> r \<Longrightarrow> hp_cells h' q = hp_cells h q"
  using assms by (auto simp: mem_alloc_def heap_ok_def extends_def)

subsection \<open>Computations with a heap\<close>

text \<open>\<open>None\<close>: an access to memory that is not there or has another type.\<close>

type_synonym ('a, 'c) mem = "'c heap \<Rightarrow> ('a \<times> 'c heap) option"

definition mem_return :: "'a \<Rightarrow> ('a, 'c) mem" where
  "mem_return x h = Some (x, h)"

definition mem_bind :: "('a, 'c) mem \<Rightarrow> ('a \<Rightarrow> ('b, 'c) mem) \<Rightarrow> ('b, 'c) mem" where
  "mem_bind m f h = (case m h of None \<Rightarrow> None | Some (x, h') \<Rightarrow> f x h')"

definition mem_new :: "'c \<Rightarrow> (nat, 'c) mem" where
  "mem_new c h = Some (mem_alloc c h)"

definition mem_read :: "('c \<Rightarrow> 'a option) \<Rightarrow> nat \<Rightarrow> ('a, 'c) mem" where
  "mem_read sel r h = (case Option.bind (hp_cells h r) sel of None \<Rightarrow> None | Some x \<Rightarrow> Some (x, h))"

lemma mem_bind_assoc: "mem_bind (mem_bind m f) g = mem_bind m (\<lambda>x. mem_bind (f x) g)"
  by (auto simp: mem_bind_def fun_eq_iff split: option.splits)

lemma mem_bind_return [simp]: "mem_bind (mem_return x) f = f x" "mem_bind m mem_return = m"
  by (auto simp: mem_bind_def mem_return_def fun_eq_iff split: option.splits)

subsection \<open>Copiers\<close>

text \<open>
  \<open>val h x\<close> is what \<open>x\<close> stands for in the heap, \<open>None\<close> if it is dangling; \<open>refs h x\<close> are
  the cells it reaches.
\<close>

definition deep_copies :: "('c heap \<Rightarrow> 'a \<Rightarrow> 'v option) \<Rightarrow> ('c heap \<Rightarrow> 'a \<Rightarrow> nat set) \<Rightarrow>
    ('a \<Rightarrow> ('a, 'c) mem) \<Rightarrow> bool" where
  "deep_copies val refs copy \<longleftrightarrow> (\<forall>h x v. heap_ok h \<and> val h x = Some v \<longrightarrow>
     (\<exists>y h'. copy x h = Some (y, h') \<and> val h' y = Some v
        \<and> heap_ok h' \<and> extends h h' \<and> refs h' y \<subseteq> {hp_next h ..< hp_next h'}))"

text \<open>
  What a caller of a deep copy relies on: the copy has the same value, shares no cell with
  the original, and no change of the cells of the copy changes the original.
\<close>

definition copies_apart :: "('c heap \<Rightarrow> 'a \<Rightarrow> 'v option) \<Rightarrow> ('c heap \<Rightarrow> 'a \<Rightarrow> nat set) \<Rightarrow>
    ('a \<Rightarrow> ('a, 'c) mem) \<Rightarrow> bool" where
  "copies_apart val refs copy \<longleftrightarrow> (\<forall>h x v. heap_ok h \<and> val h x = Some v \<longrightarrow>
     (\<exists>y h'. copy x h = Some (y, h') \<and> val h' y = Some v \<and> refs h' x \<inter> refs h' y = {}
        \<and> (\<forall>g. (\<forall>r. r \<notin> refs h' y \<longrightarrow> hp_cells g r = hp_cells h' r) \<longrightarrow> val g x = Some v)))"

locale copier =
  fixes val :: "'c heap \<Rightarrow> 'a \<Rightarrow> 'v option"
    and refs :: "'c heap \<Rightarrow> 'a \<Rightarrow> nat set"
    and copy :: "'a \<Rightarrow> ('a, 'c) mem"
  assumes copies: "deep_copies val refs copy"
    and frame: "val h x = Some v \<Longrightarrow> (\<forall>r \<in> refs h x. hp_cells h' r = hp_cells h r) \<Longrightarrow>
      val h' x = Some v \<and> refs h' x = refs h x"
    and in_use: "heap_ok h \<Longrightarrow> val h x = Some v \<Longrightarrow> refs h x \<subseteq> {..<hp_next h}"
begin

lemma copyE:
  assumes "heap_ok h" "val h x = Some v"
  obtains y h' where "copy x h = Some (y, h')" "val h' y = Some v" "heap_ok h'" "extends h h'"
    "refs h' y \<subseteq> {hp_next h ..< hp_next h'}"
  using copies assms unfolding deep_copies_def by blast

text \<open>What is in use keeps its value when memory is added.\<close>

lemma kept:
  assumes "heap_ok h" "val h x = Some v" "extends h h'"
  shows "val h' x = Some v" "refs h' x = refs h x"
proof -
  have "\<forall>r \<in> refs h x. hp_cells h' r = hp_cells h r"
    using in_use [OF assms(1,2)] assms(3) unfolding extends_def by blast
  with frame [OF assms(2)] show "val h' x = Some v" "refs h' x = refs h x" by blast+
qed

text \<open>The original keeps its value, also when the memory of the copy changes.\<close>

lemma independent:
  assumes "heap_ok h" "val h x = Some v" "copy x h = Some (y, h')"
    and "\<forall>r. r \<notin> refs h' y \<longrightarrow> hp_cells h'' r = hp_cells h' r"
  shows "val h'' x = Some v"
proof -
  obtain z g where "copy x h = Some (z, g)" "extends h g" "refs g z \<subseteq> {hp_next h ..< hp_next g}"
    by (rule copyE [OF assms(1,2)])
  then have ext: "extends h h'" "refs h' y \<subseteq> {hp_next h ..< hp_next h'}" using assms(3) by simp_all
  have "\<forall>r \<in> refs h x. hp_cells h'' r = hp_cells h r"
  proof
    fix r assume r: "r \<in> refs h x"
    then have "r < hp_next h" using in_use [OF assms(1,2)] by blast
    then have "r \<notin> refs h' y" "hp_cells h' r = hp_cells h r"
      using ext by (auto simp: extends_def)
    then show "hp_cells h'' r = hp_cells h r" using assms(4) by simp
  qed
  with frame [OF assms(2)] show ?thesis by blast
qed

lemma apart: "copies_apart val refs copy"
  unfolding copies_apart_def
proof (intro allI impI, elim conjE)
  fix h x v assume x: "heap_ok h" "val h x = Some v"
  obtain y h' where y: "copy x h = Some (y, h')" "val h' y = Some v" "extends h h'"
      "refs h' y \<subseteq> {hp_next h ..< hp_next h'}"
    by (rule copyE [OF x])
  have "refs h' x \<inter> refs h' y = {}" using kept(2) [OF x y(3)] in_use [OF x] y(4) by fastforce
  moreover have "\<forall>g. (\<forall>r. r \<notin> refs h' y \<longrightarrow> hp_cells g r = hp_cells h' r) \<longrightarrow> val g x = Some v"
    using independent [OF x y(1)] by blast
  ultimately show "\<exists>y h'. copy x h = Some (y, h') \<and> val h' y = Some v \<and> refs h' x \<inter> refs h' y = {}
      \<and> (\<forall>g. (\<forall>r. r \<notin> refs h' y \<longrightarrow> hp_cells g r = hp_cells h' r) \<longrightarrow> val g x = Some v)"
    using y(1,2) by blast
qed

end

subsection \<open>Values without pointers\<close>

definition copy_plain :: "'a \<Rightarrow> ('a, 'c) mem" where
  "copy_plain x = mem_return x"

lemma copier_plain: "copier (\<lambda>h. Some) (\<lambda>h x. {}) copy_plain"
  by unfold_locales (auto simp: deep_copies_def copy_plain_def mem_return_def)

subsection \<open>Pairs and structs\<close>

definition copy_pair :: "('a \<Rightarrow> ('a, 'c) mem) \<Rightarrow> ('b \<Rightarrow> ('b, 'c) mem) \<Rightarrow> 'a \<times> 'b \<Rightarrow> ('a \<times> 'b, 'c) mem" where
  "copy_pair f g p = mem_bind (f (fst p)) (\<lambda>x. mem_bind (g (snd p)) (\<lambda>y. mem_return (x, y)))"

definition pair_value :: "('h \<Rightarrow> 'a \<Rightarrow> 'v option) \<Rightarrow> ('h \<Rightarrow> 'b \<Rightarrow> 'w option) \<Rightarrow> 'h \<Rightarrow> 'a \<times> 'b \<Rightarrow> ('v \<times> 'w) option" where
  "pair_value V W h p = Option.bind (V h (fst p)) (\<lambda>v. map_option (Pair v) (W h (snd p)))"

definition pair_refs :: "('h \<Rightarrow> 'a \<Rightarrow> nat set) \<Rightarrow> ('h \<Rightarrow> 'b \<Rightarrow> nat set) \<Rightarrow> 'h \<Rightarrow> 'a \<times> 'b \<Rightarrow> nat set" where
  "pair_refs R S h p = R h (fst p) \<union> S h (snd p)"

lemma pair_value_Some:
  "pair_value V W h p = Some v \<longleftrightarrow> V h (fst p) = Some (fst v) \<and> W h (snd p) = Some (snd v)"
  by (cases v) (auto simp: pair_value_def bind_eq_Some_conv)

locale two_copiers = A: copier V R f + B: copier W S g
  for V :: "'c heap \<Rightarrow> 'a \<Rightarrow> 'v option" and R f
    and W :: "'c heap \<Rightarrow> 'b \<Rightarrow> 'w option" and S g
begin

lemma pair_copies: "deep_copies (pair_value V W) (pair_refs R S) (copy_pair f g)"
  unfolding deep_copies_def
proof (intro allI impI, elim conjE)
  fix h p v assume ok: "heap_ok h" and v: "pair_value V W h p = Some v"
  obtain x h1 where x: "f (fst p) h = Some (x, h1)" "V h1 x = Some (fst v)" "heap_ok h1" "extends h h1"
      "R h1 x \<subseteq> {hp_next h ..< hp_next h1}"
    using A.copyE [OF ok, of "fst p" "fst v"] v by (auto simp: pair_value_Some)
  have "W h (snd p) = Some (snd v)" using v by (simp add: pair_value_Some)
  note kept = B.kept [OF ok this x(4)]
  obtain y h2 where y: "g (snd p) h1 = Some (y, h2)" "W h2 y = Some (snd v)" "heap_ok h2" "extends h1 h2"
      "S h2 y \<subseteq> {hp_next h1 ..< hp_next h2}"
    by (rule B.copyE [OF x(3) kept(1)])
  note x' = A.kept [OF x(3,2) y(4)]
  have nxt: "hp_next h \<le> hp_next h1" "hp_next h1 \<le> hp_next h2" using x(4) y(4) by (simp_all add: extends_def)
  have "copy_pair f g p h = Some ((x, y), h2)"
    using x(1) y(1) by (simp add: copy_pair_def mem_bind_def mem_return_def)
  moreover have "pair_value V W h2 (x, y) = Some v" using x'(1) y(2) by (simp add: pair_value_Some)
  moreover have "pair_refs R S h2 (x, y) \<subseteq> {hp_next h ..< hp_next h2}"
    using x'(2) x(5) y(5) nxt by (auto simp: pair_refs_def subset_iff)
  ultimately show "\<exists>q h'. copy_pair f g p h = Some (q, h') \<and> pair_value V W h' q = Some v \<and> heap_ok h'
      \<and> extends h h' \<and> pair_refs R S h' q \<subseteq> {hp_next h ..< hp_next h'}"
    using y(3) extends_trans [OF x(4) y(4)] by blast
qed

end

sublocale two_copiers \<subseteq> pair: copier "pair_value V W" "pair_refs R S" "copy_pair f g"
proof unfold_locales
  show "deep_copies (pair_value V W) (pair_refs R S) (copy_pair f g)" by (rule pair_copies)
  show "pair_value V W h' p = Some v \<and> pair_refs R S h' p = pair_refs R S h p"
    if "pair_value V W h p = Some v" "\<forall>r \<in> pair_refs R S h p. hp_cells h' r = hp_cells h r" for h p v h'
    using that A.frame [of h "fst p" "fst v" h'] B.frame [of h "snd p" "snd v" h']
    by (auto simp: pair_value_Some pair_refs_def)
  show "pair_refs R S h p \<subseteq> {..<hp_next h}" if "heap_ok h" "pair_value V W h p = Some v" for h p v
    using that A.in_use [of h "fst p" "fst v"] B.in_use [of h "snd p" "snd v"]
    by (auto simp: pair_value_Some pair_refs_def)
qed

context two_copiers
begin

lemma pair_copier: "copier (pair_value V W) (pair_refs R S) (copy_pair f g)"
  by unfold_locales

end

lemmas copier_pair = two_copiers.pair_copier [OF two_copiers.intro]

text \<open>
  A struct: the part \<open>part s\<close> of its fields is copied deeply, the others are kept; the value
  is built from the fields that are kept and the value of the part.
\<close>

definition struct_copy :: "('s \<Rightarrow> 'a) \<Rightarrow> ('s \<Rightarrow> 'a \<Rightarrow> 's) \<Rightarrow> ('a \<Rightarrow> ('a, 'c) mem) \<Rightarrow> 's \<Rightarrow> ('s, 'c) mem" where
  "struct_copy part put f s = mem_bind (f (part s)) (\<lambda>x. mem_return (put s x))"

locale struct_copier = copier V R f for V :: "'c heap \<Rightarrow> 'a \<Rightarrow> 'v option" and R f +
  fixes part :: "'s \<Rightarrow> 'a" and put :: "'s \<Rightarrow> 'a \<Rightarrow> 's" and build :: "'s \<Rightarrow> 'v \<Rightarrow> 'w"
  assumes part_put: "part (put s x) = x" and build_put: "build (put s x) v = build s v"

sublocale struct_copier \<subseteq> struct: copier "\<lambda>h s. map_option (build s) (V h (part s))" "\<lambda>h s. R h (part s)"
  "struct_copy part put f"
proof unfold_locales
  show "deep_copies (\<lambda>h s. map_option (build s) (V h (part s))) (\<lambda>h s. R h (part s)) (struct_copy part put f)"
    unfolding deep_copies_def
  proof (intro allI impI, elim conjE)
    fix h s w assume ok: "heap_ok h" and "map_option (build s) (V h (part s)) = Some w"
    then obtain v where v: "V h (part s) = Some v" "w = build s v" by auto
    obtain x h' where x: "f (part s) h = Some (x, h')" "V h' x = Some v" "heap_ok h'" "extends h h'"
        "R h' x \<subseteq> {hp_next h ..< hp_next h'}"
      by (rule copyE [OF ok v(1)])
    then have "struct_copy part put f s h = Some (put s x, h')"
      by (simp add: struct_copy_def mem_bind_def mem_return_def)
    with x v(2) show "\<exists>y h'. struct_copy part put f s h = Some (y, h')
        \<and> map_option (build y) (V h' (part y)) = Some w \<and> heap_ok h' \<and> extends h h'
        \<and> R h' (part y) \<subseteq> {hp_next h ..< hp_next h'}"
      by (intro exI [of _ "put s x"] exI [of _ h']) (simp add: part_put build_put)
  qed
  show "map_option (build s) (V h' (part s)) = Some w \<and> R h' (part s) = R h (part s)"
    if "map_option (build s) (V h (part s)) = Some w" "\<forall>r \<in> R h (part s). hp_cells h' r = hp_cells h r"
    for h s w h'
    using that frame [of h "part s" _ h'] by auto
  show "R h (part s) \<subseteq> {..<hp_next h}" if "heap_ok h" "map_option (build s) (V h (part s)) = Some w" for h s w
    using that in_use [of h "part s"] by auto
qed

context struct_copier
begin

lemma struct_is_copier: "copier (\<lambda>h s. map_option (build s) (V h (part s))) (\<lambda>h s. R h (part s)) (struct_copy part put f)"
  by unfold_locales

end

lemmas copier_struct = struct_copier.struct_is_copier [OF struct_copier.intro [OF _ struct_copier_axioms.intro]]

subsection \<open>Lists, pointers and slices\<close>

fun copy_list :: "('a \<Rightarrow> ('a, 'c) mem) \<Rightarrow> 'a list \<Rightarrow> ('a list, 'c) mem" where
  "copy_list f [] = mem_return []"
| "copy_list f (x # xs) = mem_bind (f x) (\<lambda>y. mem_bind (copy_list f xs) (\<lambda>ys. mem_return (y # ys)))"

fun list_value :: "('h \<Rightarrow> 'a \<Rightarrow> 'v option) \<Rightarrow> 'h \<Rightarrow> 'a list \<Rightarrow> 'v list option" where
  "list_value V h [] = Some []"
| "list_value V h (x # xs) = (case V h x of None \<Rightarrow> None | Some v \<Rightarrow> map_option (Cons v) (list_value V h xs))"

definition list_refs :: "('h \<Rightarrow> 'a \<Rightarrow> nat set) \<Rightarrow> 'h \<Rightarrow> 'a list \<Rightarrow> nat set" where
  "list_refs R h xs = (\<Union>x \<in> set xs. R h x)"

lemma list_value_Cons:
  "list_value V h (x # xs) = Some vs \<longleftrightarrow> (\<exists>v ws. vs = v # ws \<and> V h x = Some v \<and> list_value V h xs = Some ws)"
  by (auto split: option.splits)

declare list_value.simps(2) [simp del]

lemma list_refs_simps [simp]:
  "list_refs R h [] = {}" "list_refs R h (x # xs) = R h x \<union> list_refs R h xs"
  by (simp_all add: list_refs_def)

context copier
begin

lemma list_copies:
  "heap_ok h \<Longrightarrow> list_value val h xs = Some vs \<Longrightarrow>
     \<exists>ys h'. copy_list copy xs h = Some (ys, h') \<and> list_value val h' ys = Some vs
       \<and> heap_ok h' \<and> extends h h' \<and> list_refs refs h' ys \<subseteq> {hp_next h ..< hp_next h'}"
proof (induction xs arbitrary: h vs)
  case Nil
  then show ?case by (simp add: mem_return_def)
next
  case (Cons x xs)
  then obtain v ws where v: "vs = v # ws" "val h x = Some v" "list_value val h xs = Some ws"
    by (auto simp: list_value_Cons)
  obtain y h1 where y: "copy x h = Some (y, h1)" "val h1 y = Some v" "heap_ok h1" "extends h h1"
      "refs h1 y \<subseteq> {hp_next h ..< hp_next h1}"
    by (rule copyE [OF Cons.prems(1) v(2)])
  have "list_value val h1 zs = Some us" if "list_value val h zs = Some us" for zs us
    using that by (induction zs arbitrary: us) (auto simp: list_value_Cons kept(1) [OF Cons.prems(1) _ y(4)])
  from Cons.IH [OF y(3) this [OF v(3)]] obtain ys h2 where ys: "copy_list copy xs h1 = Some (ys, h2)"
      "list_value val h2 ys = Some ws" "heap_ok h2" "extends h1 h2"
      "list_refs refs h2 ys \<subseteq> {hp_next h1 ..< hp_next h2}"
    by blast
  note y' = kept [OF y(3,2) ys(4)]
  have "hp_next h \<le> hp_next h1" "hp_next h1 \<le> hp_next h2" using y(4) ys(4) by (simp_all add: extends_def)
  then have "list_refs refs h2 (y # ys) \<subseteq> {hp_next h ..< hp_next h2}"
    using y(5) ys(5) y'(2) by (auto simp: subset_iff)
  moreover have "copy_list copy (x # xs) h = Some (y # ys, h2)"
    using y(1) ys(1) by (simp add: mem_bind_def mem_return_def)
  moreover have "list_value val h2 (y # ys) = Some vs" using y'(1) ys(2) v(1) by (simp add: list_value_Cons)
  ultimately show ?case using ys(3) extends_trans [OF y(4) ys(4)] by blast
qed

lemma list_frame:
  "list_value val h xs = Some vs \<Longrightarrow> \<forall>r \<in> list_refs refs h xs. hp_cells h' r = hp_cells h r \<Longrightarrow>
     list_value val h' xs = Some vs \<and> list_refs refs h' xs = list_refs refs h xs"
proof (induction xs arbitrary: vs)
  case (Cons x xs)
  then obtain v ws where "vs = v # ws" "val h x = Some v" "list_value val h xs = Some ws"
    by (auto simp: list_value_Cons)
  with Cons frame [of h x v h'] show ?case by (auto simp: list_value_Cons)
qed simp

lemma list_copier: "copier (list_value val) (list_refs refs) (copy_list copy)"
proof (rule copier.intro)
  show "deep_copies (list_value val) (list_refs refs) (copy_list copy)"
    unfolding deep_copies_def using list_copies by blast
  show "list_refs refs h xs \<subseteq> {..<hp_next h}" if "heap_ok h" "list_value val h xs = Some vs" for h xs vs
    using that(2) by (induction xs arbitrary: vs)
      (auto simp: list_value_Cons dest!: in_use [OF that(1)])
qed (rule list_frame)

end

text \<open>Something that may be nil.\<close>

definition copy_option :: "('a \<Rightarrow> ('a, 'c) mem) \<Rightarrow> 'a option \<Rightarrow> ('a option, 'c) mem" where
  "copy_option f p = (case p of None \<Rightarrow> mem_return None | Some x \<Rightarrow> mem_bind (f x) (\<lambda>y. mem_return (Some y)))"

definition option_value :: "('h \<Rightarrow> 'a \<Rightarrow> 'v option) \<Rightarrow> 'h \<Rightarrow> 'a option \<Rightarrow> 'v option option" where
  "option_value V h p = (case p of None \<Rightarrow> Some None | Some x \<Rightarrow> map_option Some (V h x))"

definition option_refs :: "('h \<Rightarrow> 'a \<Rightarrow> nat set) \<Rightarrow> 'h \<Rightarrow> 'a option \<Rightarrow> nat set" where
  "option_refs R h p = (case p of None \<Rightarrow> {} | Some x \<Rightarrow> R h x)"

text \<open>
  A box: the address \<open>adr p\<close> of a cell and a way \<open>sel p\<close> to read the content from it. The
  copy \<open>mk r x\<close> is a cell \<open>con x\<close> of its own at \<open>r\<close>.
\<close>

definition copy_box :: "('a \<Rightarrow> 'c) \<Rightarrow> ('p \<Rightarrow> nat) \<Rightarrow> ('p \<Rightarrow> 'c \<Rightarrow> 'a option) \<Rightarrow> (nat \<Rightarrow> 'a \<Rightarrow> 'p) \<Rightarrow>
    ('a \<Rightarrow> ('a, 'c) mem) \<Rightarrow> 'p \<Rightarrow> ('p, 'c) mem" where
  "copy_box con adr sel mk f p =
     mem_bind (mem_read (sel p) (adr p)) (\<lambda>x. mem_bind (f x) (\<lambda>y.
     mem_bind (mem_new (con y)) (\<lambda>r. mem_return (mk r y))))"

definition content :: "('p \<Rightarrow> nat) \<Rightarrow> ('p \<Rightarrow> 'c \<Rightarrow> 'a option) \<Rightarrow> 'c heap \<Rightarrow> 'p \<Rightarrow> 'a option" where
  "content adr sel h p = Option.bind (hp_cells h (adr p)) (sel p)"

definition box_value :: "('p \<Rightarrow> nat) \<Rightarrow> ('p \<Rightarrow> 'c \<Rightarrow> 'a option) \<Rightarrow> ('c heap \<Rightarrow> 'a \<Rightarrow> 'v option) \<Rightarrow>
    'c heap \<Rightarrow> 'p \<Rightarrow> 'v option" where
  "box_value adr sel V h p = Option.bind (content adr sel h p) (V h)"

definition box_refs :: "('p \<Rightarrow> nat) \<Rightarrow> ('p \<Rightarrow> 'c \<Rightarrow> 'a option) \<Rightarrow> ('c heap \<Rightarrow> 'a \<Rightarrow> nat set) \<Rightarrow>
    'c heap \<Rightarrow> 'p \<Rightarrow> nat set" where
  "box_refs adr sel R h p = insert (adr p) (case content adr sel h p of None \<Rightarrow> {} | Some x \<Rightarrow> R h x)"

locale box_copier = copier V R f for V :: "'c heap \<Rightarrow> 'a \<Rightarrow> 'v option" and R f +
  fixes con :: "'a \<Rightarrow> 'c" and adr :: "'p \<Rightarrow> nat" and sel :: "'p \<Rightarrow> 'c \<Rightarrow> 'a option" and mk :: "nat \<Rightarrow> 'a \<Rightarrow> 'p"
  assumes adr_mk: "adr (mk r x) = r" and sel_con: "sel (mk r x) (con x) = Some x"
begin

lemma box_value_Some:
  "box_value adr sel V h p = Some v \<longleftrightarrow> (\<exists>x. content adr sel h p = Some x \<and> V h x = Some v)"
  by (auto simp: box_value_def bind_eq_Some_conv)

lemma box_is_copier: "copier (box_value adr sel V) (box_refs adr sel R) (copy_box con adr sel mk f)"
proof (rule copier.intro)
  show "deep_copies (box_value adr sel V) (box_refs adr sel R) (copy_box con adr sel mk f)"
    unfolding deep_copies_def
  proof (intro allI impI, elim conjE)
    fix h p v assume ok: "heap_ok h" and "box_value adr sel V h p = Some v"
    then obtain x where x: "content adr sel h p = Some x" "V h x = Some v" by (auto simp: box_value_Some)
    obtain y h1 where y: "f x h = Some (y, h1)" "V h1 y = Some v" "heap_ok h1" "extends h h1"
        "R h1 y \<subseteq> {hp_next h ..< hp_next h1}"
      by (rule copyE [OF ok x(2)])
    obtain r h2 where new: "mem_alloc (con y) h1 = (r, h2)" by (cases "mem_alloc (con y) h1")
    note alloc = alloc_facts [OF y(3) new]
    note y' = kept [OF y(3,2) alloc(2)]
    have "copy_box con adr sel mk f p h = Some (mk r y, h2)"
      using x(1) y(1) new by (simp add: copy_box_def mem_bind_def mem_read_def mem_new_def mem_return_def content_def)
    moreover have c: "content adr sel h2 (mk r y) = Some y"
      using alloc(5) by (simp add: content_def adr_mk sel_con)
    then have "box_value adr sel V h2 (mk r y) = Some v" using y'(1) by (simp add: box_value_Some)
    moreover have "hp_next h \<le> hp_next h1" using y(4) by (simp add: extends_def)
    then have "box_refs adr sel R h2 (mk r y) \<subseteq> {hp_next h ..< hp_next h2}"
      using c y'(2) y(5) alloc(3,4) by (auto simp: box_refs_def adr_mk subset_iff)
    ultimately show "\<exists>q h'. copy_box con adr sel mk f p h = Some (q, h') \<and> box_value adr sel V h' q = Some v
        \<and> heap_ok h' \<and> extends h h' \<and> box_refs adr sel R h' q \<subseteq> {hp_next h ..< hp_next h'}"
      using alloc(1) extends_trans [OF y(4) alloc(2)] by blast
  qed
  show "box_value adr sel V h' p = Some v \<and> box_refs adr sel R h' p = box_refs adr sel R h p"
    if v: "box_value adr sel V h p = Some v" and same: "\<forall>r \<in> box_refs adr sel R h p. hp_cells h' r = hp_cells h r"
    for h p v h'
  proof -
    obtain x where x: "content adr sel h p = Some x" "V h x = Some v" using v by (auto simp: box_value_Some)
    have "content adr sel h' p = Some x" using same x(1) by (simp add: box_refs_def content_def)
    moreover have "V h' x = Some v \<and> R h' x = R h x"
      using same x by (intro frame) (simp_all add: box_refs_def)
    ultimately show ?thesis using x(1) by (simp add: box_value_Some box_refs_def)
  qed
  show "box_refs adr sel R h p \<subseteq> {..<hp_next h}" if ok: "heap_ok h" and v: "box_value adr sel V h p = Some v"
    for h p v
  proof -
    obtain x where x: "content adr sel h p = Some x" "V h x = Some v" using v by (auto simp: box_value_Some)
    have "adr p < hp_next h"
      using x(1) ok by (auto simp: content_def heap_ok_def bind_eq_Some_conv not_le [symmetric])
    then show ?thesis using in_use [OF ok x(2)] x(1) by (simp add: box_refs_def)
  qed
qed

end

context copier
begin

lemma option_copier: "copier (option_value val) (option_refs refs) (copy_option copy)"
proof (rule copier.intro)
  show "deep_copies (option_value val) (option_refs refs) (copy_option copy)"
    unfolding deep_copies_def
  proof (intro allI impI, elim conjE)
    fix h p v assume ok: "heap_ok h" and v: "option_value val h p = Some v"
    show "\<exists>q h'. copy_option copy p h = Some (q, h') \<and> option_value val h' q = Some v \<and> heap_ok h'
        \<and> extends h h' \<and> option_refs refs h' q \<subseteq> {hp_next h ..< hp_next h'}"
    proof (cases p)
      case None
      with ok v show ?thesis by (simp add: copy_option_def option_value_def option_refs_def mem_return_def)
    next
      case (Some x)
      then obtain u where u: "val h x = Some u" "v = Some u" using v by (auto simp: option_value_def)
      obtain y h' where "copy x h = Some (y, h')" "val h' y = Some u" "heap_ok h'" "extends h h'"
          "refs h' y \<subseteq> {hp_next h ..< hp_next h'}"
        by (rule copyE [OF ok u(1)])
      with Some u(2) show ?thesis
        by (simp add: copy_option_def option_value_def option_refs_def mem_bind_def mem_return_def)
    qed
  qed
  show "option_value val h' p = Some v \<and> option_refs refs h' p = option_refs refs h p"
    if "option_value val h p = Some v" "\<forall>r \<in> option_refs refs h p. hp_cells h' r = hp_cells h r" for h p v h'
    using that frame [of h "the p" _ h'] by (cases p) (auto simp: option_value_def option_refs_def)
  show "option_refs refs h p \<subseteq> {..<hp_next h}" if "heap_ok h" "option_value val h p = Some v" for h p v
    using that in_use [of h "the p"] by (cases p) (auto simp: option_value_def option_refs_def)
qed

end

lemmas copier_list = copier.list_copier
lemmas copier_option = copier.option_copier
lemmas copier_box = box_copier.box_is_copier [OF box_copier.intro [OF _ box_copier_axioms.intro]]

subsection \<open>Pointers and slices\<close>

text \<open>A pointer: \<open>sel\<close> reads a cell of its type, \<open>con\<close> makes one.\<close>

definition copy_ref :: "('a \<Rightarrow> 'c) \<Rightarrow> ('c \<Rightarrow> 'a option) \<Rightarrow> ('a \<Rightarrow> ('a, 'c) mem) \<Rightarrow> nat option \<Rightarrow> (nat option, 'c) mem" where
  "copy_ref con sel f = copy_option (copy_box con (\<lambda>r. r) (\<lambda>r. sel) (\<lambda>r x. r) f)"

definition ref_value :: "('c \<Rightarrow> 'a option) \<Rightarrow> ('c heap \<Rightarrow> 'a \<Rightarrow> 'v option) \<Rightarrow> 'c heap \<Rightarrow> nat option \<Rightarrow> 'v option option" where
  "ref_value sel V = option_value (box_value (\<lambda>r. r) (\<lambda>r. sel) V)"

definition ref_refs :: "('c \<Rightarrow> 'a option) \<Rightarrow> ('c heap \<Rightarrow> 'a \<Rightarrow> nat set) \<Rightarrow> 'c heap \<Rightarrow> nat option \<Rightarrow> nat set" where
  "ref_refs sel R = option_refs (box_refs (\<lambda>r. r) (\<lambda>r. sel) R)"

lemma copier_ref:
  assumes "copier V R f" "\<And>x. sel (con x) = Some x"
  shows "copier (ref_value sel V) (ref_refs sel R) (copy_ref con sel f)"
  unfolding ref_value_def ref_refs_def copy_ref_def
  by (rule copier_option, rule copier_box) (use assms in simp_all)

text \<open>
  A slice: an array and the window on it. A copy is an array of its own with the elements of
  the window.
\<close>

record slice =
  sl_array :: nat
  sl_from :: nat
  sl_len :: nat

definition window :: "('c \<Rightarrow> 'e list option) \<Rightarrow> slice \<Rightarrow> 'c \<Rightarrow> 'e list option" where
  "window sel s c = Option.bind (sel c) (\<lambda>xs.
     if sl_from s + sl_len s \<le> length xs then Some (take (sl_len s) (drop (sl_from s) xs)) else None)"

definition whole :: "nat \<Rightarrow> 'e list \<Rightarrow> slice" where
  "whole r xs = \<lparr>sl_array = r, sl_from = 0, sl_len = length xs\<rparr>"

definition copy_slice :: "('e list \<Rightarrow> 'c) \<Rightarrow> ('c \<Rightarrow> 'e list option) \<Rightarrow> ('e \<Rightarrow> ('e, 'c) mem) \<Rightarrow>
    slice option \<Rightarrow> (slice option, 'c) mem" where
  "copy_slice con sel f = copy_option (copy_box con sl_array (window sel) whole (copy_list f))"

definition slice_value :: "('c \<Rightarrow> 'e list option) \<Rightarrow> ('c heap \<Rightarrow> 'e \<Rightarrow> 'v option) \<Rightarrow> 'c heap \<Rightarrow>
    slice option \<Rightarrow> 'v list option option" where
  "slice_value sel V = option_value (box_value sl_array (window sel) (list_value V))"

definition slice_refs :: "('c \<Rightarrow> 'e list option) \<Rightarrow> ('c heap \<Rightarrow> 'e \<Rightarrow> nat set) \<Rightarrow> 'c heap \<Rightarrow> slice option \<Rightarrow> nat set" where
  "slice_refs sel R = option_refs (box_refs sl_array (window sel) (list_refs R))"

lemma copier_slice:
  assumes "copier V R f" "\<And>xs. sel (con xs) = Some xs"
  shows "copier (slice_value sel V) (slice_refs sel R) (copy_slice con sel f)"
  unfolding slice_value_def slice_refs_def copy_slice_def
  by (rule copier_option, rule copier_box)
    (use assms copier_list [OF assms(1)] in \<open>simp_all add: whole_def window_def\<close>)

end
