(* ===== verification/DeepCopy.thy ===== *)
theory DeepCopy
  imports Memory Conversion
begin

text \<open>
  \<open>zz_generated.deepcopy.go\<close> of both API versions: the layout of the API types in memory,
  with their slices and pointers, and the generated \<open>DeepCopyInto\<close>, \<open>DeepCopy\<close> and
  \<open>DeepCopyObject\<close>. A function that writes to \<open>out\<close> returns what it writes; \<open>make\<close> and
  \<open>new\<close> take memory when the value they hold is complete. The copies of the metadata
  (\<open>ObjectMeta\<close> and \<open>ListMeta\<close> of apimachinery) are a parameter.
\<close>

subsection \<open>Layout\<close>

text \<open>The status structs have one field, the pointer to the counts.\<close>

record InClusterIPPoolSpec_mem =
  sm_Addresses :: "slice option"
  sm_Prefix :: int
  sm_Gateway :: string
  sm_AllocateReserved :: bool
  sm_Excluded :: "slice option"
  sm_GracePeriod :: "nat option"

record InClusterPrefixPoolSpec_mem =
  xm_Prefixes :: "slice option"
  xm_AllocationPrefixLength :: int
  xm_Gateway :: string
  xm_Excluded :: "slice option"

record a1_InClusterIPPoolSpec_mem =
  old_Addresses :: "slice option"
  old_Subnet :: string
  old_First :: string
  old_Last :: string
  old_Prefix :: int
  old_Gateway :: string

record ('m, 's) pool_mem =
  pm_type :: gvk
  pm_meta :: 'm
  pm_spec :: 's
  pm_status :: "nat option"

record 'l list_mem =
  lm_type :: gvk
  lm_meta :: 'l
  lm_items :: "slice option"

text \<open>
  What a cell can hold; the namespaced and the global types have the same layout. \<open>'m\<close> and
  \<open>'l\<close> are the metadata structs, \<open>'x\<close> what they point to.
\<close>

datatype scope = Namespaced | Global

datatype pool_api = IPPools | PrefixPools | OldPools

datatype ('m, 'l, 'x) cell =
    CStrings "string list" | CInt32 int | CForeign 'x
  | CCounts InClusterIPPoolStatusIPAddresses
  | CPrefixCounts InClusterPrefixPoolStatusAddresses
  | COldCounts a1_InClusterIPPoolStatusIPAddresses
  | CStatus pool_api "nat option"
  | CSpec InClusterIPPoolSpec_mem | CPrefixSpec InClusterPrefixPoolSpec_mem | COldSpec a1_InClusterIPPoolSpec_mem
  | CPool scope "('m, InClusterIPPoolSpec_mem) pool_mem"
  | CPrefixPool scope "('m, InClusterPrefixPoolSpec_mem) pool_mem"
  | COldPool scope "('m, a1_InClusterIPPoolSpec_mem) pool_mem"
  | CPools scope "('m, InClusterIPPoolSpec_mem) pool_mem list"
  | CPrefixPools scope "('m, InClusterPrefixPoolSpec_mem) pool_mem list"
  | COldPools scope "('m, a1_InClusterIPPoolSpec_mem) pool_mem list"
  | CList pool_api scope "'l list_mem"

text \<open>Reading a cell at a type.\<close>

definition as_strings :: "('m, 'l, 'x) cell \<Rightarrow> (string list) option" where
  "as_strings c = (case c of CStrings x \<Rightarrow> Some x | _ \<Rightarrow> None)"

definition as_int32 :: "('m, 'l, 'x) cell \<Rightarrow> int option" where
  "as_int32 c = (case c of CInt32 x \<Rightarrow> Some x | _ \<Rightarrow> None)"

definition as_foreign :: "('m, 'l, 'x) cell \<Rightarrow> 'x option" where
  "as_foreign c = (case c of CForeign x \<Rightarrow> Some x | _ \<Rightarrow> None)"

definition as_counts :: "('m, 'l, 'x) cell \<Rightarrow> InClusterIPPoolStatusIPAddresses option" where
  "as_counts c = (case c of CCounts x \<Rightarrow> Some x | _ \<Rightarrow> None)"

definition as_prefix_counts :: "('m, 'l, 'x) cell \<Rightarrow> InClusterPrefixPoolStatusAddresses option" where
  "as_prefix_counts c = (case c of CPrefixCounts x \<Rightarrow> Some x | _ \<Rightarrow> None)"

definition as_old_counts :: "('m, 'l, 'x) cell \<Rightarrow> a1_InClusterIPPoolStatusIPAddresses option" where
  "as_old_counts c = (case c of COldCounts x \<Rightarrow> Some x | _ \<Rightarrow> None)"

definition as_status :: "pool_api \<Rightarrow> ('m, 'l, 'x) cell \<Rightarrow> (nat option) option" where
  "as_status a c = (case c of CStatus a' x \<Rightarrow> if a' = a then Some x else None | _ \<Rightarrow> None)"

definition as_spec :: "('m, 'l, 'x) cell \<Rightarrow> InClusterIPPoolSpec_mem option" where
  "as_spec c = (case c of CSpec x \<Rightarrow> Some x | _ \<Rightarrow> None)"

definition as_prefix_spec :: "('m, 'l, 'x) cell \<Rightarrow> InClusterPrefixPoolSpec_mem option" where
  "as_prefix_spec c = (case c of CPrefixSpec x \<Rightarrow> Some x | _ \<Rightarrow> None)"

definition as_old_spec :: "('m, 'l, 'x) cell \<Rightarrow> a1_InClusterIPPoolSpec_mem option" where
  "as_old_spec c = (case c of COldSpec x \<Rightarrow> Some x | _ \<Rightarrow> None)"

definition as_pool :: "scope \<Rightarrow> ('m, 'l, 'x) cell \<Rightarrow> (('m, InClusterIPPoolSpec_mem) pool_mem) option" where
  "as_pool s c = (case c of CPool s' x \<Rightarrow> if s' = s then Some x else None | _ \<Rightarrow> None)"

definition as_prefix_pool :: "scope \<Rightarrow> ('m, 'l, 'x) cell \<Rightarrow> (('m, InClusterPrefixPoolSpec_mem) pool_mem) option" where
  "as_prefix_pool s c = (case c of CPrefixPool s' x \<Rightarrow> if s' = s then Some x else None | _ \<Rightarrow> None)"

definition as_old_pool :: "scope \<Rightarrow> ('m, 'l, 'x) cell \<Rightarrow> (('m, a1_InClusterIPPoolSpec_mem) pool_mem) option" where
  "as_old_pool s c = (case c of COldPool s' x \<Rightarrow> if s' = s then Some x else None | _ \<Rightarrow> None)"

definition as_pools :: "scope \<Rightarrow> ('m, 'l, 'x) cell \<Rightarrow> (('m, InClusterIPPoolSpec_mem) pool_mem list) option" where
  "as_pools s c = (case c of CPools s' x \<Rightarrow> if s' = s then Some x else None | _ \<Rightarrow> None)"

definition as_prefix_pools :: "scope \<Rightarrow> ('m, 'l, 'x) cell \<Rightarrow> (('m, InClusterPrefixPoolSpec_mem) pool_mem list) option" where
  "as_prefix_pools s c = (case c of CPrefixPools s' x \<Rightarrow> if s' = s then Some x else None | _ \<Rightarrow> None)"

definition as_old_pools :: "scope \<Rightarrow> ('m, 'l, 'x) cell \<Rightarrow> (('m, a1_InClusterIPPoolSpec_mem) pool_mem list) option" where
  "as_old_pools s c = (case c of COldPools s' x \<Rightarrow> if s' = s then Some x else None | _ \<Rightarrow> None)"

definition as_list :: "pool_api \<Rightarrow> scope \<Rightarrow> ('m, 'l, 'x) cell \<Rightarrow> ('l list_mem) option" where
  "as_list a s c = (case c of CList a' s' x \<Rightarrow> if a' = a \<and> s' = s then Some x else None | _ \<Rightarrow> None)"

lemma as_con [simp]:
  "as_strings (CStrings x1) = Some x1"
  "as_int32 (CInt32 x2) = Some x2"
  "as_foreign (CForeign x3) = Some x3"
  "as_counts (CCounts x4) = Some x4"
  "as_prefix_counts (CPrefixCounts x5) = Some x5"
  "as_old_counts (COldCounts x6) = Some x6"
  "as_status a (CStatus a x7) = Some x7"
  "as_spec (CSpec x8) = Some x8"
  "as_prefix_spec (CPrefixSpec x9) = Some x9"
  "as_old_spec (COldSpec x10) = Some x10"
  "as_pool s (CPool s x11) = Some x11"
  "as_prefix_pool s (CPrefixPool s x12) = Some x12"
  "as_old_pool s (COldPool s x13) = Some x13"
  "as_pools s (CPools s x14) = Some x14"
  "as_prefix_pools s (CPrefixPools s x15) = Some x15"
  "as_old_pools s (COldPools s x16) = Some x16"
  "as_list a s (CList a s x17) = Some x17"
  by (simp_all add: as_strings_def as_int32_def as_foreign_def as_counts_def as_prefix_counts_def as_old_counts_def as_status_def as_spec_def as_prefix_spec_def as_old_spec_def as_pool_def as_prefix_pool_def as_old_pool_def as_pools_def as_prefix_pools_def as_old_pools_def as_list_def)

subsection \<open>Specs, statuses and counts\<close>

definition copy_strings :: "slice option \<Rightarrow> (slice option, ('m, 'l, 'x) cell) mem" where
  "copy_strings = copy_slice CStrings as_strings copy_plain"

definition InClusterIPPoolSpec_DeepCopyInto ::
  "InClusterIPPoolSpec_mem \<Rightarrow> (InClusterIPPoolSpec_mem, ('m, 'l, 'x) cell) mem" where
  "InClusterIPPoolSpec_DeepCopyInto x =
     mem_bind (copy_strings (sm_Addresses x)) (\<lambda>addresses.
     mem_bind (copy_strings (sm_Excluded x)) (\<lambda>excluded.
     mem_bind (copy_ref CInt32 as_int32 copy_plain (sm_GracePeriod x)) (\<lambda>gracePeriod.
     mem_return (x\<lparr>sm_Addresses := addresses, sm_Excluded := excluded, sm_GracePeriod := gracePeriod\<rparr>))))"

definition InClusterPrefixPoolSpec_DeepCopyInto ::
  "InClusterPrefixPoolSpec_mem \<Rightarrow> (InClusterPrefixPoolSpec_mem, ('m, 'l, 'x) cell) mem" where
  "InClusterPrefixPoolSpec_DeepCopyInto x =
     mem_bind (copy_strings (xm_Prefixes x)) (\<lambda>prefixes.
     mem_bind (copy_strings (xm_Excluded x)) (\<lambda>excluded.
     mem_return (x\<lparr>xm_Prefixes := prefixes, xm_Excluded := excluded\<rparr>)))"

definition a1_InClusterIPPoolSpec_DeepCopyInto ::
  "a1_InClusterIPPoolSpec_mem \<Rightarrow> (a1_InClusterIPPoolSpec_mem, ('m, 'l, 'x) cell) mem" where
  "a1_InClusterIPPoolSpec_DeepCopyInto x =
     mem_bind (copy_strings (old_Addresses x)) (\<lambda>addresses. mem_return (x\<lparr>old_Addresses := addresses\<rparr>))"

definition InClusterIPPoolStatusIPAddresses_DeepCopyInto :: "InClusterIPPoolStatusIPAddresses \<Rightarrow> (InClusterIPPoolStatusIPAddresses, ('m, 'l, 'x) cell) mem" where
  "InClusterIPPoolStatusIPAddresses_DeepCopyInto x = mem_return x"

definition InClusterIPPoolStatus_DeepCopyInto :: "nat option \<Rightarrow> (nat option, ('m, 'l, 'x) cell) mem" where
  "InClusterIPPoolStatus_DeepCopyInto addresses = copy_ref CCounts as_counts copy_plain addresses"

definition InClusterPrefixPoolStatusAddresses_DeepCopyInto :: "InClusterPrefixPoolStatusAddresses \<Rightarrow> (InClusterPrefixPoolStatusAddresses, ('m, 'l, 'x) cell) mem" where
  "InClusterPrefixPoolStatusAddresses_DeepCopyInto x = mem_return x"

definition InClusterPrefixPoolStatus_DeepCopyInto :: "nat option \<Rightarrow> (nat option, ('m, 'l, 'x) cell) mem" where
  "InClusterPrefixPoolStatus_DeepCopyInto addresses = copy_ref CPrefixCounts as_prefix_counts copy_plain addresses"

definition a1_InClusterIPPoolStatusIPAddresses_DeepCopyInto :: "a1_InClusterIPPoolStatusIPAddresses \<Rightarrow> (a1_InClusterIPPoolStatusIPAddresses, ('m, 'l, 'x) cell) mem" where
  "a1_InClusterIPPoolStatusIPAddresses_DeepCopyInto x = mem_return x"

definition a1_InClusterIPPoolStatus_DeepCopyInto :: "nat option \<Rightarrow> (nat option, ('m, 'l, 'x) cell) mem" where
  "a1_InClusterIPPoolStatus_DeepCopyInto addresses = copy_ref COldCounts as_old_counts copy_plain addresses"

text \<open>Of a pointer: nil stays nil, otherwise a new struct is filled.\<close>

definition InClusterIPPoolSpec_DeepCopy :: "nat option \<Rightarrow> (nat option, ('m, 'l, 'x) cell) mem" where
  "InClusterIPPoolSpec_DeepCopy = copy_ref CSpec as_spec InClusterIPPoolSpec_DeepCopyInto"

definition InClusterPrefixPoolSpec_DeepCopy :: "nat option \<Rightarrow> (nat option, ('m, 'l, 'x) cell) mem" where
  "InClusterPrefixPoolSpec_DeepCopy = copy_ref CPrefixSpec as_prefix_spec InClusterPrefixPoolSpec_DeepCopyInto"

definition a1_InClusterIPPoolSpec_DeepCopy :: "nat option \<Rightarrow> (nat option, ('m, 'l, 'x) cell) mem" where
  "a1_InClusterIPPoolSpec_DeepCopy = copy_ref COldSpec as_old_spec a1_InClusterIPPoolSpec_DeepCopyInto"

definition InClusterIPPoolStatus_DeepCopy :: "nat option \<Rightarrow> (nat option, ('m, 'l, 'x) cell) mem" where
  "InClusterIPPoolStatus_DeepCopy = copy_ref (CStatus IPPools) (as_status IPPools) InClusterIPPoolStatus_DeepCopyInto"

definition InClusterPrefixPoolStatus_DeepCopy :: "nat option \<Rightarrow> (nat option, ('m, 'l, 'x) cell) mem" where
  "InClusterPrefixPoolStatus_DeepCopy = copy_ref (CStatus PrefixPools) (as_status PrefixPools) InClusterPrefixPoolStatus_DeepCopyInto"

definition a1_InClusterIPPoolStatus_DeepCopy :: "nat option \<Rightarrow> (nat option, ('m, 'l, 'x) cell) mem" where
  "a1_InClusterIPPoolStatus_DeepCopy = copy_ref (CStatus OldPools) (as_status OldPools) a1_InClusterIPPoolStatus_DeepCopyInto"

definition InClusterIPPoolStatusIPAddresses_DeepCopy :: "nat option \<Rightarrow> (nat option, ('m, 'l, 'x) cell) mem" where
  "InClusterIPPoolStatusIPAddresses_DeepCopy = copy_ref CCounts as_counts InClusterIPPoolStatusIPAddresses_DeepCopyInto"

definition InClusterPrefixPoolStatusAddresses_DeepCopy :: "nat option \<Rightarrow> (nat option, ('m, 'l, 'x) cell) mem" where
  "InClusterPrefixPoolStatusAddresses_DeepCopy = copy_ref CPrefixCounts as_prefix_counts InClusterPrefixPoolStatusAddresses_DeepCopyInto"

definition a1_InClusterIPPoolStatusIPAddresses_DeepCopy :: "nat option \<Rightarrow> (nat option, ('m, 'l, 'x) cell) mem" where
  "a1_InClusterIPPoolStatusIPAddresses_DeepCopy = copy_ref COldCounts as_old_counts a1_InClusterIPPoolStatusIPAddresses_DeepCopyInto"

subsection \<open>Pools and lists\<close>

record ('m, 'l, 'x) apimachinery =
  ObjectMeta_DeepCopyInto :: "'m \<Rightarrow> ('m, ('m, 'l, 'x) cell) mem"
  ListMeta_DeepCopyInto :: "'l \<Rightarrow> ('l, ('m, 'l, 'x) cell) mem"

definition pool_DeepCopyInto :: "('m \<Rightarrow> ('m, 'c) mem) \<Rightarrow> ('s \<Rightarrow> ('s, 'c) mem) \<Rightarrow>
    (nat option \<Rightarrow> (nat option, 'c) mem) \<Rightarrow> ('m, 's) pool_mem \<Rightarrow> (('m, 's) pool_mem, 'c) mem" where
  "pool_DeepCopyInto copyMeta copySpec copyStatus x =
     mem_bind (copyMeta (pm_meta x)) (\<lambda>m. mem_bind (copySpec (pm_spec x)) (\<lambda>s.
     mem_bind (copyStatus (pm_status x)) (\<lambda>t.
     mem_return (x\<lparr>pm_meta := m, pm_spec := s, pm_status := t\<rparr>))))"

definition list_DeepCopyInto :: "('l \<Rightarrow> ('l, 'c) mem) \<Rightarrow> (slice option \<Rightarrow> (slice option, 'c) mem) \<Rightarrow>
    'l list_mem \<Rightarrow> ('l list_mem, 'c) mem" where
  "list_DeepCopyInto copyMeta copyItems x =
     mem_bind (copyMeta (lm_meta x)) (\<lambda>m. mem_bind (copyItems (lm_items x)) (\<lambda>i.
     mem_return (x\<lparr>lm_meta := m, lm_items := i\<rparr>)))"

definition copy_object :: "('p \<Rightarrow> (nat option, 'c) mem) \<Rightarrow> 'p \<Rightarrow> (nat option, 'c) mem" where
  "copy_object copy p = mem_bind (copy p) (\<lambda>c. case c of Some q \<Rightarrow> mem_return (Some q) | None \<Rightarrow> mem_return None)"

definition InClusterIPPool_DeepCopyInto :: "('m, 'l, 'x) apimachinery \<Rightarrow> ('m, InClusterIPPoolSpec_mem) pool_mem \<Rightarrow> (('m, InClusterIPPoolSpec_mem) pool_mem, ('m, 'l, 'x) cell) mem" where
  "InClusterIPPool_DeepCopyInto M = pool_DeepCopyInto (ObjectMeta_DeepCopyInto M)
     InClusterIPPoolSpec_DeepCopyInto InClusterIPPoolStatus_DeepCopyInto"

definition InClusterIPPool_DeepCopy :: "('m, 'l, 'x) apimachinery \<Rightarrow> nat option \<Rightarrow> (nat option, ('m, 'l, 'x) cell) mem" where
  "InClusterIPPool_DeepCopy M = copy_ref (CPool Namespaced) (as_pool Namespaced) (InClusterIPPool_DeepCopyInto M)"

definition InClusterIPPool_DeepCopyObject :: "('m, 'l, 'x) apimachinery \<Rightarrow> nat option \<Rightarrow> (nat option, ('m, 'l, 'x) cell) mem" where
  "InClusterIPPool_DeepCopyObject M = copy_object (InClusterIPPool_DeepCopy M)"

definition InClusterIPPoolList_DeepCopyInto :: "('m, 'l, 'x) apimachinery \<Rightarrow> 'l list_mem \<Rightarrow> ('l list_mem, ('m, 'l, 'x) cell) mem" where
  "InClusterIPPoolList_DeepCopyInto M = list_DeepCopyInto (ListMeta_DeepCopyInto M)
     (copy_slice (CPools Namespaced) (as_pools Namespaced) (InClusterIPPool_DeepCopyInto M))"

definition InClusterIPPoolList_DeepCopy :: "('m, 'l, 'x) apimachinery \<Rightarrow> nat option \<Rightarrow> (nat option, ('m, 'l, 'x) cell) mem" where
  "InClusterIPPoolList_DeepCopy M = copy_ref (CList IPPools Namespaced) (as_list IPPools Namespaced) (InClusterIPPoolList_DeepCopyInto M)"

definition InClusterIPPoolList_DeepCopyObject :: "('m, 'l, 'x) apimachinery \<Rightarrow> nat option \<Rightarrow> (nat option, ('m, 'l, 'x) cell) mem" where
  "InClusterIPPoolList_DeepCopyObject M = copy_object (InClusterIPPoolList_DeepCopy M)"

definition GlobalInClusterIPPool_DeepCopyInto :: "('m, 'l, 'x) apimachinery \<Rightarrow> ('m, InClusterIPPoolSpec_mem) pool_mem \<Rightarrow> (('m, InClusterIPPoolSpec_mem) pool_mem, ('m, 'l, 'x) cell) mem" where
  "GlobalInClusterIPPool_DeepCopyInto M = pool_DeepCopyInto (ObjectMeta_DeepCopyInto M)
     InClusterIPPoolSpec_DeepCopyInto InClusterIPPoolStatus_DeepCopyInto"

definition GlobalInClusterIPPool_DeepCopy :: "('m, 'l, 'x) apimachinery \<Rightarrow> nat option \<Rightarrow> (nat option, ('m, 'l, 'x) cell) mem" where
  "GlobalInClusterIPPool_DeepCopy M = copy_ref (CPool Global) (as_pool Global) (GlobalInClusterIPPool_DeepCopyInto M)"

definition GlobalInClusterIPPool_DeepCopyObject :: "('m, 'l, 'x) apimachinery \<Rightarrow> nat option \<Rightarrow> (nat option, ('m, 'l, 'x) cell) mem" where
  "GlobalInClusterIPPool_DeepCopyObject M = copy_object (GlobalInClusterIPPool_DeepCopy M)"

definition GlobalInClusterIPPoolList_DeepCopyInto :: "('m, 'l, 'x) apimachinery \<Rightarrow> 'l list_mem \<Rightarrow> ('l list_mem, ('m, 'l, 'x) cell) mem" where
  "GlobalInClusterIPPoolList_DeepCopyInto M = list_DeepCopyInto (ListMeta_DeepCopyInto M)
     (copy_slice (CPools Global) (as_pools Global) (GlobalInClusterIPPool_DeepCopyInto M))"

definition GlobalInClusterIPPoolList_DeepCopy :: "('m, 'l, 'x) apimachinery \<Rightarrow> nat option \<Rightarrow> (nat option, ('m, 'l, 'x) cell) mem" where
  "GlobalInClusterIPPoolList_DeepCopy M = copy_ref (CList IPPools Global) (as_list IPPools Global) (GlobalInClusterIPPoolList_DeepCopyInto M)"

definition GlobalInClusterIPPoolList_DeepCopyObject :: "('m, 'l, 'x) apimachinery \<Rightarrow> nat option \<Rightarrow> (nat option, ('m, 'l, 'x) cell) mem" where
  "GlobalInClusterIPPoolList_DeepCopyObject M = copy_object (GlobalInClusterIPPoolList_DeepCopy M)"

definition InClusterPrefixPool_DeepCopyInto :: "('m, 'l, 'x) apimachinery \<Rightarrow> ('m, InClusterPrefixPoolSpec_mem) pool_mem \<Rightarrow> (('m, InClusterPrefixPoolSpec_mem) pool_mem, ('m, 'l, 'x) cell) mem" where
  "InClusterPrefixPool_DeepCopyInto M = pool_DeepCopyInto (ObjectMeta_DeepCopyInto M)
     InClusterPrefixPoolSpec_DeepCopyInto InClusterPrefixPoolStatus_DeepCopyInto"

definition InClusterPrefixPool_DeepCopy :: "('m, 'l, 'x) apimachinery \<Rightarrow> nat option \<Rightarrow> (nat option, ('m, 'l, 'x) cell) mem" where
  "InClusterPrefixPool_DeepCopy M = copy_ref (CPrefixPool Namespaced) (as_prefix_pool Namespaced) (InClusterPrefixPool_DeepCopyInto M)"

definition InClusterPrefixPool_DeepCopyObject :: "('m, 'l, 'x) apimachinery \<Rightarrow> nat option \<Rightarrow> (nat option, ('m, 'l, 'x) cell) mem" where
  "InClusterPrefixPool_DeepCopyObject M = copy_object (InClusterPrefixPool_DeepCopy M)"

definition InClusterPrefixPoolList_DeepCopyInto :: "('m, 'l, 'x) apimachinery \<Rightarrow> 'l list_mem \<Rightarrow> ('l list_mem, ('m, 'l, 'x) cell) mem" where
  "InClusterPrefixPoolList_DeepCopyInto M = list_DeepCopyInto (ListMeta_DeepCopyInto M)
     (copy_slice (CPrefixPools Namespaced) (as_prefix_pools Namespaced) (InClusterPrefixPool_DeepCopyInto M))"

definition InClusterPrefixPoolList_DeepCopy :: "('m, 'l, 'x) apimachinery \<Rightarrow> nat option \<Rightarrow> (nat option, ('m, 'l, 'x) cell) mem" where
  "InClusterPrefixPoolList_DeepCopy M = copy_ref (CList PrefixPools Namespaced) (as_list PrefixPools Namespaced) (InClusterPrefixPoolList_DeepCopyInto M)"

definition InClusterPrefixPoolList_DeepCopyObject :: "('m, 'l, 'x) apimachinery \<Rightarrow> nat option \<Rightarrow> (nat option, ('m, 'l, 'x) cell) mem" where
  "InClusterPrefixPoolList_DeepCopyObject M = copy_object (InClusterPrefixPoolList_DeepCopy M)"

definition GlobalInClusterPrefixPool_DeepCopyInto :: "('m, 'l, 'x) apimachinery \<Rightarrow> ('m, InClusterPrefixPoolSpec_mem) pool_mem \<Rightarrow> (('m, InClusterPrefixPoolSpec_mem) pool_mem, ('m, 'l, 'x) cell) mem" where
  "GlobalInClusterPrefixPool_DeepCopyInto M = pool_DeepCopyInto (ObjectMeta_DeepCopyInto M)
     InClusterPrefixPoolSpec_DeepCopyInto InClusterPrefixPoolStatus_DeepCopyInto"

definition GlobalInClusterPrefixPool_DeepCopy :: "('m, 'l, 'x) apimachinery \<Rightarrow> nat option \<Rightarrow> (nat option, ('m, 'l, 'x) cell) mem" where
  "GlobalInClusterPrefixPool_DeepCopy M = copy_ref (CPrefixPool Global) (as_prefix_pool Global) (GlobalInClusterPrefixPool_DeepCopyInto M)"

definition GlobalInClusterPrefixPool_DeepCopyObject :: "('m, 'l, 'x) apimachinery \<Rightarrow> nat option \<Rightarrow> (nat option, ('m, 'l, 'x) cell) mem" where
  "GlobalInClusterPrefixPool_DeepCopyObject M = copy_object (GlobalInClusterPrefixPool_DeepCopy M)"

definition GlobalInClusterPrefixPoolList_DeepCopyInto :: "('m, 'l, 'x) apimachinery \<Rightarrow> 'l list_mem \<Rightarrow> ('l list_mem, ('m, 'l, 'x) cell) mem" where
  "GlobalInClusterPrefixPoolList_DeepCopyInto M = list_DeepCopyInto (ListMeta_DeepCopyInto M)
     (copy_slice (CPrefixPools Global) (as_prefix_pools Global) (GlobalInClusterPrefixPool_DeepCopyInto M))"

definition GlobalInClusterPrefixPoolList_DeepCopy :: "('m, 'l, 'x) apimachinery \<Rightarrow> nat option \<Rightarrow> (nat option, ('m, 'l, 'x) cell) mem" where
  "GlobalInClusterPrefixPoolList_DeepCopy M = copy_ref (CList PrefixPools Global) (as_list PrefixPools Global) (GlobalInClusterPrefixPoolList_DeepCopyInto M)"

definition GlobalInClusterPrefixPoolList_DeepCopyObject :: "('m, 'l, 'x) apimachinery \<Rightarrow> nat option \<Rightarrow> (nat option, ('m, 'l, 'x) cell) mem" where
  "GlobalInClusterPrefixPoolList_DeepCopyObject M = copy_object (GlobalInClusterPrefixPoolList_DeepCopy M)"

definition a1_InClusterIPPool_DeepCopyInto :: "('m, 'l, 'x) apimachinery \<Rightarrow> ('m, a1_InClusterIPPoolSpec_mem) pool_mem \<Rightarrow> (('m, a1_InClusterIPPoolSpec_mem) pool_mem, ('m, 'l, 'x) cell) mem" where
  "a1_InClusterIPPool_DeepCopyInto M = pool_DeepCopyInto (ObjectMeta_DeepCopyInto M)
     a1_InClusterIPPoolSpec_DeepCopyInto a1_InClusterIPPoolStatus_DeepCopyInto"

definition a1_InClusterIPPool_DeepCopy :: "('m, 'l, 'x) apimachinery \<Rightarrow> nat option \<Rightarrow> (nat option, ('m, 'l, 'x) cell) mem" where
  "a1_InClusterIPPool_DeepCopy M = copy_ref (COldPool Namespaced) (as_old_pool Namespaced) (a1_InClusterIPPool_DeepCopyInto M)"

definition a1_InClusterIPPool_DeepCopyObject :: "('m, 'l, 'x) apimachinery \<Rightarrow> nat option \<Rightarrow> (nat option, ('m, 'l, 'x) cell) mem" where
  "a1_InClusterIPPool_DeepCopyObject M = copy_object (a1_InClusterIPPool_DeepCopy M)"

definition a1_InClusterIPPoolList_DeepCopyInto :: "('m, 'l, 'x) apimachinery \<Rightarrow> 'l list_mem \<Rightarrow> ('l list_mem, ('m, 'l, 'x) cell) mem" where
  "a1_InClusterIPPoolList_DeepCopyInto M = list_DeepCopyInto (ListMeta_DeepCopyInto M)
     (copy_slice (COldPools Namespaced) (as_old_pools Namespaced) (a1_InClusterIPPool_DeepCopyInto M))"

definition a1_InClusterIPPoolList_DeepCopy :: "('m, 'l, 'x) apimachinery \<Rightarrow> nat option \<Rightarrow> (nat option, ('m, 'l, 'x) cell) mem" where
  "a1_InClusterIPPoolList_DeepCopy M = copy_ref (CList OldPools Namespaced) (as_list OldPools Namespaced) (a1_InClusterIPPoolList_DeepCopyInto M)"

definition a1_InClusterIPPoolList_DeepCopyObject :: "('m, 'l, 'x) apimachinery \<Rightarrow> nat option \<Rightarrow> (nat option, ('m, 'l, 'x) cell) mem" where
  "a1_InClusterIPPoolList_DeepCopyObject M = copy_object (a1_InClusterIPPoolList_DeepCopy M)"

definition a1_GlobalInClusterIPPool_DeepCopyInto :: "('m, 'l, 'x) apimachinery \<Rightarrow> ('m, a1_InClusterIPPoolSpec_mem) pool_mem \<Rightarrow> (('m, a1_InClusterIPPoolSpec_mem) pool_mem, ('m, 'l, 'x) cell) mem" where
  "a1_GlobalInClusterIPPool_DeepCopyInto M = pool_DeepCopyInto (ObjectMeta_DeepCopyInto M)
     a1_InClusterIPPoolSpec_DeepCopyInto a1_InClusterIPPoolStatus_DeepCopyInto"

definition a1_GlobalInClusterIPPool_DeepCopy :: "('m, 'l, 'x) apimachinery \<Rightarrow> nat option \<Rightarrow> (nat option, ('m, 'l, 'x) cell) mem" where
  "a1_GlobalInClusterIPPool_DeepCopy M = copy_ref (COldPool Global) (as_old_pool Global) (a1_GlobalInClusterIPPool_DeepCopyInto M)"

definition a1_GlobalInClusterIPPool_DeepCopyObject :: "('m, 'l, 'x) apimachinery \<Rightarrow> nat option \<Rightarrow> (nat option, ('m, 'l, 'x) cell) mem" where
  "a1_GlobalInClusterIPPool_DeepCopyObject M = copy_object (a1_GlobalInClusterIPPool_DeepCopy M)"

definition a1_GlobalInClusterIPPoolList_DeepCopyInto :: "('m, 'l, 'x) apimachinery \<Rightarrow> 'l list_mem \<Rightarrow> ('l list_mem, ('m, 'l, 'x) cell) mem" where
  "a1_GlobalInClusterIPPoolList_DeepCopyInto M = list_DeepCopyInto (ListMeta_DeepCopyInto M)
     (copy_slice (COldPools Global) (as_old_pools Global) (a1_GlobalInClusterIPPool_DeepCopyInto M))"

definition a1_GlobalInClusterIPPoolList_DeepCopy :: "('m, 'l, 'x) apimachinery \<Rightarrow> nat option \<Rightarrow> (nat option, ('m, 'l, 'x) cell) mem" where
  "a1_GlobalInClusterIPPoolList_DeepCopy M = copy_ref (CList OldPools Global) (as_list OldPools Global) (a1_GlobalInClusterIPPoolList_DeepCopyInto M)"

definition a1_GlobalInClusterIPPoolList_DeepCopyObject :: "('m, 'l, 'x) apimachinery \<Rightarrow> nat option \<Rightarrow> (nat option, ('m, 'l, 'x) cell) mem" where
  "a1_GlobalInClusterIPPoolList_DeepCopyObject M = copy_object (a1_GlobalInClusterIPPoolList_DeepCopy M)"

subsection \<open>What the memory stands for\<close>

text \<open>The nil slice and the empty one are the same list of the model.\<close>

definition listed :: "'a list option \<Rightarrow> 'a list" where
  "listed p = (case p of None \<Rightarrow> [] | Some xs \<Rightarrow> xs)"

definition strings_value :: "('m, 'l, 'x) cell heap \<Rightarrow> slice option \<Rightarrow> string list option option" where
  "strings_value = slice_value as_strings (\<lambda>h. Some)"

definition strings_refs :: "('m, 'l, 'x) cell heap \<Rightarrow> slice option \<Rightarrow> nat set" where
  "strings_refs = slice_refs as_strings (\<lambda>h x. {})"

definition ptr_value :: "(('m, 'l, 'x) cell \<Rightarrow> 'a option) \<Rightarrow> ('m, 'l, 'x) cell heap \<Rightarrow> nat option \<Rightarrow> 'a option option" where
  "ptr_value sel = ref_value sel (\<lambda>h. Some)"

definition ptr_refs :: "(('m, 'l, 'x) cell \<Rightarrow> 'a option) \<Rightarrow> ('m, 'l, 'x) cell heap \<Rightarrow> nat option \<Rightarrow> nat set" where
  "ptr_refs sel = ref_refs sel (\<lambda>h x. {})"

definition spec_value :: "('m, 'l, 'x) cell heap \<Rightarrow> InClusterIPPoolSpec_mem \<Rightarrow> InClusterIPPoolSpec option" where
  "spec_value h x = map_option
     (\<lambda>(a, e, g). \<lparr>Addresses = listed a, spec_Prefix = sm_Prefix x, Gateway = sm_Gateway x,
        AllocateReservedIPAddresses = sm_AllocateReserved x, ExcludedAddresses = listed e,
        AddressReuseGracePeriodSeconds = g\<rparr>)
     (pair_value strings_value (pair_value strings_value (ptr_value as_int32)) h
        (sm_Addresses x, sm_Excluded x, sm_GracePeriod x))"

definition spec_refs :: "('m, 'l, 'x) cell heap \<Rightarrow> InClusterIPPoolSpec_mem \<Rightarrow> nat set" where
  "spec_refs h x = pair_refs strings_refs (pair_refs strings_refs (ptr_refs as_int32)) h
     (sm_Addresses x, sm_Excluded x, sm_GracePeriod x)"

definition prefix_spec_value ::
  "('m, 'l, 'x) cell heap \<Rightarrow> InClusterPrefixPoolSpec_mem \<Rightarrow> InClusterPrefixPoolSpec option" where
  "prefix_spec_value h x = map_option
     (\<lambda>(p, e). \<lparr>Prefixes = listed p, AllocationPrefixLength = xm_AllocationPrefixLength x,
        pp_Gateway = xm_Gateway x, ExcludedPrefixes = listed e\<rparr>)
     (pair_value strings_value strings_value h (xm_Prefixes x, xm_Excluded x))"

definition prefix_spec_refs :: "('m, 'l, 'x) cell heap \<Rightarrow> InClusterPrefixPoolSpec_mem \<Rightarrow> nat set" where
  "prefix_spec_refs h x = pair_refs strings_refs strings_refs h (xm_Prefixes x, xm_Excluded x)"

definition old_spec_of :: "a1_InClusterIPPoolSpec_mem \<Rightarrow> string list option \<Rightarrow> a1_InClusterIPPoolSpec" where
  "old_spec_of x a = \<lparr>a1_Addresses = listed a, a1_Subnet = old_Subnet x, a1_First = old_First x,
     a1_Last = old_Last x, a1_Prefix = old_Prefix x, a1_Gateway = old_Gateway x\<rparr>"

definition old_spec_value ::
  "('m, 'l, 'x) cell heap \<Rightarrow> a1_InClusterIPPoolSpec_mem \<Rightarrow> a1_InClusterIPPoolSpec option" where
  "old_spec_value h x = map_option (old_spec_of x) (strings_value h (old_Addresses x))"

definition old_spec_refs :: "('m, 'l, 'x) cell heap \<Rightarrow> a1_InClusterIPPoolSpec_mem \<Rightarrow> nat set" where
  "old_spec_refs h x = strings_refs h (old_Addresses x)"

text \<open>\<open>build\<close> puts a pool of the model together.\<close>

definition pool_value :: "(gvk \<Rightarrow> object_meta \<Rightarrow> 's \<Rightarrow> 't option \<Rightarrow> 'p) \<Rightarrow>
    ('c heap \<Rightarrow> 'm \<Rightarrow> object_meta option) \<Rightarrow> ('c heap \<Rightarrow> 'a \<Rightarrow> 's option) \<Rightarrow>
    ('c heap \<Rightarrow> nat option \<Rightarrow> 't option option) \<Rightarrow> 'c heap \<Rightarrow> ('m, 'a) pool_mem \<Rightarrow> 'p option" where
  "pool_value build V S T h x = map_option (\<lambda>(m, s, t). build (pm_type x) m s t)
     (pair_value V (pair_value S T) h (pm_meta x, pm_spec x, pm_status x))"

definition pool_refs :: "('c heap \<Rightarrow> 'm \<Rightarrow> nat set) \<Rightarrow> ('c heap \<Rightarrow> 'a \<Rightarrow> nat set) \<Rightarrow>
    ('c heap \<Rightarrow> nat option \<Rightarrow> nat set) \<Rightarrow> 'c heap \<Rightarrow> ('m, 'a) pool_mem \<Rightarrow> nat set" where
  "pool_refs R S T h x = pair_refs R (pair_refs S T) h (pm_meta x, pm_spec x, pm_status x)"

definition pool_list_value :: "('c heap \<Rightarrow> 'l \<Rightarrow> 'v option) \<Rightarrow> ('c heap \<Rightarrow> slice option \<Rightarrow> 'p list option option) \<Rightarrow>
    'c heap \<Rightarrow> 'l list_mem \<Rightarrow> (gvk \<times> ('v, 'p) object_list) option" where
  "pool_list_value V I h x = map_option (\<lambda>(m, i). (lm_type x, \<lparr>list_meta = m, list_items = i\<rparr>))
     (pair_value V I h (lm_meta x, lm_items x))"

definition pool_list_refs :: "('c heap \<Rightarrow> 'l \<Rightarrow> nat set) \<Rightarrow> ('c heap \<Rightarrow> slice option \<Rightarrow> nat set) \<Rightarrow>
    'c heap \<Rightarrow> 'l list_mem \<Rightarrow> nat set" where
  "pool_list_refs R I h x = pair_refs R I h (lm_meta x, lm_items x)"

subsection \<open>The copies of the parts\<close>

interpretation strings: copier strings_value strings_refs copy_strings
  unfolding strings_value_def strings_refs_def copy_strings_def
  by (rule copier_slice [OF copier_plain]) simp

interpretation string_lists: two_copiers strings_value strings_refs copy_strings strings_value strings_refs copy_strings
  by unfold_locales

interpretation int32s: box_copier "\<lambda>h. Some" "\<lambda>h x. {}" copy_plain CInt32 "\<lambda>r. r" "\<lambda>r. as_int32" "\<lambda>r x. r"
  by (rule box_copier.intro [OF copier_plain]) (simp add: box_copier_axioms_def)

lemma copier_ptr: "(\<And>x. sel (con x) = Some x) \<Longrightarrow> copier (ptr_value sel) (ptr_refs sel) (copy_ref con sel copy_plain)"
  unfolding ptr_value_def ptr_refs_def by (rule copier_ref [OF copier_plain])

lemma copier_gracePeriod: "copier (ptr_value as_int32) (ptr_refs as_int32) (copy_ref CInt32 as_int32 copy_plain)"
  unfolding ptr_value_def ptr_refs_def ref_value_def ref_refs_def copy_ref_def
  by (rule copier_option [OF int32s.box_is_copier])

lemma copier_struct_eq:
  assumes "copier V R f" "\<And>s x. part (put s x) = x" "\<And>s x v. build (put s x) v = build s v"
    and "\<And>h s. V' h s = map_option (build s) (V h (part s))" "\<And>h s. R' h s = R h (part s)"
    and "\<And>s. g s = mem_bind (f (part s)) (\<lambda>x. mem_return (put s x))"
  shows "copier V' R' g"
proof -
  have "V' = (\<lambda>h s. map_option (build s) (V h (part s)))" "R' = (\<lambda>h s. R h (part s))"
      "g = struct_copy part put f"
    using assms(4-6) by (simp_all add: fun_eq_iff struct_copy_def)
  then show ?thesis using copier_struct [OF assms(1), of part put build] assms(2,3) by simp
qed

lemma copier_spec: "copier spec_value spec_refs InClusterIPPoolSpec_DeepCopyInto"
proof (rule copier_struct_eq [where part = "\<lambda>x. (sm_Addresses x, sm_Excluded x, sm_GracePeriod x)"
      and put = "\<lambda>x p. x\<lparr>sm_Addresses := fst p, sm_Excluded := fst (snd p), sm_GracePeriod := snd (snd p)\<rparr>"])
  show "copier (pair_value strings_value (pair_value strings_value (ptr_value as_int32)))
      (pair_refs strings_refs (pair_refs strings_refs (ptr_refs as_int32)))
      (copy_pair copy_strings (copy_pair copy_strings (copy_ref CInt32 as_int32 copy_plain)))"
    by (intro copier_pair strings.copier_axioms copier_gracePeriod)
qed (simp_all add: spec_value_def spec_refs_def InClusterIPPoolSpec_DeepCopyInto_def copy_pair_def mem_bind_assoc)

lemma copier_prefix_spec: "copier prefix_spec_value prefix_spec_refs InClusterPrefixPoolSpec_DeepCopyInto"
proof (rule copier_struct_eq [where part = "\<lambda>x. (xm_Prefixes x, xm_Excluded x)"
      and put = "\<lambda>x p. x\<lparr>xm_Prefixes := fst p, xm_Excluded := snd p\<rparr>"])
  show "copier (pair_value strings_value strings_value) (pair_refs strings_refs strings_refs)
      (copy_pair copy_strings copy_strings)"
    by (rule string_lists.pair_copier)
qed (simp_all add: prefix_spec_value_def prefix_spec_refs_def InClusterPrefixPoolSpec_DeepCopyInto_def
    copy_pair_def mem_bind_assoc)

interpretation old_specs: struct_copier strings_value strings_refs copy_strings old_Addresses
  "\<lambda>x a. x\<lparr>old_Addresses := a\<rparr>" old_spec_of
  by unfold_locales (simp_all add: old_spec_of_def)

lemma copier_old_spec: "copier old_spec_value old_spec_refs a1_InClusterIPPoolSpec_DeepCopyInto"
  by (rule copier_struct_eq [where part = old_Addresses and put = "\<lambda>x a. x\<lparr>old_Addresses := a\<rparr>"
        and build = old_spec_of, OF strings.copier_axioms old_specs.part_put old_specs.build_put])
    (simp_all add: old_spec_value_def old_spec_refs_def a1_InClusterIPPoolSpec_DeepCopyInto_def)

lemma status_copies:
  "InClusterIPPoolStatus_DeepCopyInto = copy_ref CCounts as_counts copy_plain"
  "InClusterPrefixPoolStatus_DeepCopyInto = copy_ref CPrefixCounts as_prefix_counts copy_plain"
  "a1_InClusterIPPoolStatus_DeepCopyInto = copy_ref COldCounts as_old_counts copy_plain"
  by (simp_all add: fun_eq_iff InClusterIPPoolStatus_DeepCopyInto_def InClusterPrefixPoolStatus_DeepCopyInto_def
      a1_InClusterIPPoolStatus_DeepCopyInto_def)

lemma copier_status:
  "copier (ptr_value as_counts) (ptr_refs as_counts) InClusterIPPoolStatus_DeepCopyInto"
  "copier (ptr_value as_prefix_counts) (ptr_refs as_prefix_counts) InClusterPrefixPoolStatus_DeepCopyInto"
  "copier (ptr_value as_old_counts) (ptr_refs as_old_counts) a1_InClusterIPPoolStatus_DeepCopyInto"
  using copier_ptr [of as_counts CCounts] copier_ptr [of as_prefix_counts CPrefixCounts]
    copier_ptr [of as_old_counts COldCounts]
  by (simp_all add: status_copies)

lemma copy_object_eq [simp]: "copy_object copy = copy"
proof (intro ext)
  show "copy_object copy p h = copy p h" for p h
    by (cases "copy p h") (auto simp: copy_object_def mem_bind_def mem_return_def split: option.splits)
qed

subsection \<open>The copies of pools and lists\<close>

text \<open>What the code relies on of apimachinery: the metadata are copied deeply.\<close>

locale metadata_copiers =
  meta: copier MV MR "ObjectMeta_DeepCopyInto M" + list_meta: copier LV LR "ListMeta_DeepCopyInto M"
  for M :: "('m, 'l, 'x) apimachinery" and MV :: "('m, 'l, 'x) cell heap \<Rightarrow> 'm \<Rightarrow> object_meta option" and MR
    and LV :: "('m, 'l, 'x) cell heap \<Rightarrow> 'l \<Rightarrow> 'v option" and LR
begin

lemma pool_copier:
  assumes "copier S SR copySpec" "copier T TR copyStatus"
  shows "copier (pool_value build MV S T) (pool_refs MR SR TR)
    (pool_DeepCopyInto (ObjectMeta_DeepCopyInto M) copySpec copyStatus)"
  by (rule copier_struct_eq [where part = "\<lambda>x. (pm_meta x, pm_spec x, pm_status x)"
        and put = "\<lambda>x p. x\<lparr>pm_meta := fst p, pm_spec := fst (snd p), pm_status := snd (snd p)\<rparr>",
        OF copier_pair [OF meta.copier_axioms copier_pair [OF assms]]])
    (simp_all add: pool_value_def pool_refs_def pool_DeepCopyInto_def copy_pair_def mem_bind_assoc)

lemma list_copier:
  assumes "copier I IR copyItems"
  shows "copier (pool_list_value LV I) (pool_list_refs LR IR)
    (list_DeepCopyInto (ListMeta_DeepCopyInto M) copyItems)"
  by (rule copier_struct_eq [where part = "\<lambda>x. (lm_meta x, lm_items x)"
        and put = "\<lambda>x p. x\<lparr>lm_meta := fst p, lm_items := snd p\<rparr>",
        OF copier_pair [OF list_meta.copier_axioms assms]])
    (simp_all add: pool_list_value_def pool_list_refs_def list_DeepCopyInto_def copy_pair_def mem_bind_assoc)

end

text \<open>
  The API types: their metadata are pointers to cells that the client does not look into, and
  the metadata of a list are a count.
\<close>

definition ref_machinery :: "(nat, nat option, object_meta) apimachinery" where
  "ref_machinery =
     \<lparr>ObjectMeta_DeepCopyInto = copy_box CForeign (\<lambda>r. r) (\<lambda>r. as_foreign) (\<lambda>r x. r) copy_plain,
      ListMeta_DeepCopyInto = copy_ref CInt32 as_int32 copy_plain\<rparr>"

definition ref_meta_value :: "(nat, nat option, object_meta) cell heap \<Rightarrow> nat \<Rightarrow> object_meta option" where
  "ref_meta_value = box_value (\<lambda>r. r) (\<lambda>r. as_foreign) (\<lambda>h. Some)"

definition ref_meta_refs :: "(nat, nat option, object_meta) cell heap \<Rightarrow> nat \<Rightarrow> nat set" where
  "ref_meta_refs = box_refs (\<lambda>r. r) (\<lambda>r. as_foreign) (\<lambda>h x. {})"

interpretation ref_metadata: metadata_copiers ref_machinery ref_meta_value ref_meta_refs "ptr_value as_int32" "ptr_refs as_int32"
proof (rule metadata_copiers.intro)
  show "copier ref_meta_value ref_meta_refs (ObjectMeta_DeepCopyInto ref_machinery)"
    unfolding ref_meta_value_def ref_meta_refs_def ref_machinery_def apimachinery.simps
    by (rule copier_box [OF copier_plain]) simp_all
  show "copier (ptr_value as_int32) (ptr_refs as_int32) (ListMeta_DeepCopyInto ref_machinery)"
    using copier_gracePeriod by (simp add: ref_machinery_def)
qed

subsection \<open>The copies of the objects\<close>

text \<open>An object is a pointer to a cell that \<open>sel\<close> reads.\<close>

abbreviation object_apart :: "('c \<Rightarrow> 'a option) \<Rightarrow> ('c heap \<Rightarrow> 'a \<Rightarrow> 'v option) \<Rightarrow> ('c heap \<Rightarrow> 'a \<Rightarrow> nat set) \<Rightarrow>
    (nat option \<Rightarrow> (nat option, 'c) mem) \<Rightarrow> bool" where
  "object_apart sel V R copy \<equiv> copies_apart (ref_value sel V) (ref_refs sel R) copy"

lemma object_apart:
  assumes "copier V R f" "\<And>x. sel (con x) = Some x" "copy = copy_ref con sel f"
  shows "object_apart sel V R copy"
  using copier.apart [OF copier_ref [OF assms(1,2)]] assms(3) by simp

lemma counts_copies:
  "InClusterIPPoolStatusIPAddresses_DeepCopyInto = copy_plain"
  "InClusterPrefixPoolStatusAddresses_DeepCopyInto = copy_plain"
  "a1_InClusterIPPoolStatusIPAddresses_DeepCopyInto = copy_plain"
  by (simp_all add: fun_eq_iff copy_plain_def InClusterIPPoolStatusIPAddresses_DeepCopyInto_def
      InClusterPrefixPoolStatusAddresses_DeepCopyInto_def a1_InClusterIPPoolStatusIPAddresses_DeepCopyInto_def)

text \<open>The copies of specs, statuses and counts, which callers can also take on their own.\<close>

lemma parts_apart:
  "object_apart as_spec spec_value spec_refs InClusterIPPoolSpec_DeepCopy"
  "object_apart as_prefix_spec prefix_spec_value prefix_spec_refs InClusterPrefixPoolSpec_DeepCopy"
  "object_apart as_old_spec old_spec_value old_spec_refs a1_InClusterIPPoolSpec_DeepCopy"
  "object_apart (as_status IPPools) (ptr_value as_counts) (ptr_refs as_counts) InClusterIPPoolStatus_DeepCopy"
  "object_apart (as_status PrefixPools) (ptr_value as_prefix_counts) (ptr_refs as_prefix_counts) InClusterPrefixPoolStatus_DeepCopy"
  "object_apart (as_status OldPools) (ptr_value as_old_counts) (ptr_refs as_old_counts) a1_InClusterIPPoolStatus_DeepCopy"
  "object_apart as_counts (\<lambda>h. Some) (\<lambda>h x. {}) InClusterIPPoolStatusIPAddresses_DeepCopy"
  "object_apart as_prefix_counts (\<lambda>h. Some) (\<lambda>h x. {}) InClusterPrefixPoolStatusAddresses_DeepCopy"
  "object_apart as_old_counts (\<lambda>h. Some) (\<lambda>h x. {}) a1_InClusterIPPoolStatusIPAddresses_DeepCopy"
proof -
  show "object_apart as_spec spec_value spec_refs InClusterIPPoolSpec_DeepCopy"
    by (rule object_apart [where con = "CSpec", OF copier_spec])
      (simp_all add: InClusterIPPoolSpec_DeepCopy_def)
  show "object_apart as_prefix_spec prefix_spec_value prefix_spec_refs InClusterPrefixPoolSpec_DeepCopy"
    by (rule object_apart [where con = "CPrefixSpec", OF copier_prefix_spec])
      (simp_all add: InClusterPrefixPoolSpec_DeepCopy_def)
  show "object_apart as_old_spec old_spec_value old_spec_refs a1_InClusterIPPoolSpec_DeepCopy"
    by (rule object_apart [where con = "COldSpec", OF copier_old_spec])
      (simp_all add: a1_InClusterIPPoolSpec_DeepCopy_def)
  show "object_apart (as_status IPPools) (ptr_value as_counts) (ptr_refs as_counts) InClusterIPPoolStatus_DeepCopy"
    by (rule object_apart [where con = "CStatus IPPools", OF copier_status(1)])
      (simp_all add: InClusterIPPoolStatus_DeepCopy_def)
  show "object_apart (as_status PrefixPools) (ptr_value as_prefix_counts) (ptr_refs as_prefix_counts) InClusterPrefixPoolStatus_DeepCopy"
    by (rule object_apart [where con = "CStatus PrefixPools", OF copier_status(2)])
      (simp_all add: InClusterPrefixPoolStatus_DeepCopy_def)
  show "object_apart (as_status OldPools) (ptr_value as_old_counts) (ptr_refs as_old_counts) a1_InClusterIPPoolStatus_DeepCopy"
    by (rule object_apart [where con = "CStatus OldPools", OF copier_status(3)])
      (simp_all add: a1_InClusterIPPoolStatus_DeepCopy_def)
  show "object_apart as_counts (\<lambda>h. Some) (\<lambda>h x. {}) InClusterIPPoolStatusIPAddresses_DeepCopy"
    by (rule object_apart [where con = "CCounts", OF copier_plain])
      (simp_all add: InClusterIPPoolStatusIPAddresses_DeepCopy_def counts_copies)
  show "object_apart as_prefix_counts (\<lambda>h. Some) (\<lambda>h x. {}) InClusterPrefixPoolStatusAddresses_DeepCopy"
    by (rule object_apart [where con = "CPrefixCounts", OF copier_plain])
      (simp_all add: InClusterPrefixPoolStatusAddresses_DeepCopy_def counts_copies)
  show "object_apart as_old_counts (\<lambda>h. Some) (\<lambda>h x. {}) a1_InClusterIPPoolStatusIPAddresses_DeepCopy"
    by (rule object_apart [where con = "COldCounts", OF copier_plain])
      (simp_all add: a1_InClusterIPPoolStatusIPAddresses_DeepCopy_def counts_copies)
qed

abbreviation ip_value where
  "ip_value build MV \<equiv> pool_value build MV spec_value (ptr_value as_counts)"

abbreviation ip_refs where
  "ip_refs MR \<equiv> pool_refs MR spec_refs (ptr_refs as_counts)"

abbreviation prefix_value where
  "prefix_value build MV \<equiv> pool_value build MV prefix_spec_value (ptr_value as_prefix_counts)"

abbreviation prefix_refs where
  "prefix_refs MR \<equiv> pool_refs MR prefix_spec_refs (ptr_refs as_prefix_counts)"

abbreviation old_value where
  "old_value build MV \<equiv> pool_value build MV old_spec_value (ptr_value as_old_counts)"

abbreviation old_refs where
  "old_refs MR \<equiv> pool_refs MR old_spec_refs (ptr_refs as_old_counts)"

context metadata_copiers
begin

lemma ip_copier: "copier (ip_value build MV) (ip_refs MR)
    (pool_DeepCopyInto (ObjectMeta_DeepCopyInto M) InClusterIPPoolSpec_DeepCopyInto InClusterIPPoolStatus_DeepCopyInto)"
  by (rule pool_copier [OF copier_spec copier_status(1)])

lemma InClusterIPPool_apart:
  "object_apart (as_pool Namespaced) (ip_value InClusterIPPool.make MV) (ip_refs MR)
      (InClusterIPPool_DeepCopyObject M)"
  by (rule object_apart [where con = "CPool Namespaced", OF ip_copier])
    (simp_all add: InClusterIPPool_DeepCopyObject_def InClusterIPPool_DeepCopy_def InClusterIPPool_DeepCopyInto_def)

lemma InClusterIPPoolList_apart:
  "object_apart (as_list IPPools Namespaced)
      (pool_list_value LV (slice_value (as_pools Namespaced) (ip_value InClusterIPPool.make MV)))
      (pool_list_refs LR (slice_refs (as_pools Namespaced) (ip_refs MR))) (InClusterIPPoolList_DeepCopyObject M)"
  by (rule object_apart [where con = "CList IPPools Namespaced", OF list_copier
        [OF copier_slice [where con = "CPools Namespaced", OF ip_copier]]])
    (simp_all add: InClusterIPPoolList_DeepCopyObject_def InClusterIPPoolList_DeepCopy_def InClusterIPPoolList_DeepCopyInto_def InClusterIPPool_DeepCopyInto_def)

lemma GlobalInClusterIPPool_apart:
  "object_apart (as_pool Global) (ip_value GlobalInClusterIPPool.make MV) (ip_refs MR)
      (GlobalInClusterIPPool_DeepCopyObject M)"
  by (rule object_apart [where con = "CPool Global", OF ip_copier])
    (simp_all add: GlobalInClusterIPPool_DeepCopyObject_def GlobalInClusterIPPool_DeepCopy_def GlobalInClusterIPPool_DeepCopyInto_def)

lemma GlobalInClusterIPPoolList_apart:
  "object_apart (as_list IPPools Global)
      (pool_list_value LV (slice_value (as_pools Global) (ip_value GlobalInClusterIPPool.make MV)))
      (pool_list_refs LR (slice_refs (as_pools Global) (ip_refs MR))) (GlobalInClusterIPPoolList_DeepCopyObject M)"
  by (rule object_apart [where con = "CList IPPools Global", OF list_copier
        [OF copier_slice [where con = "CPools Global", OF ip_copier]]])
    (simp_all add: GlobalInClusterIPPoolList_DeepCopyObject_def GlobalInClusterIPPoolList_DeepCopy_def GlobalInClusterIPPoolList_DeepCopyInto_def GlobalInClusterIPPool_DeepCopyInto_def)

lemma prefix_copier: "copier (prefix_value build MV) (prefix_refs MR)
    (pool_DeepCopyInto (ObjectMeta_DeepCopyInto M) InClusterPrefixPoolSpec_DeepCopyInto InClusterPrefixPoolStatus_DeepCopyInto)"
  by (rule pool_copier [OF copier_prefix_spec copier_status(2)])

lemma InClusterPrefixPool_apart:
  "object_apart (as_prefix_pool Namespaced) (prefix_value InClusterPrefixPool.make MV) (prefix_refs MR)
      (InClusterPrefixPool_DeepCopyObject M)"
  by (rule object_apart [where con = "CPrefixPool Namespaced", OF prefix_copier])
    (simp_all add: InClusterPrefixPool_DeepCopyObject_def InClusterPrefixPool_DeepCopy_def InClusterPrefixPool_DeepCopyInto_def)

lemma InClusterPrefixPoolList_apart:
  "object_apart (as_list PrefixPools Namespaced)
      (pool_list_value LV (slice_value (as_prefix_pools Namespaced) (prefix_value InClusterPrefixPool.make MV)))
      (pool_list_refs LR (slice_refs (as_prefix_pools Namespaced) (prefix_refs MR))) (InClusterPrefixPoolList_DeepCopyObject M)"
  by (rule object_apart [where con = "CList PrefixPools Namespaced", OF list_copier
        [OF copier_slice [where con = "CPrefixPools Namespaced", OF prefix_copier]]])
    (simp_all add: InClusterPrefixPoolList_DeepCopyObject_def InClusterPrefixPoolList_DeepCopy_def InClusterPrefixPoolList_DeepCopyInto_def InClusterPrefixPool_DeepCopyInto_def)

lemma GlobalInClusterPrefixPool_apart:
  "object_apart (as_prefix_pool Global) (prefix_value GlobalInClusterPrefixPool.make MV) (prefix_refs MR)
      (GlobalInClusterPrefixPool_DeepCopyObject M)"
  by (rule object_apart [where con = "CPrefixPool Global", OF prefix_copier])
    (simp_all add: GlobalInClusterPrefixPool_DeepCopyObject_def GlobalInClusterPrefixPool_DeepCopy_def GlobalInClusterPrefixPool_DeepCopyInto_def)

lemma GlobalInClusterPrefixPoolList_apart:
  "object_apart (as_list PrefixPools Global)
      (pool_list_value LV (slice_value (as_prefix_pools Global) (prefix_value GlobalInClusterPrefixPool.make MV)))
      (pool_list_refs LR (slice_refs (as_prefix_pools Global) (prefix_refs MR))) (GlobalInClusterPrefixPoolList_DeepCopyObject M)"
  by (rule object_apart [where con = "CList PrefixPools Global", OF list_copier
        [OF copier_slice [where con = "CPrefixPools Global", OF prefix_copier]]])
    (simp_all add: GlobalInClusterPrefixPoolList_DeepCopyObject_def GlobalInClusterPrefixPoolList_DeepCopy_def GlobalInClusterPrefixPoolList_DeepCopyInto_def GlobalInClusterPrefixPool_DeepCopyInto_def)

lemma old_copier: "copier (old_value build MV) (old_refs MR)
    (pool_DeepCopyInto (ObjectMeta_DeepCopyInto M) a1_InClusterIPPoolSpec_DeepCopyInto a1_InClusterIPPoolStatus_DeepCopyInto)"
  by (rule pool_copier [OF copier_old_spec copier_status(3)])

lemma a1_InClusterIPPool_apart:
  "object_apart (as_old_pool Namespaced) (old_value a1_InClusterIPPool.make MV) (old_refs MR)
      (a1_InClusterIPPool_DeepCopyObject M)"
  by (rule object_apart [where con = "COldPool Namespaced", OF old_copier])
    (simp_all add: a1_InClusterIPPool_DeepCopyObject_def a1_InClusterIPPool_DeepCopy_def a1_InClusterIPPool_DeepCopyInto_def)

lemma a1_InClusterIPPoolList_apart:
  "object_apart (as_list OldPools Namespaced)
      (pool_list_value LV (slice_value (as_old_pools Namespaced) (old_value a1_InClusterIPPool.make MV)))
      (pool_list_refs LR (slice_refs (as_old_pools Namespaced) (old_refs MR))) (a1_InClusterIPPoolList_DeepCopyObject M)"
  by (rule object_apart [where con = "CList OldPools Namespaced", OF list_copier
        [OF copier_slice [where con = "COldPools Namespaced", OF old_copier]]])
    (simp_all add: a1_InClusterIPPoolList_DeepCopyObject_def a1_InClusterIPPoolList_DeepCopy_def a1_InClusterIPPoolList_DeepCopyInto_def a1_InClusterIPPool_DeepCopyInto_def)

lemma a1_GlobalInClusterIPPool_apart:
  "object_apart (as_old_pool Global) (old_value a1_GlobalInClusterIPPool.make MV) (old_refs MR)
      (a1_GlobalInClusterIPPool_DeepCopyObject M)"
  by (rule object_apart [where con = "COldPool Global", OF old_copier])
    (simp_all add: a1_GlobalInClusterIPPool_DeepCopyObject_def a1_GlobalInClusterIPPool_DeepCopy_def a1_GlobalInClusterIPPool_DeepCopyInto_def)

lemma a1_GlobalInClusterIPPoolList_apart:
  "object_apart (as_list OldPools Global)
      (pool_list_value LV (slice_value (as_old_pools Global) (old_value a1_GlobalInClusterIPPool.make MV)))
      (pool_list_refs LR (slice_refs (as_old_pools Global) (old_refs MR))) (a1_GlobalInClusterIPPoolList_DeepCopyObject M)"
  by (rule object_apart [where con = "CList OldPools Global", OF list_copier
        [OF copier_slice [where con = "COldPools Global", OF old_copier]]])
    (simp_all add: a1_GlobalInClusterIPPoolList_DeepCopyObject_def a1_GlobalInClusterIPPoolList_DeepCopy_def a1_GlobalInClusterIPPoolList_DeepCopyInto_def a1_GlobalInClusterIPPool_DeepCopyInto_def)

end

text \<open>A pool in memory, with two slices on one array.\<close>

definition stored_meta :: object_meta where
  "stored_meta = \<lparr>om_name = ''pool'', om_namespace = ''default'', om_labels = Map.empty,
     om_annotations = Map.empty, om_finalizers = [], om_deletion = None, om_owners = []\<rparr>"

definition stored_type :: gvk where
  "stored_type = \<lparr>gvk_group = ''ipam.cluster.x-k8s.io'', gvk_version = ''v1alpha2'', gvk_kind = ''InClusterIPPool''\<rparr>"

definition stored_memory :: "(nat, nat option, object_meta) cell heap" where
  "stored_memory = \<lparr>hp_next = 5, hp_cells =
     [0 \<mapsto> CForeign stored_meta, 1 \<mapsto> CStrings [''10.0.0.1'', ''10.0.0.2''], 2 \<mapsto> CInt32 30,
      3 \<mapsto> CCounts \<lparr>Total = 2, Free = 1, Used = 0, OutOfRange = 0\<rparr>,
      4 \<mapsto> CPool Namespaced \<lparr>pm_type = stored_type, pm_meta = 0,
        pm_spec = \<lparr>sm_Addresses = Some \<lparr>sl_array = 1, sl_from = 0, sl_len = 2\<rparr>, sm_Prefix = 24,
          sm_Gateway = ''10.0.0.254'', sm_AllocateReserved = False,
          sm_Excluded = Some \<lparr>sl_array = 1, sl_from = 1, sl_len = 1\<rparr>, sm_GracePeriod = Some 2\<rparr>,
        pm_status = Some 3\<rparr>]\<rparr>"

definition stored_pool :: InClusterIPPool where
  "stored_pool = \<lparr>ip_gvk = stored_type, ip_meta = stored_meta,
     ip_spec = \<lparr>Addresses = [''10.0.0.1'', ''10.0.0.2''], spec_Prefix = 24, Gateway = ''10.0.0.254'',
       AllocateReservedIPAddresses = False, ExcludedAddresses = [''10.0.0.2''],
       AddressReuseGracePeriodSeconds = Some 30\<rparr>,
     ip_status = Some \<lparr>Total = 2, Free = 1, Used = 0, OutOfRange = 0\<rparr>\<rparr>"

lemmas memory_values = ref_value_def option_value_def box_value_def content_def ref_meta_value_def
  pool_value_def pair_value_def spec_value_def strings_value_def slice_value_def window_def ptr_value_def
  listed_def

lemma stored_memory_ok: "heap_ok stored_memory"
  by (simp add: heap_ok_def stored_memory_def)

lemma stored_memory_pool:
  "ref_value (as_pool Namespaced) (ip_value InClusterIPPool.make ref_meta_value) stored_memory (Some 4)
     = Some (Some stored_pool)"
  by (simp add: memory_values stored_memory_def stored_pool_def InClusterIPPool.defs list_value.simps(2))

text \<open>C39: The generated DeepCopyObject of each of the twelve kinds, the four pools of
  v1alpha2, the two of v1alpha1 and the lists of each, returns for every object in memory a
  copy with the same value that shares no slice, array or pointer with it, so that no change of
  the copy changes the original; a nil object gives nil. The copies of the metadata, which are
  not part of the repository, are assumed to do the same.\<close>

theorem deep_copies_share_nothing:
  fixes M :: "('m, 'l, 'x) apimachinery"
  assumes "metadata_copiers M MV MR LV LR"
  shows "object_apart (as_pool Namespaced) (ip_value InClusterIPPool.make MV) (ip_refs MR)
      (InClusterIPPool_DeepCopyObject M)
    \<and> object_apart (as_list IPPools Namespaced)
      (pool_list_value LV (slice_value (as_pools Namespaced) (ip_value InClusterIPPool.make MV)))
      (pool_list_refs LR (slice_refs (as_pools Namespaced) (ip_refs MR))) (InClusterIPPoolList_DeepCopyObject M)
    \<and> object_apart (as_pool Global) (ip_value GlobalInClusterIPPool.make MV) (ip_refs MR)
      (GlobalInClusterIPPool_DeepCopyObject M)
    \<and> object_apart (as_list IPPools Global)
      (pool_list_value LV (slice_value (as_pools Global) (ip_value GlobalInClusterIPPool.make MV)))
      (pool_list_refs LR (slice_refs (as_pools Global) (ip_refs MR))) (GlobalInClusterIPPoolList_DeepCopyObject M)
    \<and> object_apart (as_prefix_pool Namespaced) (prefix_value InClusterPrefixPool.make MV) (prefix_refs MR)
      (InClusterPrefixPool_DeepCopyObject M)
    \<and> object_apart (as_list PrefixPools Namespaced)
      (pool_list_value LV (slice_value (as_prefix_pools Namespaced) (prefix_value InClusterPrefixPool.make MV)))
      (pool_list_refs LR (slice_refs (as_prefix_pools Namespaced) (prefix_refs MR))) (InClusterPrefixPoolList_DeepCopyObject M)
    \<and> object_apart (as_prefix_pool Global) (prefix_value GlobalInClusterPrefixPool.make MV) (prefix_refs MR)
      (GlobalInClusterPrefixPool_DeepCopyObject M)
    \<and> object_apart (as_list PrefixPools Global)
      (pool_list_value LV (slice_value (as_prefix_pools Global) (prefix_value GlobalInClusterPrefixPool.make MV)))
      (pool_list_refs LR (slice_refs (as_prefix_pools Global) (prefix_refs MR))) (GlobalInClusterPrefixPoolList_DeepCopyObject M)
    \<and> object_apart (as_old_pool Namespaced) (old_value a1_InClusterIPPool.make MV) (old_refs MR)
      (a1_InClusterIPPool_DeepCopyObject M)
    \<and> object_apart (as_list OldPools Namespaced)
      (pool_list_value LV (slice_value (as_old_pools Namespaced) (old_value a1_InClusterIPPool.make MV)))
      (pool_list_refs LR (slice_refs (as_old_pools Namespaced) (old_refs MR))) (a1_InClusterIPPoolList_DeepCopyObject M)
    \<and> object_apart (as_old_pool Global) (old_value a1_GlobalInClusterIPPool.make MV) (old_refs MR)
      (a1_GlobalInClusterIPPool_DeepCopyObject M)
    \<and> object_apart (as_list OldPools Global)
      (pool_list_value LV (slice_value (as_old_pools Global) (old_value a1_GlobalInClusterIPPool.make MV)))
      (pool_list_refs LR (slice_refs (as_old_pools Global) (old_refs MR))) (a1_GlobalInClusterIPPoolList_DeepCopyObject M)"
  using metadata_copiers.InClusterIPPool_apart [OF assms] metadata_copiers.InClusterIPPoolList_apart [OF assms] metadata_copiers.GlobalInClusterIPPool_apart [OF assms] metadata_copiers.GlobalInClusterIPPoolList_apart [OF assms] metadata_copiers.InClusterPrefixPool_apart [OF assms] metadata_copiers.InClusterPrefixPoolList_apart [OF assms] metadata_copiers.GlobalInClusterPrefixPool_apart [OF assms] metadata_copiers.GlobalInClusterPrefixPoolList_apart [OF assms] metadata_copiers.a1_InClusterIPPool_apart [OF assms] metadata_copiers.a1_InClusterIPPoolList_apart [OF assms] metadata_copiers.a1_GlobalInClusterIPPool_apart [OF assms] metadata_copiers.a1_GlobalInClusterIPPoolList_apart [OF assms]
  by blast

theorem deep_copies_share_nothing_witness:
  "\<exists>y h'. InClusterIPPool_DeepCopyObject ref_machinery (Some 4) stored_memory = Some (y, h')
     \<and> ref_value (as_pool Namespaced) (ip_value InClusterIPPool.make ref_meta_value) h' y = Some (Some stored_pool)
     \<and> ref_refs (as_pool Namespaced) (ip_refs ref_meta_refs) h' (Some 4)
         \<inter> ref_refs (as_pool Namespaced) (ip_refs ref_meta_refs) h' y = {}"
  using deep_copies_share_nothing [OF ref_metadata.metadata_copiers_axioms, THEN conjunct1]
    stored_memory_ok stored_memory_pool
  unfolding copies_apart_def by blast

end
