(* ===== verification/Spec2Isabelle.thy ===== *)
theory Spec2Isabelle
  imports AllocationTable PoolUsage PoolConversion Startup DeepCopy
begin

text \<open>
  A model of the Cluster API IPAM provider \<open>cluster-api-ipam-provider-in-cluster\<close> and of the
  properties that make it correct. Paths below are relative to the repository.

  The program. Users create pools of addresses or of prefixes. An \<open>IPAddressClaim\<close> names a
  pool; the claim controller answers it with an \<open>IPAddress\<close> of the same name. The objects
  live in the Kubernetes API server, and the parts of the program meet only there: admission
  webhooks decide which pools are stored (\<open>internal/webhooks\<close>), the claim controller allocates
  and releases (\<open>pkg/ipamutil\<close> with the handlers of \<open>internal/controllers\<close>), the pool
  controllers keep the finalizer and the usage counts of pools (\<open>internal/controllers\<close>), watches
  and predicates decide which events start which reconciliation (\<open>pkg/predicates\<close>,
  \<open>internal/index\<close>), and \<open>main.go\<close> starts all of it. Address arithmetic is in
  \<open>internal/poolutil\<close>; \<open>api/v1alpha1\<close> converts the old version of the pools.

  Conventions. A Go struct is a record with the fields the code uses, a pointer that may be nil
  an option, an interface the datatype of its implementations. A result with an error is a
  sum, a result with a panic an \<open>outcome\<close>; a reconciliation that may also run forever has a
  result with a case for it. \<open>int\<close> and \<open>int32\<close> are integers with the wrap-around written out,
  addresses are 32 and 128 bit words. Functions that write to the cluster take and return a
  world. Logging is left out.

  Addresses. \<open>NetIP\<close>, \<open>NetIPText\<close> and \<open>NetIPRoundTrip\<close>: the part of the standard package
  \<open>net/netip\<close> that is used, with its parser and printer and the proof that what is printed
  reads back. \<open>NetIPX\<close>: the package \<open>go4.org/netipx\<close>, a parameter with the locale
  \<open>netipx_laws\<close>; \<open>RefIPSet\<close> interprets it on lists of ranges.

  Pools. \<open>ApiTypes\<close>: \<open>api/v1alpha2\<close> and \<open>pkg/types\<close>. \<open>PoolUtil\<close>: \<open>poolutil/pool.go\<close>; the set
  of a pool spec on every branch, the search for the least free address, counts. \<open>PrefixUtil\<close>:
  \<open>poolutil/prefix.go\<close>; search, count and membership test against one declarative notion of an
  allocatable prefix. \<open>Conversion\<close> and \<open>PoolConversion\<close>: \<open>api/v1alpha1\<close>, its conversions and
  round trips. \<open>Memory\<close> and \<open>DeepCopy\<close>: the generated deep copies of both versions, over a heap
  with arrays, slices and pointers; a copy shares no memory with its original.

  Claims. \<open>Index\<close>: \<open>internal/index\<close> and \<open>pkg/predicates\<close>. \<open>Kube\<close>: the client and the other
  functions of Kubernetes, a parameter with the locales \<open>object_laws\<close>, \<open>kube_laws\<close> and \<open>kube_up\<close>
  (the API server answers); \<open>RefKube\<close> interprets them on a concrete store. \<open>ClaimHandler\<close>:
  \<open>ipaddressclaim*.go\<close>; \<open>Allocation\<close>: what the handlers allocate and when they release.
  \<open>Reconciler\<close>: \<open>pkg/ipamutil\<close>; \<open>ReconcileEffects\<close>: what a reconciliation changes, for every
  provider. \<open>ClaimLifecycle\<close>: the step relation \<open>reachable\<close> of reconciliations and steps of
  others, and the contract \<open>adapter_laws\<close> of the interface \<open>ClaimHandler\<close>, from which the
  invariant follows that nothing is allocated twice. \<open>InCluster\<close>: the handlers keep the
  contract. \<open>AllocationTable\<close>: an abstract table of allocations that the program refines.

  Controllers, webhooks and start. \<open>PoolController\<close> and \<open>PoolUsage\<close>: \<open>inclusterippool.go\<close> and
  \<open>inclusterprefixpool.go\<close> of \<open>internal/controllers\<close>, with what they write to a pool.
  \<open>Webhooks\<close>, \<open>PrefixWebhooks\<close>, \<open>Admission\<close> and \<open>PrefixAdmission\<close>: \<open>internal/webhooks\<close>;
  validation never panics and decides a declarative predicate, and the pools it admits are
  usable. \<open>Watches\<close> and \<open>Wakeups\<close>: the controllers that the \<open>SetupWithManager\<close> functions
  build, and which event enqueues which request. \<open>Startup\<close>: \<open>main.go\<close>. \<open>Prelude\<close>: errors, Go
  integers and shared lemmas.

  This theory holds the properties that span components: safety, liveness and termination of
  reconciliation, and the refinement of the allocation table.

  Termination. There is no fuel. The loop over the addresses of a range is a
  \<open>partial_function\<close>, and the search is proved to return for every set; a reconciliation would
  end in \<open>Diverges\<close> if it did not, which is excluded. The searches and counts that split
  prefixes recurse on the number of bits left, with a termination proof.

  Assumptions. The laws of the locales state documented behaviour and are interpreted on
  concrete instances, on which the witnesses evaluate. Reconciliations run one at a time, as
  the claim controller is configured (\<open>MaxConcurrentReconciles\<close> is 1), and reads see the writes
  before them: for the address of a new claim the code waits until its cache does.
  Between two reconciliations others do what the properties allow in \<open>env\<close>.

  Not modelled. \<open>version/\<close>: strings set by the linker, which nothing imports. Registration of
  types and conversion functions in the scheme (\<open>groupversion_info.go\<close>, the init functions,
  \<open>RegisterConversions\<close>) and the markers of the hub version: tables of the library, without
  logic of the program. Parsing of the command line, retries, leader election and the cache:
  the framework. Tests, configuration files and \<open>hack/\<close>.
\<close>

subsection \<open>An example run\<close>

definition demo_adapter :: "(in_cluster_handler, ref_world) provider_adapter" where
  "demo_adapter = in_cluster_adapter ref_netipx ref_kube"

definition demo_run :: "string \<Rightarrow> ref_world" where
  "demo_run name = fst (Reconcile ref_kube demo_adapter (''ns'', name) demo_world)"


lemma demo_stores:
  "ref_addr demo_world k = Some a \<Longrightarrow>
     a = demo_address ''old'' (demo_ref ''InClusterIPPool'' ''pool'') ''10.0.0.2'' 29 \<and> k = (''ns'', ''old'')
     \<or> a = demo_address ''oldnet'' (demo_ref ''InClusterPrefixPool'' ''prefixes'') ''10.1.0.64'' 26
       \<and> k = (''ns'', ''oldnet'')"
  "ref_claim demo_world k = Some c \<Longrightarrow>
     c = demo_claim ''old'' (demo_ref ''InClusterIPPool'' ''pool'') \<and> k = (''ns'', ''old'')
     \<or> c = demo_claim ''new'' (demo_ref ''InClusterIPPool'' ''pool'') \<and> k = (''ns'', ''new'')
     \<or> c = demo_claim ''net'' (demo_ref ''InClusterPrefixPool'' ''prefixes'') \<and> k = (''ns'', ''net'')"
  by (auto simp: ref_addr_def ref_claim_def lookup_def demo_world_def demo_address_def demo_claim_def
      demo_meta_def address_key_def claim_key_def split: if_splits)


lemma demo_fetch_new:
  "in_cluster_FetchPool ref_kube
      (ClaimHandlerFor (demo_claim ''new'' (demo_ref ''InClusterIPPool'' ''pool''))) demo_world =
    (IPHandler \<lparr>h_claim = demo_claim ''new'' (demo_ref ''InClusterIPPool'' ''pool''),
                h_pool = Some (NsPool demo_pool)\<rparr>,
     Some (AddressPool (NsPool demo_pool)), None, None)"
  by (simp add: in_cluster_FetchPool_def ClaimHandlerFor_def IPAddressClaimHandler_FetchPool_def
      demo_claim_def demo_ref_def demo_meta_def kind_defs ref_kube_def found_def
      lookup_def meta_key_def demo_world_def demo_pool_def pool_kind_gvk_def)

subsection \<open>Properties\<close>



text \<open>C3: no address leaks. In every reachable state, for any provider, each address that
  is not marked for deletion has a claim of its name that holds the release finalizer, if
  this was so at the start; others may change what they like but create no addresses,
  revive none, and keep the finalizer of a claim.\<close>

theorem every_address_has_a_claim:
  fixes K :: "'w kube" and A :: "('h, 'w) provider_adapter"
  assumes "kube_laws K st_addr st_claim" "reachable K A env w0 w"
    and "no_leak (st_addr w0) (st_claim w0)"
    and "\<And>w w'. env w w' \<Longrightarrow> addresses_only_shrink (st_addr w) (st_addr w')
      \<and> finalizers_kept (st_claim w) (st_claim w')"
    and "st_addr w k = Some a" "om_deletion (ia_meta a) = None" "snd k \<noteq> []"
  shows "\<exists>c. st_claim w k = Some c \<and> ReleaseAddressFinalizer \<in> set (om_finalizers (ic_meta c))"
proof -
  have "no_leak (st_addr w) (st_claim w)"
    by (rule reachable_invariant [OF assms(2), where P = "\<lambda>w. no_leak (st_addr w) (st_claim w)"])
      (use assms(3,4) kube_laws.Reconcile_no_leak [OF assms(1)] no_leak_others in blast)+
  with assms(5-7) show ?thesis unfolding no_leak_def gone_def by blast
qed

lemma every_address_has_a_claim_witness:
  "let w0 = demo_world\<lparr>rw_addresses := []\<rparr>;
       w = fst (Reconcile ref_kube demo_adapter (''ns'', ''new'') w0)
   in ref_addr w (''ns'', ''new'') \<noteq> None \<and>
     (\<exists>c. ref_claim w (''ns'', ''new'') = Some c \<and> ReleaseAddressFinalizer \<in> set (om_finalizers (ic_meta c)))"
  unfolding Let_def
proof -
  define start where "start = demo_world\<lparr>rw_addresses := []\<rparr>"
  define w where "w = fst (Reconcile ref_kube demo_adapter (''ns'', ''new'') start)"
  have "(case ref_addr w (''ns'', ''new'') of None \<Rightarrow> False
      | Some a \<Rightarrow> Option.is_none (om_deletion (ia_meta a)))"
    unfolding w_def start_def by code_simp
  then obtain a where a: "ref_addr w (''ns'', ''new'') = Some a" "om_deletion (ia_meta a) = None"
    by (auto simp: Option.is_none_def split: option.splits)
  have reach: "reachable ref_kube demo_adapter (\<lambda>_ _. False) start w"
    unfolding w_def by (rule reachable.reconcile [OF reachable.start prod.collapse [symmetric]])
  have none: "no_leak (ref_addr start) (ref_claim start)"
    by (simp add: no_leak_def gone_def ref_addr_def lookup_def start_def)
  have "\<exists>c. ref_claim w (''ns'', ''new'') = Some c
      \<and> ReleaseAddressFinalizer \<in> set (om_finalizers (ic_meta c))"
  proof (rule every_address_has_a_claim [OF ref_kube.kube_laws_axioms reach none])
    show "ref_addr w (''ns'', ''new'') = Some a" "om_deletion (ia_meta a) = None" by (rule a)+
    show "snd (''ns'', ''new'') \<noteq> []" by simp
  qed blast
  with a show "ref_addr (fst (Reconcile ref_kube demo_adapter (''ns'', ''new'')
        (demo_world\<lparr>rw_addresses := []\<rparr>))) (''ns'', ''new'') \<noteq> None \<and>
    (\<exists>c. ref_claim (fst (Reconcile ref_kube demo_adapter (''ns'', ''new'')
        (demo_world\<lparr>rw_addresses := []\<rparr>))) (''ns'', ''new'') = Some c
      \<and> ReleaseAddressFinalizer \<in> set (om_finalizers (ic_meta c)))"
    unfolding start_def [symmetric] w_def [symmetric] by simp
qed

text \<open>C5: a reconciliation writes to nothing but the claim it was called for and the address
  of the same name, and to this address only if the stored claim already has the release
  finalizer.\<close>

theorem Reconcile_own_objects:
  fixes K :: "'w kube" and A :: "('h, 'w) provider_adapter"
  assumes "kube_laws K st_addr st_claim" "Reconcile K A k w = (w', r)"
  shows "(\<forall>j. j \<noteq> k \<longrightarrow> st_addr w' j = st_addr w j \<and> st_claim w' j = st_claim w j)
    \<and> (st_addr w' k = st_addr w k
       \<or> (\<exists>c. st_claim w k = Some c \<and> ReleaseAddressFinalizer \<in> set (om_finalizers (ic_meta c))))"
proof -
  have "st_addr w' k = st_addr w k
      \<or> (\<exists>c. st_claim w k = Some c \<and> ReleaseAddressFinalizer \<in> set (om_finalizers (ic_meta c)))"
    by (cases "st_addr w' = st_addr w")
      (auto intro: kube_laws.Reconcile_finalizer_first [OF assms])
  with kube_laws.Reconcile_frame [OF assms] show ?thesis by blast
qed

lemma Reconcile_own_objects_witness:
  "let w = demo_world; w' = demo_run ''new''; k = (''ns'', ''new'')
   in (\<forall>j. j \<noteq> k \<longrightarrow> ref_addr w' j = ref_addr w j \<and> ref_claim w' j = ref_claim w j)
    \<and> (ref_addr w' k = ref_addr w k
       \<or> (\<exists>c. ref_claim w k = Some c \<and> ReleaseAddressFinalizer \<in> set (om_finalizers (ic_meta c))))"
  unfolding Let_def
  unfolding demo_run_def
  by (rule Reconcile_own_objects [OF ref_kube.kube_laws_axioms prod.collapse [symmetric]])

text \<open>C6: reconciliation with the in-cluster provider returns. It never runs forever, and it
  panics only if the address pool the claim names has a spec that does not parse.\<close>

theorem Reconcile_terminates:
  fixes nx :: "('b, 's) netipx" and K :: "'w kube"
  assumes "netipx_laws nx bips bok" "kube_laws K st_addr st_claim"
    and "Reconcile K (in_cluster_adapter nx K) k w = (w', r)"
  shows "(\<exists>res err. r = Done (res, err))
    \<or> (\<exists>m c h pool. r = Panicked m \<and> st_claim w k = Some c
         \<and> in_cluster_FetchPool K (ClaimHandlerFor c) w = (h, Some (AddressPool pool), None, None)
         \<and> \<not> spec_parses (PoolSpec pool))"
  by (rule in_cluster.reconcile_returns [OF in_cluster.intro [OF assms(1,2)] assms(3)])

lemma Reconcile_terminates_witness:
  "let r = snd (Reconcile ref_kube (in_cluster_adapter ref_netipx ref_kube) (''ns'', ''net'') demo_world)
   in r = Done (no_result, None) \<and>
    ((\<exists>res err. r = Done (res, err))
    \<or> (\<exists>m c h pool. r = Panicked m \<and> ref_claim demo_world (''ns'', ''net'') = Some c
         \<and> in_cluster_FetchPool ref_kube (ClaimHandlerFor c) demo_world =
             (h, Some (AddressPool pool), None, None)
         \<and> \<not> spec_parses (PoolSpec pool)))"
  unfolding Let_def
  by (rule conjI, code_simp)
    (rule Reconcile_terminates [OF ref.netipx_laws_axioms ref_kube.kube_laws_axioms prod.collapse [symmetric]])

text \<open>C8: the grace period is kept. While the grace period of its address pool runs,
  reconciling a deleted claim changes no address and leaves the claim its finalizer, so the
  address stays reserved.\<close>

theorem grace_period_kept:
  fixes nx :: "('b, 's) netipx" and K :: "'w kube"
  assumes "netipx_laws nx bips bok" "kube_laws K st_addr st_claim"
    and "st_claim w k = Some c" "om_deletion (ic_meta c) = Some t"
    and "in_cluster_FetchPool K (ClaimHandlerFor c) w = (h, Some (AddressPool pool), None, None)"
    and "\<And>s. AddressReuseGracePeriodSeconds (PoolSpec pool) = Some s \<Longrightarrow> s < 2 ^ 31"
    and "\<bar>k_now K w - t\<bar> \<le> 2 ^ 62" "grace_left pool t (k_now K w) > 0"
    and "Reconcile K (in_cluster_adapter nx K) k w = (w', r)"
  shows "st_addr w' = st_addr w \<and> (ReleaseAddressFinalizer \<in> set (om_finalizers (ic_meta c)) \<longrightarrow>
    (\<exists>d. st_claim w' k = Some d \<and> ReleaseAddressFinalizer \<in> set (om_finalizers (ic_meta d))))"
  by (rule in_cluster.grace_holds [OF in_cluster.intro [OF assms(1,2)] assms(3-9)])

definition demo_deleted :: ip_claim where
  "demo_deleted = (let c = demo_claim ''old'' (demo_ref ''InClusterIPPool'' ''pool'')
     in c\<lparr>ic_meta := (ic_meta c)\<lparr>om_deletion := Some 400\<rparr>\<rparr>)"

lemma grace_period_kept_witness:
  "let w = demo_world\<lparr>rw_claims := [demo_deleted]\<rparr>; k = (''ns'', ''old'');
       w' = fst (Reconcile ref_kube (in_cluster_adapter ref_netipx ref_kube) k w)
   in ref_addr w' = ref_addr w \<and>
     (ReleaseAddressFinalizer \<in> set (om_finalizers (ic_meta demo_deleted)) \<longrightarrow>
      (\<exists>d. ref_claim w' k = Some d \<and> ReleaseAddressFinalizer \<in> set (om_finalizers (ic_meta d))))"
  unfolding Let_def
proof (rule grace_period_kept [OF ref.netipx_laws_axioms ref_kube.kube_laws_axioms])
  show "ref_claim (demo_world\<lparr>rw_claims := [demo_deleted]\<rparr>) (''ns'', ''old'') = Some demo_deleted"
    by (simp add: ref_claim_def lookup_def demo_deleted_def demo_claim_def demo_meta_def claim_key_def)
  show "om_deletion (ic_meta demo_deleted) = Some 400" by (simp add: demo_deleted_def Let_def)
  show "in_cluster_FetchPool ref_kube (ClaimHandlerFor demo_deleted) (demo_world\<lparr>rw_claims := [demo_deleted]\<rparr>) =
      (IPHandler \<lparr>h_claim = demo_deleted, h_pool = Some (NsPool demo_pool)\<rparr>,
       Some (AddressPool (NsPool demo_pool)), None, None)"
    by (simp add: in_cluster_FetchPool_def ClaimHandlerFor_def IPAddressClaimHandler_FetchPool_def
        demo_deleted_def demo_claim_def demo_ref_def demo_meta_def kind_defs ref_kube_def found_def
        lookup_def meta_key_def demo_world_def demo_pool_def pool_kind_gvk_def)
  show "s < 2 ^ 31" if "AddressReuseGracePeriodSeconds (PoolSpec (NsPool demo_pool)) = Some s" for s
    using that by (simp add: demo_pool_def demo_spec_def)
  show "\<bar>k_now ref_kube (demo_world\<lparr>rw_claims := [demo_deleted]\<rparr>) - 400\<bar> \<le> 2 ^ 62"
    "0 < grace_left (NsPool demo_pool) 400 (k_now ref_kube (demo_world\<lparr>rw_claims := [demo_deleted]\<rparr>))"
    by (simp_all add: ref_kube_def demo_world_def grace_left_def demo_pool_def demo_meta_def empty_meta_def
        demo_spec_def time_Second_def)
qed (rule prod.collapse [symmetric])

text \<open>C2: a claim is served. If the API server answers and the address pool of the claim is
  there, not paused, parses and has a free address, then one reconciliation of a claim that
  holds the finalizer, belongs to no cluster and is not being deleted stores a protected
  address that takes exactly the least free address of the pool, names it in the claim, and
  reports success.\<close>

theorem claim_is_served:
  fixes nx :: "('b, 's) netipx" and K :: "'w kube"
  assumes "netipx_laws nx bips bok" "kube_up K st_addr st_claim"
    and "st_claim w k = Some c" "om_deletion (ic_meta c) = None"
    and "ReleaseAddressFinalizer \<in> set (om_finalizers (ic_meta c))" "in_group c"
    and "fetch_cluster K c w = Inr None"
    and "in_cluster_FetchPool K (ClaimHandlerFor c) w = (h, Some (AddressPool pool), None, None)"
    and "\<not> k_has_paused K (pool_meta pool)" "spec_parses (PoolSpec pool)"
    and "ListAddressesInUse K (om_namespace (pool_meta pool)) (ic_pool_ref c) w = Inr as"
    and "entries_set (buildAddressList as (Gateway (PoolSpec pool))) = Some U"
    and "\<not> pool_addrs (PoolSpec pool) \<subseteq> U" "st_addr w k = None"
    and "Reconcile K (in_cluster_adapter nx K) k w = (w', r)"
  shows "r = Done (no_result, None)
    \<and> (\<exists>a. st_addr w' k = Some a \<and> alloc_set a = {Min (pool_addrs (PoolSpec pool) - U)}
         \<and> ProtectAddressFinalizer \<in> set (om_finalizers (ia_meta a)))
    \<and> (\<exists>d. st_claim w' k = Some d \<and> ic_address_ref d = snd k)"
proof -
  have laws: "kube_laws K st_addr st_claim" using assms(2) by (rule kube_up.axioms(1))
  have "in_cluster_up nx bips bok K st_addr st_claim"
    by (rule in_cluster_up.intro [OF in_cluster.intro [OF assms(1) laws] assms(2)])
  then show ?thesis by (rule in_cluster_up.served) (rule assms)+
qed

lemma claim_is_served_witness:
  "let w = demo_world; k = (''ns'', ''new''); pool = NsPool demo_pool;
       as = projr (ListAddressesInUse ref_kube ''ns'' (demo_ref ''InClusterIPPool'' ''pool'') w);
       U = ips ref_netipx (projr (AddressesToIPSet ref_netipx (buildAddressList as (Gateway demo_spec))));
       w' = demo_run ''new'';
       r = snd (Reconcile ref_kube (in_cluster_adapter ref_netipx ref_kube) k w)
   in r = Done (no_result, None)
    \<and> (\<exists>a. ref_addr w' k = Some a \<and> alloc_set a = {Min (pool_addrs (PoolSpec pool) - U)}
         \<and> ProtectAddressFinalizer \<in> set (om_finalizers (ia_meta a)))
    \<and> (\<exists>d. ref_claim w' k = Some d \<and> ic_address_ref d = snd k)"
  unfolding Let_def demo_run_def demo_adapter_def
proof (rule claim_is_served [OF ref.netipx_laws_axioms ref_up.kube_up_axioms])
  let ?c = "demo_claim ''new'' (demo_ref ''InClusterIPPool'' ''pool'')"
  let ?as = "projr (ListAddressesInUse ref_kube ''ns'' (demo_ref ''InClusterIPPool'' ''pool'') demo_world)"
  let ?in_use = "AddressesToIPSet ref_netipx (buildAddressList ?as (Gateway demo_spec))"
  show "ref_claim demo_world (''ns'', ''new'') = Some ?c"
    by (simp add: ref_claim_def lookup_def demo_world_def demo_claim_def demo_meta_def claim_key_def)
  show "ref_addr demo_world (''ns'', ''new'') = None"
    by (simp add: ref_addr_def lookup_def demo_world_def demo_address_def demo_meta_def address_key_def)
  show "om_deletion (ic_meta ?c) = None" "in_group ?c"
    "ReleaseAddressFinalizer \<in> set (om_finalizers (ic_meta ?c))"
    by code_simp+
  show "fetch_cluster ref_kube ?c demo_world = Inr None"
    by (simp add: fetch_cluster_def demo_claim_def demo_meta_def empty_meta_def)
  show "in_cluster_FetchPool ref_kube (ClaimHandlerFor ?c) demo_world =
      (IPHandler \<lparr>h_claim = ?c, h_pool = Some (NsPool demo_pool)\<rparr>,
       Some (AddressPool (NsPool demo_pool)), None, None)"
    by (rule demo_fetch_new)
  show "\<not> k_has_paused ref_kube (pool_meta (NsPool demo_pool))" by code_simp
  show parses: "spec_parses (PoolSpec (NsPool demo_pool))" by (rule ref.PoolSpecToIPSet_parses) code_simp
  show "ListAddressesInUse ref_kube (om_namespace (pool_meta (NsPool demo_pool))) (ic_pool_ref ?c) demo_world = Inr ?as"
    by (simp only: demo_sel, rule not_isl_projr, code_simp)
  show "entries_set (buildAddressList ?as (Gateway (PoolSpec (NsPool demo_pool)))) = Some (ips ref_netipx (projr ?in_use))"
    by (simp only: demo_sel, rule ref.AddressesToIPSet_projr, code_simp)
  have "V4 0x0A000003 \<in> pool_addrs demo_spec"
    by (rule ref.PoolSpecToIPSet_contains) code_simp
  moreover have "V4 0x0A000003 \<notin> ips ref_netipx (projr ?in_use)"
    unfolding ips_def mem_Collect_eq by code_simp
  ultimately show "\<not> pool_addrs (PoolSpec (NsPool demo_pool)) \<subseteq> ips ref_netipx (projr ?in_use)"
    by (simp only: demo_sel) blast
qed (rule prod.collapse [symmetric])

text \<open>C7: admitted pools do not stop the reconciler. If the address pool a claim names is one
  that the webhook admits, then reconciling the claim returns a result: validation rules out
  the specs on which the search for an address panics.\<close>

theorem admitted_pools_reconcile:
  fixes nx :: "('b, 's) netipx" and K :: "'w kube"
  assumes "netipx_laws nx bips bok" "kube_laws K st_addr st_claim"
    and "\<And>c h pool. st_claim w k = Some c \<Longrightarrow>
      in_cluster_FetchPool K (ClaimHandlerFor c) w = (h, Some (AddressPool pool), None, None) \<Longrightarrow>
      InClusterIPPool_ValidateCreate nx pool = Ok ([], None)"
    and "Reconcile K (in_cluster_adapter nx K) k w = (w', r)"
  shows "\<exists>res err. r = Done (res, err)"
proof -
  have "spec_parses (PoolSpec pool)"
    if "st_claim w k = Some c"
      "in_cluster_FetchPool K (ClaimHandlerFor c) w = (h, Some (AddressPool pool), None, None)" for c h pool
    using netipx_laws.admitted_admissible [OF assms(1) assms(3) [OF that]] by (rule admissible_parses)
  with in_cluster.reconcile_returns [OF in_cluster.intro [OF assms(1,2)] assms(4)]
  show ?thesis by blast
qed

lemma admitted_pools_reconcile_witness:
  "\<exists>res err. snd (Reconcile ref_kube (in_cluster_adapter ref_netipx ref_kube) (''ns'', ''new'') demo_world)
     = Done (res, err)"
proof (rule admitted_pools_reconcile [OF ref.netipx_laws_axioms ref_kube.kube_laws_axioms _ prod.collapse [symmetric]])
  fix c h pool
  assume c: "ref_claim demo_world (''ns'', ''new'') = Some c"
    and fetch: "in_cluster_FetchPool ref_kube (ClaimHandlerFor c) demo_world
      = (h, Some (AddressPool pool), None, None)"
  from c have "c = demo_claim ''new'' (demo_ref ''InClusterIPPool'' ''pool'')"
    by (auto dest: demo_stores(2))
  with fetch have "pool = NsPool demo_pool"
    by (simp add: demo_fetch_new)
  moreover have "InClusterIPPool_ValidateCreate ref_netipx (NsPool demo_pool) = Ok ([], None)" by code_simp
  ultimately show "InClusterIPPool_ValidateCreate ref_netipx pool = Ok ([], None)" by simp
qed



end
